(* ===== verification/Beam_Prelude.thy ===== *)
theory Beam_Prelude
  imports Main "HOL-Library.Word" "HOL-Library.Monad_Syntax"
begin

text \<open>
  Shared vocabulary of the development: the C integer types as words, the status codes of
  \<^verbatim>\<open>include/beam_core.h\<close>, the collections of rewrite rules, and the
  generic facts on lists and words that the component theories use.

  An operation whose C code can run into undefined behaviour (a null or dangling pointer, an
  index outside its array) returns an \<open>option\<close>: \<open>None\<close> is the undefined
  behaviour, \<open>Some\<close> the value the code computes. Status codes are ordinary values.
\<close>

unbundle bit_operations_syntax

type_synonym eterm = "64 word"
type_synonym ptr = "64 word"
type_synonym size_t = "64 word"
type_synonym u8 = "8 word"
type_synonym u16 = "16 word"
type_synonym u32 = "32 word"

datatype beam_result =
    BEAM_OK
  | BEAM_ERR_INVALID_ARG
  | BEAM_ERR_NO_MEMORY
  | BEAM_ERR_NOT_FOUND
  | BEAM_ERR_HALT
  | BEAM_ERR_CORRUPT_FILE
  | BEAM_ERR_BADARG
  | BEAM_ERR_EXCEPTION

named_theorems beam_defs \<open>definitions of the model, unfolded to evaluate a concrete run\<close>

subsection \<open>Options\<close>

lemma bind_eq_SomeD:
  "Option.bind x f = Some y \<Longrightarrow> \<exists>z. x = Some z \<and> f z = Some y"
  by (simp add: bind_eq_Some_conv)

lemma bind_SomeE [elim]:
  assumes "Option.bind x f = Some y"
  obtains z where "x = Some z" "f z = Some y"
  using assms by (auto simp: bind_eq_Some_conv)

text \<open>
  Evaluation of a concrete run from left to right: the rest of a computation is not simplified before
  its first step has a value.
\<close>

lemma bind_weak_cong: "x = y \<Longrightarrow> Option.bind x f = Option.bind y f"
  by simp

subsection \<open>Words read as natural numbers\<close>

lemma unat_add_no_wrap:
  fixes a b :: "'a::len word"
  assumes "unat a + unat b < 2 ^ LENGTH('a)"
  shows "unat (a + b) = unat a + unat b"
  using assms by (simp add: unat_word_ariths)

lemma unat_add_le:
  fixes a b c :: "'a::len word"
  assumes "unat a + unat b \<le> unat c"
  shows "unat (a + b) = unat a + unat b"
  using order_le_less_trans [OF assms unsigned_less] by (rule unat_add_no_wrap)

lemma unat_add_1:
  fixes a c :: "'a::len word"
  assumes "unat a < unat c"
  shows "unat (a + 1) = unat a + 1"
proof -
  have "unat a + 1 < 2 ^ LENGTH('a)"
    using order_le_less_trans [OF Suc_leI [OF assms] unsigned_less] by simp
  then show ?thesis by (simp add: unat_word_ariths)
qed

lemma unat_of_nat_small:
  assumes "n < 2 ^ LENGTH('a)"
  shows "unat (of_nat n :: 'a::len word) = n"
  using assms by (simp add: unsigned_of_nat take_bit_nat_eq_self)

lemma word_of_nat_eq:
  assumes "a < 2 ^ LENGTH('a)" "b < 2 ^ LENGTH('a)" "(of_nat a :: 'a::len word) = of_nat b"
  shows "a = b"
proof -
  have "unat (of_nat a :: 'a word) = unat (of_nat b :: 'a word)" using assms(3) by (rule arg_cong)
  then show ?thesis using assms(1,2) by (simp only: unat_of_nat_small)
qed

lemma ucast_of_nat_32: "ucast (of_nat n :: 64 word) = (of_nat n :: 32 word)"
  by (rule bit_word_eqI) (auto simp: bit_simps)

lemma unat_8_mult:
  fixes a :: "64 word"
  assumes "unat a < 2 ^ 61"
  shows "unat (8 * a) = 8 * unat a"
  using assms by (simp add: unat_word_ariths)

subsection \<open>Masks\<close>

lemma and_not_mask_eq: "w AND NOT (mask n) = push_bit n (drop_bit n (w :: 'a::len word))"
  by (rule bit_word_eqI) (auto simp: bit_simps)

lemma unat_and_not_mask:
  fixes w :: "'a::len word"
  assumes "n < LENGTH('a)"
  shows "unat (w AND NOT (mask n)) = unat w div 2 ^ n * 2 ^ n"
proof -
  have less: "unat w div 2 ^ n * 2 ^ n < 2 ^ LENGTH('a)"
    using div_times_less_eq_dividend unsigned_less by (rule order_le_less_trans)
  have "unat (w AND NOT (mask n)) = take_bit LENGTH('a) (push_bit n (drop_bit n (unat w)))"
    by (simp only: and_not_mask_eq unsigned_push_bit_eq unsigned_drop_bit_eq)
      (simp add: take_bit_nat_eq_self)
  also have "\<dots> = unat w div 2 ^ n * 2 ^ n"
    using less by (simp add: push_bit_eq_mult drop_bit_eq_div take_bit_nat_eq_self)
  finally show ?thesis .
qed

lemma unat_and_mask: "unat (w AND mask n) = unat (w :: 'a::len word) mod 2 ^ n"
proof -
  have "unat (w AND mask n) = take_bit n (unat w)"
    by (simp only: take_bit_eq_mask [symmetric] unsigned_take_bit_eq)
  then show ?thesis by (simp add: take_bit_eq_mod)
qed

end
