(* ===== verification/Beam_Machine.thy ===== *)
theory Beam_Machine
  imports Beam_Prelude
begin

text \<open>
  The memory of the C program. A machine state holds the 64-bit word at every address, the
  objects handed out by an allocator vtable (\<open>live\<close>), the blocks the allocators keep for
  themselves (\<open>raw\<close>: allocator contexts and arena buffers), and the contexts of the two
  allocators of \<^verbatim>\<open>src/memory/beam_alloc_internal.h\<close>.

  The choices of \<open>malloc\<close> and \<open>realloc\<close> are the list \<open>malloc_results\<close>: each call
  takes the next entry and returns it when it is an address the C library may return (not null,
  aligned, inside user space, disjoint from every block in use), and returns the null pointer
  otherwise. Theorems quantify over the whole list, so they cover every behaviour of the
  library's allocator, failures included.

  Words are read and written at 8-byte aligned addresses inside a live object; any other access
  is undefined behaviour.
\<close>

subsection \<open>State\<close>

record system_alloc_state =
  total_allocated :: size_t
  total_freed :: size_t
  active_allocs :: size_t
  peak_bytes :: size_t

record arena_alloc_state =
  buffer :: ptr
  capacity :: size_t
  offset :: size_t
  alloc_count :: size_t

type_synonym block = "ptr \<times> size_t"

record machine =
  words :: "ptr \<Rightarrow> eterm"
  live :: "block list"
  raw :: "block list"
  malloc_results :: "ptr list"
  sys_states :: "ptr \<rightharpoonup> system_alloc_state"
  arenas :: "ptr \<rightharpoonup> arena_alloc_state"

subsection \<open>Blocks\<close>

definition stop :: "block \<Rightarrow> nat" where
  "stop b = unat (fst b) + max 1 (unat (snd b))"

definition apart :: "block \<Rightarrow> block \<Rightarrow> bool" where
  "apart a b \<longleftrightarrow> stop a \<le> unat (fst b) \<or> stop b \<le> unat (fst a)"

definition in_block :: "ptr \<Rightarrow> block \<Rightarrow> bool" where
  "in_block p b \<longleftrightarrow> unat (fst b) \<le> unat p \<and> unat p + 8 \<le> unat (fst b) + unat (snd b)"

definition aligned8 :: "ptr \<Rightarrow> bool" where
  "aligned8 p \<longleftrightarrow> p AND 7 = 0"

definition accessible :: "'a machine_scheme \<Rightarrow> ptr \<Rightarrow> bool" where
  "accessible m p \<longleftrightarrow> aligned8 p \<and> list_ex (in_block p) (live m)"

definition rd :: "'a machine_scheme \<Rightarrow> ptr \<Rightarrow> eterm option" where
  "rd m p = (if accessible m p then Some (words m p) else None)"

definition wr :: "ptr \<Rightarrow> eterm \<Rightarrow> 'a machine_scheme \<Rightarrow> 'a machine_scheme option" where
  "wr p v m = (if accessible m p then Some (m\<lparr>words := (words m)(p := v)\<rparr>) else None)"

fun wr_list :: "ptr \<Rightarrow> eterm list \<Rightarrow> 'a machine_scheme \<Rightarrow> 'a machine_scheme option" where
  "wr_list p [] m = Some m"
| "wr_list p (v # vs) m = do { m' \<leftarrow> wr p v m; wr_list (p + 8) vs m' }"

subsection \<open>The C library's allocator\<close>

definition legal_block :: "'a machine_scheme \<Rightarrow> block \<Rightarrow> bool" where
  "legal_block m b \<longleftrightarrow> fst b \<noteq> 0 \<and> aligned8 (fst b) \<and> unat (fst b) + unat (snd b) < 2 ^ 63 \<and>
     list_all (apart b) (live m) \<and> list_all (apart b) (raw m)"

definition next_result :: "'a machine_scheme \<Rightarrow> ptr" where
  "next_result m = (case malloc_results m of [] \<Rightarrow> 0 | p # _ \<Rightarrow> p)"

definition next_block :: "size_t \<Rightarrow> 'a machine_scheme \<Rightarrow> ptr \<times> 'a machine_scheme" where
  "next_block n m =
     (let p = next_result m; m' = m\<lparr>malloc_results := tl (malloc_results m)\<rparr>
      in if legal_block m (p, n) then (p, m') else (0, m'))"

definition malloc :: "size_t \<Rightarrow> 'a machine_scheme \<Rightarrow> ptr \<times> 'a machine_scheme" where
  "malloc n m =
     (case next_block n m of (p, m') \<Rightarrow>
        (p, if p = 0 then m' else m'\<lparr>live := (p, n) # live m'\<rparr>))"

definition malloc_raw :: "size_t \<Rightarrow> 'a machine_scheme \<Rightarrow> ptr \<times> 'a machine_scheme" where
  "malloc_raw n m =
     (case next_block n m of (p, m') \<Rightarrow>
        (p, if p = 0 then m' else m'\<lparr>raw := (p, n) # raw m'\<rparr>))"

definition drop_block :: "ptr \<Rightarrow> block list \<Rightarrow> block list" where
  "drop_block p bs = filter (\<lambda>b. fst b \<noteq> p) bs"

text \<open>\<open>free\<close>: the null pointer is ignored, a pointer that is not in use is undefined behaviour.\<close>

definition libc_free :: "ptr \<Rightarrow> 'a machine_scheme \<Rightarrow> 'a machine_scheme option" where
  "libc_free p m =
     (if p = 0 then Some m
      else if p \<in> fst ` set (live m) then Some (m\<lparr>live := drop_block p (live m)\<rparr>)
      else None)"

definition free_raw :: "ptr \<Rightarrow> 'a machine_scheme \<Rightarrow> 'a machine_scheme option" where
  "free_raw p m =
     (if p = 0 then Some m
      else if p \<in> fst ` set (raw m) then Some (m\<lparr>raw := drop_block p (raw m)\<rparr>)
      else None)"

definition block_size :: "ptr \<Rightarrow> block list \<Rightarrow> size_t option" where
  "block_size p bs = map_of bs p"

text \<open>
  The contents of the old block, up to the smaller of the two sizes, at the new address.
\<close>

definition move_words :: "ptr \<Rightarrow> ptr \<Rightarrow> nat \<Rightarrow> (ptr \<Rightarrow> eterm) \<Rightarrow> (ptr \<Rightarrow> eterm)" where
  "move_words old new n w =
     (\<lambda>a. if unat new \<le> unat a \<and> unat a < unat new + n then w (a - new + old) else w a)"

definition libc_realloc ::
    "ptr \<Rightarrow> size_t \<Rightarrow> 'a machine_scheme \<Rightarrow> (ptr \<times> 'a machine_scheme) option" where
  "libc_realloc p n m =
     (if p = 0 then Some (malloc n m)
      else case block_size p (live m) of
        None \<Rightarrow> None
      | Some k \<Rightarrow>
          (let m1 = m\<lparr>live := drop_block p (live m)\<rparr>
           in case malloc n m1 of (q, m2) \<Rightarrow>
                if q = 0 then Some (0, m\<lparr>malloc_results := malloc_results m2\<rparr>)
                else Some (q, m2\<lparr>words := move_words p q (min (unat k) (unat n)) (words m2)\<rparr>)))"

lemmas machine_defs =
  stop_def apart_def in_block_def aligned8_def accessible_def rd_def wr_def legal_block_def
  next_result_def next_block_def malloc_def malloc_raw_def drop_block_def libc_free_def
  free_raw_def block_size_def libc_realloc_def

lemmas [beam_defs] = machine_defs

subsection \<open>Reading and writing words\<close>

lemma accessible_words_update [simp]:
  "accessible (m\<lparr>words := f\<rparr>) p = accessible m p"
  by (simp add: accessible_def)

lemma rd_Some_iff [simp]: "rd m p = Some v \<longleftrightarrow> accessible m p \<and> words m p = v"
  by (auto simp: rd_def)

lemma rd_None_iff [simp]: "rd m p = None \<longleftrightarrow> \<not> accessible m p"
  by (simp add: rd_def)

lemma wr_Some_iff:
  "wr p v m = Some m' \<longleftrightarrow> accessible m p \<and> m' = m\<lparr>words := (words m)(p := v)\<rparr>"
  by (auto simp: wr_def)

lemma rd_after_wr:
  "wr p v m = Some m' \<Longrightarrow> rd m' q = (if q = p then Some v else rd m q)"
  by (auto simp: wr_def rd_def split: if_splits)

lemma accessible_wr: "wr p v m = Some m' \<Longrightarrow> accessible m' q = accessible m q"
  by (auto simp: wr_def split: if_splits)

lemma accessibleI:
  assumes "(b, n) \<in> set (live m)" "aligned8 p" "unat b \<le> unat p" "unat p + 8 \<le> unat b + unat n"
  shows "accessible m p"
  using assms by (force simp: accessible_def list_ex_iff in_block_def)

lemma aligned8_iff: "aligned8 p \<longleftrightarrow> unat p mod 8 = 0"
proof -
  have "p AND 7 = take_bit 3 p"
    using take_bit_eq_mask [of 3 p] by (simp add: mask_eq_exp_minus_1)
  then have "aligned8 p \<longleftrightarrow> unat (take_bit 3 p) = 0"
    by (simp add: aligned8_def unsigned_eq_0_iff)
  also have "unat (take_bit 3 p) = unat p mod 8"
    by (simp add: take_bit_eq_mod unat_mod_distrib)
  finally show ?thesis .
qed

lemma aligned8_add: "aligned8 p \<Longrightarrow> aligned8 q \<Longrightarrow> aligned8 (p + q)"
proof -
  assume "aligned8 p" "aligned8 q"
  then have "8 dvd unat p" "8 dvd unat q"
    by (auto simp: aligned8_iff)
  then have "8 dvd (unat p + unat q) mod 2 ^ 64"
    by (simp add: dvd_mod)
  then show ?thesis
    by (simp add: aligned8_iff unat_word_ariths)
qed

lemma aligned8_mult [simp]: "aligned8 (8 * p)"
proof -
  have "8 dvd (8 * unat p) mod 2 ^ 64"
    by (simp add: dvd_mod)
  then show ?thesis
    by (simp add: aligned8_iff unat_word_ariths)
qed

subsection \<open>Disjoint blocks\<close>

lemma apart_sym: "apart a b = apart b a"
  by (auto simp: apart_def)

lemma apart_distinct_base: "apart a b \<Longrightarrow> fst a \<noteq> fst b"
  by (auto simp: apart_def stop_def)

lemma in_block_apart: "in_block p a \<Longrightarrow> apart a b \<Longrightarrow> \<not> in_block p b"
  by (auto simp: in_block_def apart_def stop_def)

lemma sorted_wrt_apart_unique:
  assumes "sorted_wrt apart bs" "b \<in> set bs" "c \<in> set bs" "fst b = fst c"
  shows "b = c"
  using assms
proof (induction bs)
  case Nil
  then show ?case by simp
next
  case (Cons d bs)
  then have "\<And>e. e \<in> set bs \<Longrightarrow> fst d \<noteq> fst e"
    using apart_distinct_base by simp
  with Cons show ?case by (metis set_ConsD sorted_wrt.simps(2))
qed

lemma sorted_wrt_apart_distinct: "sorted_wrt apart bs \<Longrightarrow> distinct (map fst bs)"
  by (induction bs) (auto dest: apart_distinct_base)

lemma set_drop_block [simp]: "set (drop_block p bs) = {b \<in> set bs. fst b \<noteq> p}"
  by (auto simp: drop_block_def)

lemma sorted_wrt_drop_block: "sorted_wrt apart bs \<Longrightarrow> sorted_wrt apart (drop_block p bs)"
  by (simp add: drop_block_def sorted_wrt_filter)

subsection \<open>Results of the C library\<close>

lemma malloc_cases:
  obtains (null) "malloc n m = (0, m\<lparr>malloc_results := tl (malloc_results m)\<rparr>)"
  | (block) p where "legal_block m (p, n)" "p \<noteq> 0"
      "malloc n m = (p, m\<lparr>malloc_results := tl (malloc_results m), live := (p, n) # live m\<rparr>)"
proof (cases "legal_block m (next_result m, n)")
  case True
  then have "next_result m \<noteq> 0"
    by (simp add: legal_block_def)
  with True show ?thesis
    by (intro block [of "next_result m"]) (simp_all add: malloc_def next_block_def Let_def)
next
  case False
  then show ?thesis
    by (intro null) (simp add: malloc_def next_block_def Let_def)
qed

end
