(* ===== verification/Beam_Alloc.thy ===== *)
theory Beam_Alloc
  imports Beam_Machine
begin

text \<open>
  The allocator vtable of \<^verbatim>\<open>include/beam_memory.h\<close> and its two providers in
  \<^verbatim>\<open>src/memory/beam_alloc.c\<close>: the system allocator, which counts what it hands out,
  and the bump-pointer arena. The contract every client of the vtable relies on is the locale
  \<open>allocator_contract\<close>; it is interpreted on the dispatch through any well-formed vtable.
\<close>

subsection \<open>The vtable\<close>

text \<open>A function pointer of the vtable is null or points to one of the two implementations.\<close>

datatype alloc_fn = FN_NULL | FN_SYS | FN_ARENA

record beam_allocator_i =
  vt_ctx :: ptr
  vt_alloc :: alloc_fn
  vt_realloc :: alloc_fn
  vt_free :: alloc_fn

record beam_memory_stats =
  total_allocated_bytes :: size_t
  active_allocations :: size_t
  peak_allocated_bytes :: size_t

definition ALIGNMENT :: size_t where
  "ALIGNMENT = 8"

definition ALIGN :: "size_t \<Rightarrow> size_t" where
  "ALIGN sz = (sz + (ALIGNMENT - 1)) AND NOT (ALIGNMENT - 1)"

subsection \<open>System allocator\<close>

definition count_alloc :: "size_t \<Rightarrow> system_alloc_state \<Rightarrow> system_alloc_state" where
  "count_alloc sz st =
     (let st1 = st\<lparr>total_allocated := total_allocated st + sz,
                   active_allocs := active_allocs st + 1\<rparr>
      in if total_allocated st1 - total_freed st1 > peak_bytes st1
         then st1\<lparr>peak_bytes := total_allocated st1 - total_freed st1\<rparr> else st1)"

definition sys_alloc ::
    "ptr \<Rightarrow> size_t \<Rightarrow> 'a machine_scheme \<Rightarrow> (ptr \<times> 'a machine_scheme) option" where
  "sys_alloc ctx sz m =
     (let size = ALIGN sz in
      case malloc size m of (p, m1) \<Rightarrow>
        if p \<noteq> 0 \<and> ctx \<noteq> 0 then do {
          st \<leftarrow> sys_states m1 ctx;
          Some (p, m1\<lparr>sys_states := (sys_states m1)(ctx \<mapsto> count_alloc size st)\<rparr>)
        } else Some (p, m1))"

definition sys_realloc ::
    "ptr \<Rightarrow> ptr \<Rightarrow> size_t \<Rightarrow> 'a machine_scheme \<Rightarrow> (ptr \<times> 'a machine_scheme) option" where
  "sys_realloc ctx p sz m =
     (let new_size = ALIGN sz in do {
        (q, m1) \<leftarrow> libc_realloc p new_size m;
        if q \<noteq> 0 \<and> ctx \<noteq> 0 then do {
          st \<leftarrow> sys_states m1 ctx;
          Some (q, m1\<lparr>sys_states := (sys_states m1)(ctx \<mapsto>
                    st\<lparr>total_allocated := total_allocated st + new_size\<rparr>)\<rparr>)
        } else Some (q, m1)
      })"

definition count_free :: "system_alloc_state \<Rightarrow> system_alloc_state" where
  "count_free st =
     (let st1 = st\<lparr>total_freed := total_freed st + 1\<rparr>
      in if active_allocs st1 > 0 then st1\<lparr>active_allocs := active_allocs st1 - 1\<rparr> else st1)"

definition sys_free :: "ptr \<Rightarrow> ptr \<Rightarrow> 'a machine_scheme \<Rightarrow> 'a machine_scheme option" where
  "sys_free ctx p m =
     (if p \<noteq> 0 \<and> ctx \<noteq> 0 then do {
        st \<leftarrow> sys_states m ctx;
        libc_free p (m\<lparr>sys_states := (sys_states m)(ctx \<mapsto> count_free st)\<rparr>)
      } else libc_free p m)"

definition beam_allocator_create_system ::
    "'a machine_scheme \<Rightarrow> beam_allocator_i \<times> 'a machine_scheme" where
  "beam_allocator_create_system m =
     (case malloc_raw 32 m of (state, m1) \<Rightarrow>
        (\<lparr>vt_ctx = state, vt_alloc = FN_SYS, vt_realloc = FN_SYS, vt_free = FN_SYS\<rparr>,
         if state \<noteq> 0
         then m1\<lparr>sys_states := (sys_states m1)(state \<mapsto>
                \<lparr>total_allocated = 0, total_freed = 0, active_allocs = 0, peak_bytes = 0\<rparr>)\<rparr>
         else m1))"

subsection \<open>Arena allocator\<close>

definition arena_alloc ::
    "ptr \<Rightarrow> size_t \<Rightarrow> 'a machine_scheme \<Rightarrow> (ptr \<times> 'a machine_scheme) option" where
  "arena_alloc ctx sz m =
     (if ctx = 0 then Some (0, m)
      else do {
        arena \<leftarrow> arenas m ctx;
        if buffer arena = 0 then Some (0, m)
        else let size = ALIGN sz in
          if offset arena + size > capacity arena then Some (0, m)
          else let p = buffer arena + offset arena in
            Some (p, m\<lparr>arenas := (arenas m)(ctx \<mapsto>
                         arena\<lparr>offset := offset arena + size,
                               alloc_count := alloc_count arena + 1\<rparr>),
                       live := (p, size) # live m\<rparr>)
      })"

definition arena_realloc ::
    "ptr \<Rightarrow> ptr \<Rightarrow> size_t \<Rightarrow> 'a machine_scheme \<Rightarrow> (ptr \<times> 'a machine_scheme) option" where
  "arena_realloc ctx p new_size m = arena_alloc ctx new_size m"

definition arena_free :: "ptr \<Rightarrow> ptr \<Rightarrow> 'a machine_scheme \<Rightarrow> 'a machine_scheme option" where
  "arena_free ctx p m = Some m"

definition beam_allocator_create_arena ::
    "size_t \<Rightarrow> 'a machine_scheme \<Rightarrow> beam_allocator_i \<times> 'a machine_scheme" where
  "beam_allocator_create_arena arena_size m =
     (case malloc_raw 32 m of (arena, m1) \<Rightarrow>
        (\<lparr>vt_ctx = arena, vt_alloc = FN_ARENA, vt_realloc = FN_ARENA, vt_free = FN_ARENA\<rparr>,
         if arena \<noteq> 0
         then case malloc_raw arena_size m1 of (buf, m2) \<Rightarrow>
                m2\<lparr>arenas := (arenas m2)(arena \<mapsto>
                     \<lparr>buffer = buf, capacity = arena_size, offset = 0, alloc_count = 0\<rparr>)\<rparr>
         else m1))"

subsection \<open>Destruction and statistics\<close>

text \<open>
  Freeing the arena's buffer ends the life of every object inside it. The vtable argument is
  \<open>None\<close> for a null pointer; the result carries the vtable with its context cleared.
\<close>

definition beam_allocator_destroy ::
    "beam_allocator_i option \<Rightarrow> 'a machine_scheme \<Rightarrow>
     (beam_allocator_i option \<times> 'a machine_scheme) option" where
  "beam_allocator_destroy al m =
     (case al of None \<Rightarrow> Some (None, m)
      | Some vt \<Rightarrow>
          if vt_ctx vt = 0 then Some (al, m)
          else do {
            m' \<leftarrow> (case vt_alloc vt of
                    FN_SYS \<Rightarrow> do {
                      m1 \<leftarrow> free_raw (vt_ctx vt) m;
                      Some (m1\<lparr>sys_states := (sys_states m1)(vt_ctx vt := None)\<rparr>)
                    }
                  | FN_ARENA \<Rightarrow> do {
                      arena \<leftarrow> arenas m (vt_ctx vt);
                      m1 \<leftarrow> free_raw (buffer arena) m;
                      m2 \<leftarrow> free_raw (vt_ctx vt) m1;
                      Some (m2\<lparr>arenas := (arenas m2)(vt_ctx vt := None),
                               live := filter (apart (buffer arena, capacity arena)) (live m2)\<rparr>)
                    }
                  | FN_NULL \<Rightarrow> Some m);
            Some (Some (vt\<lparr>vt_ctx := 0\<rparr>), m')
          })"

definition beam_allocator_destroy_arena ::
    "beam_allocator_i option \<Rightarrow> 'a machine_scheme \<Rightarrow>
     (beam_allocator_i option \<times> 'a machine_scheme) option" where
  "beam_allocator_destroy_arena = beam_allocator_destroy"

definition beam_allocator_get_stats ::
    "beam_allocator_i option \<Rightarrow> 'a machine_scheme \<Rightarrow> beam_memory_stats option" where
  "beam_allocator_get_stats al m =
     (let zero = \<lparr>total_allocated_bytes = 0, active_allocations = 0, peak_allocated_bytes = 0\<rparr>
      in case al of None \<Rightarrow> Some zero
      | Some vt \<Rightarrow>
          if vt_ctx vt = 0 then Some zero
          else (case vt_alloc vt of
            FN_SYS \<Rightarrow> do {
              st \<leftarrow> sys_states m (vt_ctx vt);
              Some \<lparr>total_allocated_bytes = total_allocated st,
                    active_allocations = active_allocs st,
                    peak_allocated_bytes = peak_bytes st\<rparr>
            }
          | FN_ARENA \<Rightarrow> do {
              arena \<leftarrow> arenas m (vt_ctx vt);
              Some \<lparr>total_allocated_bytes = offset arena,
                    active_allocations = alloc_count arena,
                    peak_allocated_bytes = capacity arena\<rparr>
            }
          | FN_NULL \<Rightarrow> Some zero))"

subsection \<open>Calls through the vtable\<close>

definition call_alloc ::
    "beam_allocator_i \<Rightarrow> size_t \<Rightarrow> 'a machine_scheme \<Rightarrow> (ptr \<times> 'a machine_scheme) option" where
  "call_alloc vt n m =
     (case vt_alloc vt of FN_NULL \<Rightarrow> None
      | FN_SYS \<Rightarrow> sys_alloc (vt_ctx vt) n m
      | FN_ARENA \<Rightarrow> arena_alloc (vt_ctx vt) n m)"

definition call_realloc ::
    "beam_allocator_i \<Rightarrow> ptr \<Rightarrow> size_t \<Rightarrow> 'a machine_scheme \<Rightarrow>
     (ptr \<times> 'a machine_scheme) option" where
  "call_realloc vt p n m =
     (case vt_realloc vt of FN_NULL \<Rightarrow> None
      | FN_SYS \<Rightarrow> sys_realloc (vt_ctx vt) p n m
      | FN_ARENA \<Rightarrow> arena_realloc (vt_ctx vt) p n m)"

definition call_free ::
    "beam_allocator_i \<Rightarrow> ptr \<Rightarrow> 'a machine_scheme \<Rightarrow> 'a machine_scheme option" where
  "call_free vt p m =
     (case vt_free vt of FN_NULL \<Rightarrow> None
      | FN_SYS \<Rightarrow> sys_free (vt_ctx vt) p m
      | FN_ARENA \<Rightarrow> arena_free (vt_ctx vt) p m)"

text \<open>The test \<^verbatim>\<open>alloc && alloc->alloc && alloc->free\<close> every constructor makes.\<close>

definition alloc_arg_ok :: "beam_allocator_i option \<Rightarrow> bool" where
  "alloc_arg_ok al \<longleftrightarrow>
     (case al of None \<Rightarrow> False | Some vt \<Rightarrow> vt_alloc vt \<noteq> FN_NULL \<and> vt_free vt \<noteq> FN_NULL)"

lemmas alloc_defs =
  ALIGNMENT_def ALIGN_def count_alloc_def sys_alloc_def sys_realloc_def count_free_def sys_free_def
  beam_allocator_create_system_def arena_alloc_def arena_realloc_def arena_free_def
  beam_allocator_create_arena_def beam_allocator_destroy_def
  beam_allocator_destroy_arena_def beam_allocator_get_stats_def
  call_alloc_def call_realloc_def call_free_def alloc_arg_ok_def

lemmas [beam_defs] = alloc_defs

subsection \<open>Invariant\<close>

definition block_ok :: "block \<Rightarrow> bool" where
  "block_ok b \<longleftrightarrow> fst b \<noteq> 0 \<and> aligned8 (fst b) \<and> unat (fst b) + unat (snd b) < 2 ^ 63"

abbreviation arena_block :: "arena_alloc_state \<Rightarrow> block" where
  "arena_block ar \<equiv> (buffer ar, capacity ar)"

text \<open>An object is clear of an arena when it is outside its buffer or below its offset.\<close>

definition clear_of :: "arena_alloc_state \<Rightarrow> block \<Rightarrow> bool" where
  "clear_of ar b \<longleftrightarrow> apart b (arena_block ar) \<or>
     (unat (buffer ar) \<le> unat (fst b) \<and> stop b \<le> unat (buffer ar) + unat (offset ar))"

definition arena_ok :: "block set \<Rightarrow> block set \<Rightarrow> arena_alloc_state \<Rightarrow> bool" where
  "arena_ok R L ar \<longleftrightarrow> buffer ar = 0 \<or>
     (arena_block ar \<in> R \<and> block_ok (arena_block ar) \<and>
      aligned8 (offset ar) \<and> offset ar \<le> capacity ar \<and> (\<forall>b \<in> L. clear_of ar b))"

definition arenas_apart :: "(ptr \<rightharpoonup> arena_alloc_state) \<Rightarrow> bool" where
  "arenas_apart f \<longleftrightarrow>
     (\<forall>c ar d br. f c = Some ar \<longrightarrow> f d = Some br \<longrightarrow> c \<noteq> d \<longrightarrow>
        buffer ar = 0 \<or> buffer br = 0 \<or> apart (arena_block ar) (arena_block br))"

definition machine_ok :: "'a machine_scheme \<Rightarrow> bool" where
  "machine_ok m \<longleftrightarrow>
     sorted_wrt apart (live m) \<and> (\<forall>b \<in> set (live m). block_ok b) \<and>
     (\<forall>ar \<in> ran (arenas m). arena_ok (set (raw m)) (set (live m)) ar) \<and> arenas_apart (arenas m)"

text \<open>A vtable is well formed when its three slots belong to one allocator with a valid context.\<close>

definition vt_ok :: "beam_allocator_i \<Rightarrow> 'a machine_scheme \<Rightarrow> bool" where
  "vt_ok vt m \<longleftrightarrow> vt_realloc vt = vt_alloc vt \<and> vt_free vt = vt_alloc vt \<and>
     (case vt_alloc vt of FN_NULL \<Rightarrow> False
      | FN_SYS \<Rightarrow> vt_ctx vt = 0 \<or> vt_ctx vt \<in> dom (sys_states m)
      | FN_ARENA \<Rightarrow> vt_ctx vt = 0 \<or> vt_ctx vt \<in> dom (arenas m))"

text \<open>Sizes for which rounding up to the alignment does not wrap around.\<close>

definition good_size :: "size_t \<Rightarrow> bool" where
  "good_size n \<longleftrightarrow> 0 < n \<and> n \<le> 2 ^ 62"

subsection \<open>Rounding sizes up\<close>

lemma ALIGN_eq: "ALIGN n = (n + 7) AND NOT (mask 3)"
  by (simp add: ALIGN_def ALIGNMENT_def mask_eq_exp_minus_1)

lemma unat_ALIGN:
  assumes "good_size n"
  shows "unat (ALIGN n) = (unat n + 7) div 8 * 8"
proof -
  have "unat n \<le> 2 ^ 62"
    using assms by (simp add: good_size_def word_le_nat_alt)
  then have "unat (n + 7) = unat n + 7"
    by (simp add: unat_word_ariths)
  then show ?thesis
    using unat_and_not_mask [of 3 "n + 7"] by (simp add: ALIGN_eq)
qed

lemma aligned8_ALIGN [simp]: "aligned8 (ALIGN n)"
  using unat_and_not_mask [of 3 "n + 7"] by (simp add: ALIGN_eq aligned8_iff)

lemma good_size_ALIGN:
  assumes "good_size n"
  shows "0 < unat (ALIGN n)" "unat n \<le> unat (ALIGN n)" "unat (ALIGN n) \<le> 2 ^ 62"
proof -
  have "0 < unat n" "unat n \<le> 2 ^ 62"
    using assms by (simp_all add: good_size_def word_le_nat_alt word_less_nat_alt)
  then show "0 < unat (ALIGN n)" "unat n \<le> unat (ALIGN n)" "unat (ALIGN n) \<le> 2 ^ 62"
    using unat_ALIGN [OF assms] by auto
qed

subsection \<open>Allocation keeps the invariant\<close>

lemma arena_ok_mono:
  "arena_ok R L ar \<Longrightarrow> R \<subseteq> R' \<Longrightarrow> L' \<subseteq> L \<Longrightarrow> arena_ok R' L' ar"
  by (auto simp: arena_ok_def)

lemma arena_ok_insert:
  "arena_ok R L ar \<Longrightarrow> buffer ar = 0 \<or> clear_of ar b \<Longrightarrow> arena_ok R (insert b L) ar"
  by (auto simp: arena_ok_def)

lemma machine_ok_cong:
  "live m' = live m \<Longrightarrow> raw m' = raw m \<Longrightarrow> arenas m' = arenas m \<Longrightarrow> machine_ok m' = machine_ok m"
  by (simp add: machine_ok_def)

lemma machine_ok_filter:
  assumes "machine_ok m" "live m' = filter P (live m)" "raw m' = raw m" "arenas m' = arenas m"
  shows "machine_ok m'"
  using assms
  by (auto simp: machine_ok_def sorted_wrt_filter intro: arena_ok_mono)

lemma machine_ok_add_live:
  assumes ok: "machine_ok m" and b: "block_ok b" "\<And>c. c \<in> set (live m) \<Longrightarrow> apart b c"
    and clear: "\<And>ar. ar \<in> ran (arenas m) \<Longrightarrow> buffer ar = 0 \<or> clear_of ar b"
    and m': "live m' = b # live m" "raw m' = raw m" "arenas m' = arenas m"
  shows "machine_ok m'"
proof -
  have "arena_ok (set (raw m)) (insert b (set (live m))) ar" if "ar \<in> ran (arenas m)" for ar
    using ok clear that by (simp add: machine_ok_def arena_ok_insert)
  with ok b m' show ?thesis by (simp add: machine_ok_def)
qed

lemma machine_ok_malloc:
  assumes ok: "machine_ok m" and call: "malloc n m = (p, m')"
  shows "machine_ok m'"
proof (cases rule: malloc_cases [of n m])
  case null
  with call have "m' = m\<lparr>malloc_results := tl (malloc_results m)\<rparr>"
    by simp
  with ok show ?thesis by (simp add: machine_ok_def)
next
  case (block q)
  from call block(3) have m': "m' = m\<lparr>malloc_results := tl (malloc_results m), live := (q, n) # live m\<rparr>"
    by auto
  have new: "block_ok (q, n)" "\<forall>b \<in> set (live m). apart (q, n) b" "\<forall>b \<in> set (raw m). apart (q, n) b"
    using block(1) by (auto simp: legal_block_def block_ok_def list_all_iff)
  have "buffer ar = 0 \<or> clear_of ar (q, n)" if "ar \<in> ran (arenas m)" for ar
    using that ok new(3) by (auto simp: machine_ok_def arena_ok_def clear_of_def)
  then show ?thesis
    using ok new machine_ok_add_live [of m "(q, n)" m'] unfolding m' by simp
qed

lemma malloc_frame:
  assumes "malloc n m = (p, m')"
  shows "words m' = words m" "raw m' = raw m" "sys_states m' = sys_states m"
    "arenas m' = arenas m" "machine.more m' = machine.more m"
    "live m' = (if p = 0 then live m else (p, n) # live m)"
  using assms by (auto simp: malloc_def next_block_def Let_def split: if_splits)

lemma malloc_fresh:
  assumes "malloc n m = (p, m')" "p \<noteq> 0"
  shows "legal_block m (p, n)"
  using assms by (auto simp: malloc_def next_block_def Let_def split: if_splits)

lemma sys_alloc_result:
  assumes "sys_alloc ctx n m = Some (p, m')"
  obtains m1 where "malloc (ALIGN n) m = (p, m1)"
    "live m' = live m1" "raw m' = raw m1" "arenas m' = arenas m1" "words m' = words m1"
    "dom (sys_states m') = dom (sys_states m)" "machine.more m' = machine.more m"
proof -
  obtain q m1 where q: "malloc (ALIGN n) m = (q, m1)" by fastforce
  with assms malloc_frame [OF q] show thesis
    by (intro that [of m1]) (auto simp: sys_alloc_def Let_def split: if_splits)
qed

lemma machine_ok_sys_alloc:
  "machine_ok m \<Longrightarrow> sys_alloc ctx n m = Some (p, m') \<Longrightarrow> machine_ok m'"
  by (erule sys_alloc_result) (metis machine_ok_cong machine_ok_malloc)

subsection \<open>Arena: the bump pointer\<close>

lemma arena_alloc_cases:
  assumes "arena_alloc ctx n m = Some (p, m')"
  obtains (null) "p = 0" "m' = m"
  | (bump) ar where "arenas m ctx = Some ar" "buffer ar \<noteq> 0"
      "offset ar + ALIGN n \<le> capacity ar" "p = buffer ar + offset ar"
      "m' = m\<lparr>arenas := (arenas m)(ctx \<mapsto> ar\<lparr>offset := offset ar + ALIGN n,
                                            alloc_count := alloc_count ar + 1\<rparr>),
              live := (p, ALIGN n) # live m\<rparr>"
proof (cases "ctx = 0")
  case True
  with assms null show ?thesis by (simp add: arena_alloc_def)
next
  case False
  with assms obtain ar where ar: "arenas m ctx = Some ar"
    by (auto simp: arena_alloc_def)
  show ?thesis
  proof (cases "buffer ar = 0 \<or> capacity ar < offset ar + ALIGN n")
    case True
    with assms False ar null show ?thesis
      by (auto simp: arena_alloc_def Let_def split: if_splits)
  next
    case no: False
    with assms False ar show ?thesis
      by (intro bump [of ar]) (auto simp: arena_alloc_def Let_def)
  qed
qed

lemma arena_bump:
  assumes ar: "arena_ok R L ar" "buffer ar \<noteq> 0" and n: "good_size n"
    and fits: "offset ar + ALIGN n \<le> capacity ar"
  defines "p \<equiv> buffer ar + offset ar"
  shows "unat p = unat (buffer ar) + unat (offset ar)"
    and "unat (offset ar + ALIGN n) = unat (offset ar) + unat (ALIGN n)"
    and "block_ok (p, ALIGN n)"
    and "stop (p, ALIGN n) \<le> stop (arena_block ar)"
    and "stop (p, ALIGN n) = unat (buffer ar) + unat (offset ar + ALIGN n)"
proof -
  have ok: "block_ok (arena_block ar)" "aligned8 (offset ar)" "unat (offset ar) \<le> unat (capacity ar)"
    using ar by (auto simp: arena_ok_def word_le_nat_alt)
  have bound: "unat (buffer ar) + unat (capacity ar) < 2 ^ 63" "0 < unat (buffer ar)"
    using ok(1) ar(2) by (auto simp: block_ok_def unat_gt_0)
  note size = good_size_ALIGN [OF n]
  show p: "unat p = unat (buffer ar) + unat (offset ar)"
    unfolding p_def using bound ok(3) by (intro unat_add_no_wrap) simp
  show off: "unat (offset ar + ALIGN n) = unat (offset ar) + unat (ALIGN n)"
    using bound ok(3) size by (intro unat_add_no_wrap) simp
  have le: "unat (offset ar) + unat (ALIGN n) \<le> unat (capacity ar)"
    using fits off by (simp add: word_le_nat_alt)
  have "p \<noteq> 0"
    using p bound(2) by (metis add_is_0 less_numeral_extra(3) unat_0)
  moreover have "aligned8 p"
    using ok(1,2) by (simp add: p_def block_ok_def aligned8_add)
  ultimately show "block_ok (p, ALIGN n)"
    using p le bound by (simp add: block_ok_def)
  show "stop (p, ALIGN n) \<le> stop (arena_block ar)"
    using p le size by (simp add: stop_def)
  show "stop (p, ALIGN n) = unat (buffer ar) + unat (offset ar + ALIGN n)"
    using p off size by (simp add: stop_def)
qed

lemma apart_inner:
  "apart c (a, k) \<Longrightarrow> unat a \<le> unat (fst b) \<Longrightarrow> stop b \<le> stop (a, k) \<Longrightarrow> apart b c"
  by (auto simp: apart_def)

lemma arenas_apartD:
  assumes "arenas_apart f" "f c = Some ar" "f d = Some br" "c \<noteq> d"
  shows "buffer ar = 0 \<or> buffer br = 0 \<or> apart (arena_block ar) (arena_block br)"
  using assms unfolding arenas_apart_def by blast

lemma arenas_apart_upd:
  assumes "arenas_apart f" "f c = Some ar" "arena_block br = arena_block ar"
  shows "arenas_apart (f(c \<mapsto> br))"
proof -
  have old: "\<exists>yr. f x = Some yr \<and> arena_block yr = arena_block xr"
    if "(f(c \<mapsto> br)) x = Some xr" for x xr
    using that assms(2,3) by (auto split: if_splits)
  show ?thesis
    unfolding arenas_apart_def
  proof (intro allI impI)
    fix x xr y yr
    assume "(f(c \<mapsto> br)) x = Some xr" "(f(c \<mapsto> br)) y = Some yr" "x \<noteq> y"
    then obtain xo yo where "f x = Some xo" "f y = Some yo"
      and same: "arena_block xo = arena_block xr" "arena_block yo = arena_block yr"
      using old by blast
    then have "buffer xo = 0 \<or> buffer yo = 0 \<or> apart (arena_block xo) (arena_block yo)"
      using arenas_apartD [OF assms(1)] \<open>x \<noteq> y\<close> by blast
    with same show "buffer xr = 0 \<or> buffer yr = 0 \<or> apart (arena_block xr) (arena_block yr)"
      by simp
  qed
qed

lemma machine_ok_arena_alloc:
  assumes ok: "machine_ok m" and n: "good_size n" and call: "arena_alloc ctx n m = Some (p, m')"
  shows "machine_ok m' \<and> (p \<noteq> 0 \<longrightarrow> (\<forall>b \<in> set (live m). apart (p, ALIGN n) b))"
  using call
proof (cases rule: arena_alloc_cases)
  case null
  with ok show ?thesis by simp
next
  case (bump ar)
  let ?b = "(p, ALIGN n)" and ?ar = "ar\<lparr>offset := offset ar + ALIGN n, alloc_count := alloc_count ar + 1\<rparr>"
  have ar: "arena_ok (set (raw m)) (set (live m)) ar"
    using ok bump(1) by (auto simp: machine_ok_def intro: ranI)
  note b = arena_bump [OF ar bump(2) n bump(3), folded bump(4)]
  have p: "unat (buffer ar) \<le> unat p"
    using b(1) by simp
  have fresh: "apart ?b c" if "c \<in> set (live m)" for c
  proof -
    have "clear_of ar c"
      using ar bump(2) that by (auto simp: arena_ok_def)
    then consider "apart c (arena_block ar)" | "stop c \<le> unat p"
      using b(1) by (auto simp: clear_of_def)
    then show ?thesis
    proof cases
      case 1
      then show ?thesis using p b(4) by (auto intro: apart_inner)
    next
      case 2
      then show ?thesis by (simp add: apart_def)
    qed
  qed
  have others: "buffer br = 0 \<or> clear_of br ?b" if "arenas m d = Some br" "d \<noteq> ctx" for br d
  proof -
    have "buffer br = 0 \<or> apart (arena_block br) (arena_block ar)"
      using ok arenas_apartD [of "arenas m" d br ctx ar] bump(1,2) that by (auto simp: machine_ok_def)
    then show ?thesis
      using p b(4) by (auto simp: clear_of_def intro: apart_inner)
  qed
  have own: "arena_ok (set (raw m)) (insert ?b (set (live m))) ?ar"
    using ar bump(2,3) b(2,5) p
    by (auto simp: arena_ok_def clear_of_def aligned8_add)
  have rest: "arena_ok (set (raw m)) (insert ?b (set (live m))) br"
    if "arenas m d = Some br" "d \<noteq> ctx" for br d
    using ok others [OF that] that by (auto simp: machine_ok_def intro: arena_ok_insert ranI)
  have apart': "arenas_apart ((arenas m)(ctx \<mapsto> ?ar))"
    using ok bump(1) by (intro arenas_apart_upd) (auto simp: machine_ok_def)
  have "machine_ok m'"
    using ok b(3) fresh own rest apart' by (auto simp: machine_ok_def bump(5) ran_def)
  with fresh show ?thesis by simp
qed

lemma apart_same_base [simp]: "\<not> apart (p, n) (p, k)"
  by (simp add: apart_def stop_def)

lemma machine_ok_libc_free:
  assumes "machine_ok m" "libc_free p m = Some m'"
  shows "machine_ok m'"
  using assms machine_ok_filter [of m m' "\<lambda>b. fst b \<noteq> p"]
  by (auto simp: libc_free_def drop_block_def split: if_splits)

lemma libc_free_frame:
  assumes "libc_free p m = Some m'"
  shows "words m' = words m" "machine.more m' = machine.more m"
    "sys_states m' = sys_states m" "arenas m' = arenas m" "raw m' = raw m"
    "set (live m') \<subseteq> set (live m)" "\<And>b. b \<in> set (live m) \<Longrightarrow> fst b \<noteq> p \<Longrightarrow> b \<in> set (live m')"
  using assms by (auto simp: libc_free_def split: if_splits)

lemma libc_free_total: "p \<in> fst ` set (live m) \<Longrightarrow> \<exists>m'. libc_free p m = Some m'"
  by (simp add: libc_free_def)

lemma sys_free_result:
  assumes "sys_free ctx p m = Some m'"
  obtains m1 where "libc_free p m1 = Some m'" "live m1 = live m" "raw m1 = raw m"
    "arenas m1 = arenas m" "words m1 = words m" "dom (sys_states m1) = dom (sys_states m)"
    "machine.more m1 = machine.more m"
proof (cases "p \<noteq> 0 \<and> ctx \<noteq> 0")
  case True
  with assms obtain st where "sys_states m ctx = Some st"
    "libc_free p (m\<lparr>sys_states := (sys_states m)(ctx \<mapsto> count_free st)\<rparr>) = Some m'"
    by (auto simp: sys_free_def)
  then show thesis
    by (intro that [of "m\<lparr>sys_states := (sys_states m)(ctx \<mapsto> count_free st)\<rparr>"]) auto
next
  case False
  with assms show thesis
    by (intro that [of m]) (auto simp: sys_free_def)
qed

subsection \<open>The contract of the vtable\<close>

locale allocator_contract =
  fixes alloc :: "size_t \<Rightarrow> 'm \<Rightarrow> (ptr \<times> 'm) option"
    and free :: "ptr \<Rightarrow> 'm \<Rightarrow> 'm option"
    and ok :: "'m \<Rightarrow> bool"
    and objs :: "'m \<Rightarrow> block list"
    and contents :: "'m \<Rightarrow> ptr \<Rightarrow> eterm"
    and client :: "'m \<Rightarrow> 'r"
  assumes alloc_total: "ok m \<Longrightarrow> \<exists>p m'. alloc n m = Some (p, m')"
    and alloc_ok: "ok m \<Longrightarrow> good_size n \<Longrightarrow> alloc n m = Some (p, m') \<Longrightarrow> ok m'"
    and alloc_null: "ok m \<Longrightarrow> good_size n \<Longrightarrow> alloc n m = Some (0, m') \<Longrightarrow> objs m' = objs m"
    and alloc_objs: "ok m \<Longrightarrow> good_size n \<Longrightarrow> alloc n m = Some (p, m') \<Longrightarrow> p \<noteq> 0 \<Longrightarrow>
      objs m' = (p, ALIGN n) # objs m \<and> block_ok (p, ALIGN n) \<and>
      (\<forall>b \<in> set (objs m). apart (p, ALIGN n) b)"
    and alloc_frame: "alloc n m = Some (p, m') \<Longrightarrow> contents m' = contents m \<and> client m' = client m"
    and free_total: "ok m \<Longrightarrow> p \<in> fst ` set (objs m) \<Longrightarrow> \<exists>m'. free p m = Some m'"
    and free_ok: "ok m \<Longrightarrow> free p m = Some m' \<Longrightarrow> ok m'"
    and free_keeps: "free p m = Some m' \<Longrightarrow> b \<in> set (objs m) \<Longrightarrow> fst b \<noteq> p \<Longrightarrow> b \<in> set (objs m')"
    and free_subset: "free p m = Some m' \<Longrightarrow> set (objs m') \<subseteq> set (objs m)"
    and free_frame: "free p m = Some m' \<Longrightarrow> contents m' = contents m \<and> client m' = client m"
begin

abbreviation bases :: "'m \<Rightarrow> ptr set" where
  "bases m \<equiv> fst ` set (objs m)"

lemma alloc_fresh:
  assumes "ok m" "good_size n" "alloc n m = Some (p, m')" "p \<noteq> 0"
  shows "p \<notin> bases m" "bases m' = insert p (bases m)"
  using alloc_objs [OF assms] by auto

lemma alloc_bases:
  assumes "ok m" "good_size n" "alloc n m = Some (p, m')"
  shows "bases m \<subseteq> bases m'"
proof (cases "p = 0")
  case True
  with assms alloc_null show ?thesis by simp
next
  case False
  with assms alloc_fresh(2) show ?thesis by blast
qed

lemma free_bases:
  assumes "free p m = Some m'"
  shows "bases m - {p} \<subseteq> bases m'" "bases m' \<subseteq> bases m"
proof -
  show "bases m - {p} \<subseteq> bases m'"
    using free_keeps [OF assms] by force
  show "bases m' \<subseteq> bases m"
    using free_subset [OF assms] by (rule image_mono)
qed

text \<open>A store of objects kept by a client: its addresses are live objects.\<close>

lemma store_fresh:
  assumes "ok m" "good_size n" "alloc n m = Some (p, m')" "p \<noteq> 0" "dom S \<subseteq> bases m"
  shows "S p = None" "dom (S(p \<mapsto> x)) \<subseteq> bases m'"
  using alloc_fresh [OF assms(1-4)] assms(5) by auto

lemma store_free:
  assumes "free p m = Some m'" "dom S \<subseteq> bases m"
  shows "dom (S(p := None)) \<subseteq> bases m'"
  using free_bases(1) [OF assms(1)] assms(2) by (simp add: dom_fun_upd) blast

end

abbreviation alloc_env :: "beam_allocator_i \<Rightarrow> 'a machine_scheme \<Rightarrow> bool" where
  "alloc_env vt m \<equiv> machine_ok m \<and> vt_ok vt m"

lemma call_alloc_doms:
  assumes "call_alloc vt n m = Some (p, m')"
  shows "dom (sys_states m') = dom (sys_states m)" "dom (arenas m') = dom (arenas m)"
proof -
  have sys: "dom (sys_states m') = dom (sys_states m) \<and> dom (arenas m') = dom (arenas m)"
    if "sys_alloc ctx n m = Some (p, m')" for ctx
    using that by (elim sys_alloc_result) (metis malloc_frame(4))
  have arena: "dom (sys_states m') = dom (sys_states m) \<and> dom (arenas m') = dom (arenas m)"
    if "arena_alloc ctx n m = Some (p, m')" for ctx
    using that by (cases rule: arena_alloc_cases) auto
  show "dom (sys_states m') = dom (sys_states m)" "dom (arenas m') = dom (arenas m)"
    using assms sys arena by (auto simp: call_alloc_def split: alloc_fn.splits)
qed

lemma call_free_doms:
  assumes "call_free vt p m = Some m'"
  shows "dom (sys_states m') = dom (sys_states m)" "dom (arenas m') = dom (arenas m)"
proof -
  have "dom (sys_states m') = dom (sys_states m) \<and> dom (arenas m') = dom (arenas m)"
    if "sys_free ctx p m = Some m'" for ctx
    using that by (elim sys_free_result) (metis libc_free_frame(3,4))
  then show "dom (sys_states m') = dom (sys_states m)" "dom (arenas m') = dom (arenas m)"
    using assms by (auto simp: call_free_def arena_free_def split: alloc_fn.splits)
qed

lemma vt_ok_cong:
  "dom (sys_states m') = dom (sys_states m) \<Longrightarrow> dom (arenas m') = dom (arenas m) \<Longrightarrow>
   vt_ok vt m' = vt_ok vt m"
  by (cases "vt_alloc vt") (simp_all add: vt_ok_def)

lemma vt_ok_call_alloc: "call_alloc vt n m = Some (p, m') \<Longrightarrow> vt_ok vt' m' = vt_ok vt' m"
  by (rule vt_ok_cong) (simp_all add: call_alloc_doms)

lemma vt_ok_call_free: "call_free vt p m = Some m' \<Longrightarrow> vt_ok vt' m' = vt_ok vt' m"
  by (rule vt_ok_cong) (simp_all add: call_free_doms)


text \<open>What both providers guarantee of one allocation.\<close>

definition alloc_result :: "size_t \<Rightarrow> 'a machine_scheme \<Rightarrow> ptr \<Rightarrow> 'a machine_scheme \<Rightarrow> bool" where
  "alloc_result n m p m' \<longleftrightarrow> machine_ok m' \<and> words m' = words m \<and> machine.more m' = machine.more m \<and>
     (if p = 0 then live m' = live m
      else live m' = (p, ALIGN n) # live m \<and> block_ok (p, ALIGN n) \<and>
           (\<forall>b \<in> set (live m). apart (p, ALIGN n) b))"

lemma sys_alloc_alloc_result:
  assumes "machine_ok m" "sys_alloc ctx n m = Some (p, m')"
  shows "alloc_result n m p m'"
proof -
  obtain m1 where m1: "malloc (ALIGN n) m = (p, m1)"
    "live m' = live m1" "words m' = words m1" "machine.more m' = machine.more m"
    using assms(2) by (rule sys_alloc_result)
  note frame = malloc_frame [OF m1(1)]
  show ?thesis
  proof (cases "p = 0")
    case True
    with m1 frame machine_ok_sys_alloc [OF assms] show ?thesis
      by (simp add: alloc_result_def)
  next
    case False
    with malloc_fresh [OF m1(1)] have "legal_block m (p, ALIGN n)" by simp
    with False m1 frame machine_ok_sys_alloc [OF assms] show ?thesis
      by (auto simp: alloc_result_def legal_block_def block_ok_def list_all_iff)
  qed
qed

lemma arena_alloc_alloc_result:
  assumes ok: "machine_ok m" and n: "good_size n" and call: "arena_alloc ctx n m = Some (p, m')"
  shows "alloc_result n m p m'"
  using call
proof (cases rule: arena_alloc_cases)
  case null
  with ok show ?thesis by (simp add: alloc_result_def)
next
  case (bump ar)
  have "arena_ok (set (raw m)) (set (live m)) ar"
    using ok bump(1) by (auto simp: machine_ok_def intro: ranI)
  then have "block_ok (p, ALIGN n)"
    using arena_bump(3) bump n by blast
  moreover from this have "p \<noteq> 0"
    by (simp add: block_ok_def)
  ultimately show ?thesis
    using machine_ok_arena_alloc [OF ok n call] bump(5) by (simp add: alloc_result_def)
qed

lemma call_alloc_alloc_result:
  assumes "machine_ok m" "good_size n" "call_alloc vt n m = Some (p, m')"
  shows "alloc_result n m p m'"
  using assms sys_alloc_alloc_result arena_alloc_alloc_result
  by (simp add: call_alloc_def split: alloc_fn.splits)

lemma call_alloc_frame:
  assumes "call_alloc vt n m = Some (p, m')"
  shows "words m' = words m" "machine.more m' = machine.more m"
proof -
  have "words m' = words m \<and> machine.more m' = machine.more m"
    if "sys_alloc ctx n m = Some (p, m')" for ctx
    using that by (elim sys_alloc_result) (metis malloc_frame(1))
  moreover have "words m' = words m \<and> machine.more m' = machine.more m"
    if "arena_alloc ctx n m = Some (p, m')" for ctx
    using that by (cases rule: arena_alloc_cases) auto
  ultimately show "words m' = words m" "machine.more m' = machine.more m"
    using assms by (auto simp: call_alloc_def split: alloc_fn.splits)
qed

lemma call_alloc_total:
  assumes "vt_ok vt m"
  shows "\<exists>p m'. call_alloc vt n m = Some (p, m')"
  using assms
  by (cases "vt_alloc vt")
    (auto simp: vt_ok_def call_alloc_def sys_alloc_def arena_alloc_def Let_def malloc_frame
      split: prod.split)

lemma call_free_total:
  assumes "vt_ok vt m" "p \<in> fst ` set (live m)"
  shows "\<exists>m'. call_free vt p m = Some m'"
  using assms
  by (cases "vt_alloc vt")
    (auto simp: vt_ok_def call_free_def sys_free_def arena_free_def libc_free_def)

lemma call_free_frame:
  assumes "call_free vt p m = Some m'"
  shows "words m' = words m" "machine.more m' = machine.more m" "set (live m') \<subseteq> set (live m)"
    "\<And>b. b \<in> set (live m) \<Longrightarrow> fst b \<noteq> p \<Longrightarrow> b \<in> set (live m')"
proof -
  have "words m' = words m \<and> machine.more m' = machine.more m \<and> set (live m') \<subseteq> set (live m) \<and>
      (\<forall>b \<in> set (live m). fst b \<noteq> p \<longrightarrow> b \<in> set (live m'))"
    if call: "sys_free ctx p m = Some m'" for ctx
  proof -
    obtain m1 where m1: "libc_free p m1 = Some m'" "live m1 = live m" "words m1 = words m"
      "machine.more m1 = machine.more m"
      using call by (rule sys_free_result)
    with libc_free_frame [OF m1(1)] show ?thesis by simp
  qed
  then show "words m' = words m" "machine.more m' = machine.more m" "set (live m') \<subseteq> set (live m)"
    "\<And>b. b \<in> set (live m) \<Longrightarrow> fst b \<noteq> p \<Longrightarrow> b \<in> set (live m')"
    using assms by (auto simp: call_free_def arena_free_def split: alloc_fn.splits)
qed

lemma call_free_sys:
  assumes "vt_free vt = FN_SYS" "p \<noteq> 0" "call_free vt p m = Some m'"
  shows "fst ` set (live m') = fst ` set (live m) - {p}"
proof -
  obtain m1 where m1: "libc_free p m1 = Some m'" "live m1 = live m"
    using assms(1,3) by (auto simp: call_free_def elim: sys_free_result)
  then show ?thesis
    using assms(2) by (auto simp: libc_free_def split: if_splits)
qed

lemma machine_ok_call_free:
  assumes "machine_ok m" "call_free vt p m = Some m'"
  shows "machine_ok m'"
proof -
  have "machine_ok m'" if "sys_free ctx p m = Some m'" for ctx
    using that assms(1) by (elim sys_free_result) (metis machine_ok_cong machine_ok_libc_free)
  with assms show ?thesis
    by (auto simp: call_free_def arena_free_def split: alloc_fn.splits)
qed

interpretation vt: allocator_contract "call_alloc vt" "call_free vt" "alloc_env vt" live words machine.more
  for vt
proof (unfold_locales, goal_cases)
  case (1 m n)
  then show ?case by (simp add: call_alloc_total)
next
  case (2 m n p m')
  then show ?case
    by (simp add: call_alloc_alloc_result vt_ok_call_alloc alloc_result_def [of n m p m', THEN iffD1])
next
  case (3 m n m')
  then show ?case using call_alloc_alloc_result by (fastforce simp: alloc_result_def)
next
  case (4 m n p m')
  then show ?case using call_alloc_alloc_result by (fastforce simp: alloc_result_def)
next
  case (5 n m p m')
  then show ?case by (simp add: call_alloc_frame)
next
  case (6 m p)
  then show ?case by (simp add: call_free_total)
next
  case (7 m p m')
  then show ?case using machine_ok_call_free vt_ok_call_free by blast
next
  case (8 p m m' b)
  then show ?case by (rule call_free_frame)
next
  case (9 p m m')
  then show ?case by (rule call_free_frame)
next
  case (10 p m m')
  then show ?case by (simp add: call_free_frame)
qed

subsection \<open>Properties\<close>

definition alloc_start :: machine where
  "alloc_start = \<lparr>words = (\<lambda>_. 0), live = [], raw = [], malloc_results = [0x1000, 0x2000, 0x3000, 0x4000],
     sys_states = Map.empty, arenas = Map.empty\<rparr>"

lemma alloc_start_ok: "machine_ok alloc_start"
  by (simp add: machine_ok_def alloc_start_def arenas_apart_def)

text \<open>
  C30: through either allocator, a request of a size that does not wrap around when it is rounded up
  returns null and changes no object, or an aligned block of the rounded size that overlaps no
  object in use. Memory contents stay as they are and the allocator invariant holds afterwards.
\<close>

theorem alloc_disjoint:
  assumes "machine_ok m" "vt_ok vt m" "good_size n"
  shows "\<exists>p m'. call_alloc vt n m = Some (p, m') \<and> machine_ok m' \<and> vt_ok vt m' \<and> words m' = words m \<and>
    (if p = 0 then live m' = live m
     else live m' = (p, ALIGN n) # live m \<and> aligned8 p \<and> n \<le> ALIGN n \<and>
       (\<forall>b \<in> set (live m). apart (p, ALIGN n) b))"
proof -
  have env: "alloc_env vt m" using assms(1,2) by simp
  obtain p m' where run: "call_alloc vt n m = Some (p, m')" using vt.alloc_total [OF env] by blast
  have "n \<le> ALIGN n" using unat_ALIGN [of n] assms(3) by (simp add: good_size_def word_le_nat_alt)
  with run vt.alloc_ok [OF env assms(3) run] vt.alloc_null [OF env assms(3), of m'] vt.alloc_frame [OF run]
    vt.alloc_objs [OF env assms(3) run]
  show ?thesis by (cases "p = 0") (auto simp: block_ok_def)
qed

theorem alloc_disjoint_witness:
  "\<exists>p m'. call_alloc \<lparr>vt_ctx = 0, vt_alloc = FN_SYS, vt_realloc = FN_SYS, vt_free = FN_SYS\<rparr> 16 alloc_start = Some (p, m') \<and>
    machine_ok m' \<and> words m' = words alloc_start"
  using alloc_disjoint [OF alloc_start_ok, of "\<lparr>vt_ctx = 0, vt_alloc = FN_SYS, vt_realloc = FN_SYS, vt_free = FN_SYS\<rparr>" 16]
  by (auto simp: vt_ok_def good_size_def)

text \<open>
  The arena's test for room adds without a check for wrap-around. After 16 bytes of an arena of
  64 were handed out, a request of all but 8 bytes of the address space succeeds, moves the offset
  back, and the next block overlaps the first one.
\<close>

theorem arena_alloc_wraps:
  "(do { let (vt, m0) = beam_allocator_create_arena 64 alloc_start;
         (p1, m1) \<leftarrow> call_alloc vt 16 m0;
         (p2, m2) \<leftarrow> call_alloc vt (- 8) m1;
         (p3, m3) \<leftarrow> call_alloc vt 16 m2;
         Some (p1, p2, p3) }) = Some (0x2000, 0x2010, 0x2008) \<and> \<not> apart (0x2000, 16) (0x2008, 16)"
  by (simp add: alloc_start_def beam_defs Let_def apart_def stop_def)

text \<open>
  The system allocator subtracts the number of frees from a number of bytes. Two allocations of
  16 bytes with a free in between never use more than 16 bytes, but the reported peak is 31.
\<close>

theorem peak_counts_freed_bytes:
  "(do { let (vt, m0) = beam_allocator_create_system alloc_start;
         (p1, m1) \<leftarrow> call_alloc vt 16 m0;
         m2 \<leftarrow> call_free vt p1 m1;
         (p3, m3) \<leftarrow> call_alloc vt 16 m2;
         map_option peak_allocated_bytes (beam_allocator_get_stats (Some vt) m3) }) = Some 31"
  by (simp add: alloc_start_def beam_defs Let_def)

end
