(* ===== verification/Beam_Chain.thy ===== *)
theory Beam_Chain
  imports Beam_Prelude
begin

text \<open>
  Singly linked lists in the store of a component. The component gives the link of every node
  as a partial function on addresses; \<open>chain\<close> relates a start address, the nodes passed and the
  address reached. Mailboxes and the levels of the run queue are chains that end in the null
  pointer.
\<close>

primrec chain :: "(ptr \<rightharpoonup> ptr) \<Rightarrow> ptr \<Rightarrow> ptr list \<Rightarrow> ptr \<Rightarrow> bool" where
  "chain nx p [] q \<longleftrightarrow> p = q"
| "chain nx p (a # as) q \<longleftrightarrow> p = a \<and> a \<noteq> 0 \<and> (\<exists>b. nx a = Some b \<and> chain nx b as q)"

definition last_or_null :: "ptr list \<Rightarrow> ptr" where
  "last_or_null as = (if as = [] then 0 else last as)"

lemma chain_append:
  "chain nx p (as @ bs) q \<longleftrightarrow> (\<exists>r. chain nx p as r \<and> chain nx r bs q)"
  by (induction as arbitrary: p) auto

lemma chain_frame:
  "a \<notin> set as \<Longrightarrow> chain (nx(a := v)) p as q = chain nx p as q"
  by (induction as arbitrary: p) auto

lemma chain_cong:
  "(\<And>a. a \<in> set as \<Longrightarrow> nx a = ny a) \<Longrightarrow> chain nx p as q = chain ny p as q"
  by (induction as arbitrary: p) auto

lemma chain_null [simp]: "chain nx 0 as q \<longleftrightarrow> as = [] \<and> q = 0"
  by (cases as) auto

lemma chain_nonnull: "chain nx p as q \<Longrightarrow> a \<in> set as \<Longrightarrow> a \<noteq> 0"
  by (induction as arbitrary: p) auto

lemma chain_dom: "chain nx p as q \<Longrightarrow> set as \<subseteq> dom nx"
  by (induction as arbitrary: p) auto

lemma chain_head: "chain nx p as 0 \<Longrightarrow> p = (if as = [] then 0 else hd as)"
  by (cases as) auto

lemma chain_unique: "chain nx p as 0 \<Longrightarrow> chain nx p bs 0 \<Longrightarrow> as = bs"
proof (induction as arbitrary: p bs)
  case Nil
  then show ?case by (cases bs) auto
next
  case (Cons a as)
  then show ?case by (cases bs) auto
qed

lemma chain_distinct: "chain nx p as 0 \<Longrightarrow> distinct as"
proof (induction as arbitrary: p)
  case Nil
  then show ?case by simp
next
  case (Cons a as)
  then obtain b where b: "nx a = Some b" "chain nx b as 0" by auto
  have "a \<notin> set as"
  proof
    assume "a \<in> set as"
    then obtain xs ys where split: "as = xs @ a # ys"
      by (meson split_list)
    with b have "chain nx b ys 0"
      by (auto simp: chain_append)
    with b(2) have "as = ys"
      by (rule chain_unique)
    with split show False by simp
  qed
  with Cons.IH [OF b(2)] show ?case by simp
qed

lemma chain_snoc:
  assumes "chain nx p as 0" "a \<noteq> 0" "a \<notin> set as" "nx a = None"
  shows "chain ((if as = [] then nx else nx(last as \<mapsto> a))(a \<mapsto> 0)) (if as = [] then a else p) (as @ [a]) 0"
proof (cases as rule: rev_cases)
  case Nil
  with assms show ?thesis by simp
next
  case (snoc bs b)
  with assms(1) have bs: "chain nx p bs b" "b \<noteq> 0" "b \<notin> set bs"
    using chain_distinct [OF assms(1)] by (auto simp: chain_append)
  with assms(2,3) snoc show ?thesis
    by (auto simp: chain_append chain_frame)
qed

lemma chain_remove_head:
  "chain nx p (a # as) 0 \<Longrightarrow> nx a = Some b \<Longrightarrow> chain (nx(a := None)) b as 0"
  using chain_distinct [of nx p "a # as"] by (auto simp: chain_frame)

lemma chain_unlink:
  assumes "chain nx p (as @ b # c # cs) 0" "nx c = Some d"
  shows "chain (nx(b \<mapsto> d, c := None)) p (as @ b # cs) 0"
proof -
  have "distinct (as @ b # c # cs)"
    using assms(1) by (rule chain_distinct)
  with assms show ?thesis
    by (auto simp: chain_append chain_frame)
qed

end
