(* ===== verification/Beam_Mailbox.thy ===== *)
theory Beam_Mailbox
  imports Beam_Alloc Beam_Chain
begin

text \<open>
  Mailboxes, \<^verbatim>\<open>src/messaging/erl_message.c\<close>: a linked queue of messages with a save
  cursor for selective receive. Message nodes and mailboxes live in their own stores, extending
  the machine state; a node that is freed leaves the store, so a dangling cursor is undefined
  behaviour. The operations are modelled as they run on one thread; the theory
  \<open>Mailbox_Interleaving\<close> splits the lock-free enqueue into its atomic actions.
\<close>

subsection \<open>State\<close>

record beam_message =
  body :: eterm
  msg_next :: ptr

record beam_mailbox =
  mb_head :: ptr
  mb_tail :: ptr
  save_cursor :: ptr
  save_prev :: ptr
  atomic_count :: size_t
  mb_count :: size_t
  mb_alloc :: beam_allocator_i

record mail_machine = machine +
  msgs :: "ptr \<rightharpoonup> beam_message"
  mboxes :: "ptr \<rightharpoonup> beam_mailbox"

text \<open>Sizes of the two structs on LP64.\<close>

definition sizeof_beam_message :: size_t where "sizeof_beam_message = 16"
definition sizeof_beam_mailbox :: size_t where "sizeof_beam_mailbox = 120"

definition put_mbox :: "ptr \<Rightarrow> beam_mailbox \<Rightarrow> 'a mail_machine_scheme \<Rightarrow> 'a mail_machine_scheme" where
  "put_mbox p mb m = m\<lparr>mboxes := (mboxes m)(p \<mapsto> mb)\<rparr>"

definition put_msg :: "ptr \<Rightarrow> beam_message \<Rightarrow> 'a mail_machine_scheme \<Rightarrow> 'a mail_machine_scheme" where
  "put_msg p n m = m\<lparr>msgs := (msgs m)(p \<mapsto> n)\<rparr>"

text \<open>\<^verbatim>\<open>alloc.free\<close> of a message node: the node leaves the store.\<close>

definition free_msg ::
    "beam_allocator_i \<Rightarrow> ptr \<Rightarrow> 'a mail_machine_scheme \<Rightarrow> 'a mail_machine_scheme option" where
  "free_msg vt p m = do {
     m' \<leftarrow> call_free vt p m;
     Some (m'\<lparr>msgs := (msgs m')(p := None)\<rparr>)
   }"

subsection \<open>Operations\<close>

definition beam_mailbox_create ::
    "beam_allocator_i option \<Rightarrow> 'a mail_machine_scheme \<Rightarrow> (ptr \<times> 'a mail_machine_scheme) option" where
  "beam_mailbox_create al m =
     (if \<not> alloc_arg_ok al then Some (0, m)
      else do {
        (mbox, m1) \<leftarrow> call_alloc (the al) sizeof_beam_mailbox m;
        if mbox = 0 then Some (0, m1)
        else Some (mbox, put_mbox mbox
               \<lparr>mb_head = 0, mb_tail = 0, save_cursor = 0, save_prev = 0,
                atomic_count = 0, mb_count = 0, mb_alloc = the al\<rparr> m1)
      })"

partial_function (option) free_chain ::
    "beam_allocator_i \<Rightarrow> ptr \<Rightarrow> 'a mail_machine_scheme \<Rightarrow> 'a mail_machine_scheme option" where
  "free_chain vt cur m =
     (if cur = 0 then Some m
      else do {
        node \<leftarrow> msgs m cur;
        m1 \<leftarrow> free_msg vt cur m;
        free_chain vt (msg_next node) m1
      })"

definition beam_mailbox_destroy ::
    "ptr \<Rightarrow> 'a mail_machine_scheme \<Rightarrow> 'a mail_machine_scheme option" where
  "beam_mailbox_destroy mbox m =
     (if mbox = 0 then Some m
      else do {
        mb \<leftarrow> mboxes m mbox;
        m1 \<leftarrow> free_chain (mb_alloc mb) (mb_head mb) m;
        m2 \<leftarrow> call_free (mb_alloc mb) mbox m1;
        Some (m2\<lparr>mboxes := (mboxes m2)(mbox := None)\<rparr>)
      })"

definition beam_mailbox_enqueue ::
    "ptr \<Rightarrow> eterm \<Rightarrow> 'a mail_machine_scheme \<Rightarrow> (beam_result \<times> 'a mail_machine_scheme) option" where
  "beam_mailbox_enqueue mbox msg m =
     (if mbox = 0 then Some (BEAM_ERR_INVALID_ARG, m)
      else do {
        mb \<leftarrow> mboxes m mbox;
        (node, m1) \<leftarrow> call_alloc (mb_alloc mb) sizeof_beam_message m;
        if node = 0 then Some (BEAM_ERR_NO_MEMORY, m1)
        else do {
          let m2 = put_msg node \<lparr>body = msg, msg_next = 0\<rparr> m1;
          let prev_tail = mb_tail mb;
          let mb1 = mb\<lparr>mb_tail := node\<rparr>;
          (mb2, m3) \<leftarrow>
            (if prev_tail = 0 then Some (mb1\<lparr>mb_head := node\<rparr>, m2)
             else do {
               prev \<leftarrow> msgs m2 prev_tail;
               Some (mb1, put_msg prev_tail (prev\<lparr>msg_next := node\<rparr>) m2)
             });
          Some (BEAM_OK, put_mbox mbox
            (mb2\<lparr>atomic_count := atomic_count mb2 + 1, mb_count := mb_count mb2 + 1\<rparr>) m3)
        }
      })"

text \<open>
  An output pointer that may be null is a Boolean; the value written through it, if any, is part
  of the result.
\<close>

definition beam_mailbox_dequeue ::
    "ptr \<Rightarrow> bool \<Rightarrow> 'a mail_machine_scheme \<Rightarrow>
     (beam_result \<times> eterm option \<times> 'a mail_machine_scheme) option" where
  "beam_mailbox_dequeue mbox out_msg m =
     (if mbox = 0 \<or> \<not> out_msg then Some (BEAM_ERR_INVALID_ARG, None, m)
      else do {
        mb \<leftarrow> mboxes m mbox;
        if mb_head mb = 0 then Some (BEAM_ERR_NOT_FOUND, None, m)
        else do {
          node \<leftarrow> msgs m (mb_head mb);
          let mb1 = mb\<lparr>mb_head := msg_next node\<rparr>;
          let mb2 = (if mb_head mb1 = 0 then mb1\<lparr>mb_tail := 0\<rparr> else mb1);
          let mb3 = (if mb_count mb2 > 0 then mb2\<lparr>mb_count := mb_count mb2 - 1\<rparr> else mb2);
          m1 \<leftarrow> free_msg (mb_alloc mb) (mb_head mb) (put_mbox mbox mb3 m);
          Some (BEAM_OK, Some (body node), m1)
        }
      })"

definition beam_mailbox_reset_save_cursor ::
    "ptr \<Rightarrow> 'a mail_machine_scheme \<Rightarrow> 'a mail_machine_scheme option" where
  "beam_mailbox_reset_save_cursor mbox m =
     (if mbox = 0 then Some m
      else do {
        mb \<leftarrow> mboxes m mbox;
        Some (put_mbox mbox (mb\<lparr>save_cursor := mb_head mb, save_prev := 0\<rparr>) m)
      })"

definition beam_mailbox_peek_save ::
    "ptr \<Rightarrow> bool \<Rightarrow> 'a mail_machine_scheme \<Rightarrow>
     (beam_result \<times> eterm option \<times> 'a mail_machine_scheme) option" where
  "beam_mailbox_peek_save mbox out_msg m =
     (if mbox = 0 \<or> \<not> out_msg then Some (BEAM_ERR_INVALID_ARG, None, m)
      else do {
        mb \<leftarrow> mboxes m mbox;
        let mb1 = (if save_cursor mb = 0
                   then mb\<lparr>save_cursor := mb_head mb, save_prev := 0\<rparr> else mb);
        let m1 = put_mbox mbox mb1 m;
        if save_cursor mb1 = 0 then Some (BEAM_ERR_NOT_FOUND, None, m1)
        else do {
          node \<leftarrow> msgs m1 (save_cursor mb1);
          Some (BEAM_OK, Some (body node), m1)
        }
      })"

definition beam_mailbox_remove_current ::
    "ptr \<Rightarrow> 'a mail_machine_scheme \<Rightarrow> (beam_result \<times> 'a mail_machine_scheme) option" where
  "beam_mailbox_remove_current mbox m =
     (if mbox = 0 then Some (BEAM_ERR_NOT_FOUND, m)
      else do {
        mb \<leftarrow> mboxes m mbox;
        if save_cursor mb = 0 then Some (BEAM_ERR_NOT_FOUND, m)
        else do {
          let target = save_cursor mb;
          tnode \<leftarrow> msgs m target;
          let nxt = msg_next tnode;
          (mb1, m1) \<leftarrow>
            (if save_prev mb \<noteq> 0 then do {
               prev \<leftarrow> msgs m (save_prev mb);
               Some (mb, put_msg (save_prev mb) (prev\<lparr>msg_next := nxt\<rparr>) m)
             } else Some (mb\<lparr>mb_head := nxt\<rparr>, m));
          let mb2 = (if target = mb_tail mb1 then mb1\<lparr>mb_tail := save_prev mb1\<rparr> else mb1);
          let mb3 = mb2\<lparr>save_cursor := nxt\<rparr>;
          let mb4 = (if mb_count mb3 > 0 then mb3\<lparr>mb_count := mb_count mb3 - 1\<rparr> else mb3);
          m2 \<leftarrow> free_msg (mb_alloc mb) target (put_mbox mbox mb4 m1);
          Some (BEAM_OK, m2)
        }
      })"

definition beam_mailbox_count :: "ptr \<Rightarrow> 'a mail_machine_scheme \<Rightarrow> size_t option" where
  "beam_mailbox_count mbox m =
     (if mbox = 0 then Some 0 else do { mb \<leftarrow> mboxes m mbox; Some (mb_count mb) })"

text \<open>
  The advance of the cursor that \<^verbatim>\<open>BEAM_OP_LOOP_REC_END\<close> of the interpreter makes on the
  mailbox of its process.
\<close>

definition mailbox_advance_cursor ::
    "ptr \<Rightarrow> 'a mail_machine_scheme \<Rightarrow> 'a mail_machine_scheme option" where
  "mailbox_advance_cursor mbox m = do {
     mb \<leftarrow> mboxes m mbox;
     if save_cursor mb = 0 then Some m
     else do {
       node \<leftarrow> msgs m (save_cursor mb);
       Some (put_mbox mbox (mb\<lparr>save_prev := save_cursor mb, save_cursor := msg_next node\<rparr>) m)
     }
   }"

lemmas mailbox_defs =
  sizeof_beam_message_def sizeof_beam_mailbox_def put_mbox_def put_msg_def free_msg_def
  beam_mailbox_create_def beam_mailbox_destroy_def beam_mailbox_enqueue_def
  beam_mailbox_dequeue_def beam_mailbox_reset_save_cursor_def beam_mailbox_peek_save_def
  beam_mailbox_remove_current_def beam_mailbox_count_def mailbox_advance_cursor_def

lemmas [beam_defs] = mailbox_defs free_chain.simps

end
