(* ===== verification/Mailbox_Refinement.thy ===== *)
theory Mailbox_Refinement
  imports Beam_Mailbox "HOL-Library.Sublist"
begin

text \<open>
  What the mailbox promises. The abstract mailbox is a pair of message lists: those the save
  cursor has passed and those from the cursor on; the second list is empty when the cursor is
  null. \<open>mail_abs m A\<close> relates a machine state to the abstract mailboxes in it, and every
  operation of \<^verbatim>\<open>erl_message.c\<close> refines a function on the abstract mailbox. The locale
  \<open>mailbox_contract\<close> is the interface a receiving process relies on; FIFO delivery and selective
  receive are proved in it once and hold for the model by interpretation.
\<close>

subsection \<open>Representation\<close>

definition links :: "(ptr \<rightharpoonup> beam_message) \<Rightarrow> ptr \<rightharpoonup> ptr" where
  "links S = (\<lambda>a. map_option msg_next (S a))"

definition contents :: "(ptr \<rightharpoonup> beam_message) \<Rightarrow> ptr list \<Rightarrow> eterm list" where
  "contents S xs = map (\<lambda>a. body (the (S a))) xs"

type_synonym zipper = "ptr list \<times> ptr list"

abbreviation nodes :: "zipper \<Rightarrow> ptr list" where
  "nodes z \<equiv> fst z @ snd z"

definition queue_rep :: "(ptr \<rightharpoonup> beam_message) \<Rightarrow> beam_mailbox \<Rightarrow> ptr list \<Rightarrow> bool" where
  "queue_rep S mb xs \<longleftrightarrow> chain (links S) (mb_head mb) xs 0 \<and> mb_tail mb = last_or_null xs \<and>
     mb_count mb = of_nat (length xs)"

definition cursor_rep :: "beam_mailbox \<Rightarrow> zipper \<Rightarrow> bool" where
  "cursor_rep mb z \<longleftrightarrow>
     (case snd z of [] \<Rightarrow> save_cursor mb = 0
      | b # bs \<Rightarrow> save_cursor mb = b \<and> save_prev mb = last_or_null (fst z))"

definition mail_inv :: "'a mail_machine_scheme \<Rightarrow> (ptr \<Rightarrow> zipper) \<Rightarrow> bool" where
  "mail_inv m Q \<longleftrightarrow> machine_ok m \<and>
     (\<forall>p mb. mboxes m p = Some mb \<longrightarrow>
        vt_ok (mb_alloc mb) m \<and> queue_rep (msgs m) mb (nodes (Q p)) \<and> cursor_rep mb (Q p)) \<and>
     (\<forall>p \<in> dom (mboxes m). \<forall>q \<in> dom (mboxes m). p \<noteq> q \<longrightarrow>
        set (nodes (Q p)) \<inter> set (nodes (Q q)) = {}) \<and>
     dom (msgs m) \<subseteq> fst ` set (live m) \<and> dom (mboxes m) \<subseteq> fst ` set (live m) \<and>
     dom (msgs m) \<inter> dom (mboxes m) = {} \<and> 0 \<notin> dom (mboxes m)"

definition mail_view :: "'a mail_machine_scheme \<Rightarrow> zipper \<Rightarrow> eterm list \<times> eterm list" where
  "mail_view m z = (contents (msgs m) (fst z), contents (msgs m) (snd z))"

definition abs_of :: "'a mail_machine_scheme \<Rightarrow> (ptr \<Rightarrow> zipper) \<Rightarrow> ptr \<rightharpoonup> eterm list \<times> eterm list" where
  "abs_of m Q = (\<lambda>p. map_option (\<lambda>_. mail_view m (Q p)) (mboxes m p))"

definition mail_abs :: "'a mail_machine_scheme \<Rightarrow> (ptr \<rightharpoonup> eterm list \<times> eterm list) \<Rightarrow> bool" where
  "mail_abs m A \<longleftrightarrow> (\<exists>Q. mail_inv m Q \<and> A = abs_of m Q)"

subsection \<open>Operations on the abstract mailbox\<close>

fun spec_enqueue :: "'v \<Rightarrow> 'v list \<times> 'v list \<Rightarrow> 'v list \<times> 'v list" where
  "spec_enqueue v (xs, ys) = (if ys = [] then (xs @ [v], []) else (xs, ys @ [v]))"

fun spec_reset :: "'v list \<times> 'v list \<Rightarrow> 'v list \<times> 'v list" where
  "spec_reset (xs, ys) = ([], xs @ ys)"

fun spec_peek :: "'v list \<times> 'v list \<Rightarrow> 'v list \<times> 'v list" where
  "spec_peek (xs, ys) = (if ys = [] then ([], xs) else (xs, ys))"

fun spec_advance :: "'v list \<times> 'v list \<Rightarrow> 'v list \<times> 'v list" where
  "spec_advance (xs, []) = (xs, [])"
| "spec_advance (xs, y # ys) = (xs @ [y], ys)"

fun spec_remove :: "'v list \<times> 'v list \<Rightarrow> 'v list \<times> 'v list" where
  "spec_remove (xs, ys) = (xs, tl ys)"

fun spec_dequeue :: "'v list \<times> 'v list \<Rightarrow> 'v list \<times> 'v list" where
  "spec_dequeue (xs, ys) = (tl xs, ys)"

text \<open>Sequences of sends, of receives, and of cursor steps.\<close>

primrec send_all :: "('v \<Rightarrow> 's \<Rightarrow> (beam_result \<times> 's) option) \<Rightarrow> 'v list \<Rightarrow> 's \<Rightarrow> ('v list \<times> 's) option" where
  "send_all enq [] s = Some ([], s)"
| "send_all enq (v # vs) s = do {
     (r, s1) \<leftarrow> enq v s;
     (acc, s2) \<leftarrow> send_all enq vs s1;
     Some (if r = BEAM_OK then v # acc else acc, s2)
   }"

primrec receive_all :: "('s \<Rightarrow> (beam_result \<times> 'v option \<times> 's) option) \<Rightarrow> nat \<Rightarrow> 's \<Rightarrow> ('v list \<times> 's) option" where
  "receive_all deq 0 s = Some ([], s)"
| "receive_all deq (Suc n) s = do {
     (r, v, s1) \<leftarrow> deq s;
     case v of None \<Rightarrow> Some ([], s1)
     | Some x \<Rightarrow> do { (xs, s2) \<leftarrow> receive_all deq n s1; Some (x # xs, s2) }
   }"

primrec iterate :: "('s \<Rightarrow> 's option) \<Rightarrow> nat \<Rightarrow> 's \<Rightarrow> 's option" where
  "iterate f 0 s = Some s"
| "iterate f (Suc n) s = do { s1 \<leftarrow> f s; iterate f n s1 }"

subsection \<open>Facts on the representation\<close>

lemma alloc_env_mail_upd [simp]:
  fixes m :: "'a mail_machine_scheme"
  shows "machine_ok (m\<lparr>mboxes := f\<rparr>) = machine_ok m" "machine_ok (m\<lparr>msgs := g\<rparr>) = machine_ok m"
    "vt_ok vt (m\<lparr>mboxes := f\<rparr>) = vt_ok vt m" "vt_ok vt (m\<lparr>msgs := g\<rparr>) = vt_ok vt m"
  by (simp_all add: machine_ok_def vt_ok_def split: alloc_fn.split)

lemma links_upd [simp]:
  "links (S(a \<mapsto> n)) = (links S)(a \<mapsto> msg_next n)" "links (S(a := None)) = (links S)(a := None)"
  by (auto simp: links_def)

lemma links_Some: "S a = Some n \<Longrightarrow> links S a = Some (msg_next n)"
  by (simp add: links_def)

lemma dom_links [simp]: "dom (links S) = dom S"
  by (auto simp: links_def)

lemma mail_frame:
  assumes "machine.more m' = machine.more m"
  shows "msgs m' = msgs m" "mboxes m' = mboxes m" "mail_machine.more m' = mail_machine.more m"
  using assms by (cases m; cases m'; simp)+

lemma queue_rep_frame:
  assumes "\<And>a. a \<in> set xs \<Longrightarrow> S' a = S a"
  shows "queue_rep S' mb xs = queue_rep S mb xs" "contents S' xs = contents S xs"
proof -
  have "chain (links S') (mb_head mb) xs 0 = chain (links S) (mb_head mb) xs 0"
    using assms by (intro chain_cong) (simp add: links_def)
  then show "queue_rep S' mb xs = queue_rep S mb xs"
    by (simp add: queue_rep_def)
  show "contents S' xs = contents S xs"
    using assms by (simp add: contents_def)
qed

lemma queue_rep_dom: "queue_rep S mb xs \<Longrightarrow> set xs \<subseteq> dom S"
  using chain_dom [of "links S"] by (fastforce simp: queue_rep_def)

lemma queue_rep_distinct: "queue_rep S mb xs \<Longrightarrow> distinct xs"
  by (auto simp: queue_rep_def dest: chain_distinct)

lemma queue_rep_nonnull: "queue_rep S mb xs \<Longrightarrow> a \<in> set xs \<Longrightarrow> a \<noteq> 0"
  by (auto simp: queue_rep_def dest: chain_nonnull)

lemma length_nonnull_distinct:
  fixes xs :: "ptr list"
  assumes "distinct xs" "0 \<notin> set xs"
  shows "length xs < 2 ^ 64"
proof -
  have "length xs = card (set xs)"
    using assms(1) by (simp add: distinct_card)
  also have "\<dots> < card (UNIV :: ptr set)"
    using assms(2) by (intro psubset_card_mono) auto
  finally show ?thesis by (simp add: card_word)
qed

lemma queue_rep_length: "queue_rep S mb xs \<Longrightarrow> length xs < 2 ^ 64"
  using length_nonnull_distinct queue_rep_distinct queue_rep_nonnull by blast

lemma mail_invD:
  assumes "mail_inv m Q" "mboxes m p = Some mb"
  shows "alloc_env (mb_alloc mb) m" "queue_rep (msgs m) mb (nodes (Q p))" "cursor_rep mb (Q p)"
    "p \<noteq> 0"
  using assms by (auto simp: mail_inv_def)

text \<open>
  Replacing one mailbox and its nodes: the other mailboxes are untouched when the stores agree on
  their nodes.
\<close>

lemma mail_inv_update:
  assumes inv: "mail_inv m Q" and mb: "mboxes m p = Some mb"
    and env: "machine_ok m'" "\<And>vt. vt_ok vt m' = vt_ok vt m"
    and boxes: "mboxes m' = (mboxes m)(p \<mapsto> mb')" "mb_alloc mb' = mb_alloc mb"
    and rep: "queue_rep (msgs m') mb' (nodes z)" "cursor_rep mb' z"
    and same: "\<And>a. a \<in> dom (msgs m) \<Longrightarrow> a \<notin> set (nodes (Q p)) \<Longrightarrow> msgs m' a = msgs m a"
    and own: "set (nodes z) \<subseteq> set (nodes (Q p)) \<union> - dom (msgs m)"
    and doms: "dom (msgs m') \<subseteq> fst ` set (live m')" "dom (mboxes m) \<subseteq> fst ` set (live m')"
      "dom (msgs m') \<inter> dom (mboxes m) = {}"
  shows "mail_inv m' (Q(p := z))"
proof -
  note invs = inv [unfolded mail_inv_def]
  have inv': "\<And>q mq. mboxes m q = Some mq \<Longrightarrow> vt_ok (mb_alloc mq) m \<and>
      queue_rep (msgs m) mq (nodes (Q q)) \<and> cursor_rep mq (Q q)"
    "\<And>q. q \<in> dom (mboxes m) \<Longrightarrow> q \<noteq> p \<Longrightarrow> set (nodes (Q q)) \<inter> set (nodes (Q p)) = {}"
    "dom (mboxes m) \<subseteq> fst ` set (live m)" "0 \<notin> dom (mboxes m)"
    using invs mb by blast+
  have dom: "dom (mboxes m') = dom (mboxes m)"
    using boxes mb by auto
  have others: "set (nodes (Q q)) \<inter> set (nodes z) = {}" if q: "q \<in> dom (mboxes m)" "q \<noteq> p" for q
  proof -
    obtain mq where "mboxes m q = Some mq" using q(1) by blast
    then have "set (nodes (Q q)) \<subseteq> dom (msgs m)"
      using inv'(1) queue_rep_dom by blast
    with own inv'(2) [OF q] show ?thesis by blast
  qed
  have box: "vt_ok (mb_alloc mq) m' \<and> queue_rep (msgs m') mq (nodes ((Q(p := z)) q)) \<and>
      cursor_rep mq ((Q(p := z)) q)" if q: "mboxes m' q = Some mq" for q mq
  proof (cases "q = p")
    case True
    with q boxes rep env(2) inv'(1) mb show ?thesis by auto
  next
    case False
    with q boxes have q': "mboxes m q = Some mq" by simp
    then have "msgs m' a = msgs m a" if "a \<in> set (nodes (Q q))" for a
      using that same inv'(1) [OF q'] inv'(2) [of q] False queue_rep_dom by blast
    then show ?thesis
      using queue_rep_frame(1) [of "nodes (Q q)" "msgs m'" "msgs m" mq] inv'(1) [OF q'] env(2) False
      by simp
  qed
  have apart: "set (nodes ((Q(p := z)) q)) \<inter> set (nodes ((Q(p := z)) r)) = {}"
    if "q \<in> dom (mboxes m)" "r \<in> dom (mboxes m)" "q \<noteq> r" for q r
  proof (cases "q = p \<or> r = p")
    case True
    with that others [of q] others [of r] show ?thesis by auto
  next
    case False
    with that invs show ?thesis by simp
  qed
  show ?thesis
    unfolding mail_inv_def dom using env(1) box apart doms inv'(4) by blast
qed

lemma mail_absE:
  assumes "mail_abs m A" "A p = Some w"
  obtains Q mb where "mail_inv m Q" "w = mail_view m (Q p)" "A = abs_of m Q" "mboxes m p = Some mb"
  using assms by (auto simp: mail_abs_def abs_of_def)

lemma mail_abs_update:
  assumes inv: "mail_inv m Q" and mb: "mboxes m p = Some mb"
    and A: "A = abs_of m Q"
    and env: "machine_ok m'" "\<And>vt. vt_ok vt m' = vt_ok vt m"
    and boxes: "mboxes m' = (mboxes m)(p \<mapsto> mb')" "mb_alloc mb' = mb_alloc mb"
    and rep: "queue_rep (msgs m') mb' (nodes z)" "cursor_rep mb' z"
    and same: "\<And>a. a \<in> dom (msgs m) \<Longrightarrow> a \<notin> set (nodes (Q p)) \<Longrightarrow> msgs m' a = msgs m a"
    and own: "set (nodes z) \<subseteq> set (nodes (Q p)) \<union> - dom (msgs m)"
    and doms: "dom (msgs m') \<subseteq> fst ` set (live m')" "dom (mboxes m) \<subseteq> fst ` set (live m')"
      "dom (msgs m') \<inter> dom (mboxes m) = {}"
  shows "mail_abs m' (A(p \<mapsto> mail_view m' z))"
proof -
  note invs = inv [unfolded mail_inv_def]
  have "mail_inv m' (Q(p := z))"
    by (rule mail_inv_update [OF inv mb env boxes rep same own doms])
  moreover have "mail_view m' (Q q) = mail_view m (Q q)" if q: "mboxes m q = Some mq" "q \<noteq> p" for q mq
  proof -
    have "set (nodes (Q q)) \<subseteq> dom (msgs m)"
      using mail_invD(2) [OF inv q(1)] by (rule queue_rep_dom)
    moreover have "set (nodes (Q q)) \<inter> set (nodes (Q p)) = {}"
      using invs q mb by blast
    ultimately have "\<And>a. a \<in> set (nodes (Q q)) \<Longrightarrow> msgs m' a = msgs m a"
      using same by blast
    then show ?thesis
      by (simp add: mail_view_def contents_def)
  qed
  then have "A(p \<mapsto> mail_view m' z) = abs_of m' (Q(p := z))"
    unfolding A abs_of_def boxes(1) by (intro ext) (auto intro: option.map_cong)
  ultimately show ?thesis
    unfolding mail_abs_def by blast
qed

text \<open>Operations that only move the cursor.\<close>

lemma mail_abs_cursor:
  assumes inv: "mail_inv m Q" and mb: "mboxes m p = Some mb"
    and A: "A = abs_of m Q"
    and mb': "mb_head mb' = mb_head mb" "mb_tail mb' = mb_tail mb" "mb_count mb' = mb_count mb"
      "mb_alloc mb' = mb_alloc mb"
    and z: "nodes z = nodes (Q p)" "cursor_rep mb' z"
  shows "mail_abs (put_mbox p mb' m) (A(p \<mapsto> mail_view m z))"
proof -
  note invs = inv [unfolded mail_inv_def]
  let ?m = "put_mbox p mb' m"
  have "mail_abs ?m (A(p \<mapsto> mail_view ?m z))"
  proof (rule mail_abs_update [OF inv mb A])
    show "queue_rep (msgs ?m) mb' (nodes z)"
      using mail_invD(2) [OF inv mb] mb' z(1) by (simp add: queue_rep_def put_mbox_def)
  qed (use invs mb' z in \<open>auto simp: put_mbox_def\<close>)
  then show ?thesis by (simp add: mail_view_def put_mbox_def)
qed

subsection \<open>Moving the cursor\<close>

lemma cursor_restart:
  assumes "queue_rep S mb (nodes z)"
  shows "cursor_rep (mb\<lparr>save_cursor := mb_head mb, save_prev := 0\<rparr>) ([], nodes z)"
  using assms
  by (auto simp: queue_rep_def cursor_rep_def last_or_null_def dest: chain_head split: list.split)

lemma mail_reset:
  assumes "mail_abs m A" "A p = Some w"
  shows "\<exists>m'. beam_mailbox_reset_save_cursor p m = Some m' \<and> mail_abs m' (A(p \<mapsto> spec_reset w))"
proof -
  obtain Q mb where Q: "mail_inv m Q" "w = mail_view m (Q p)" "A = abs_of m Q" and mb: "mboxes m p = Some mb"
    using assms(1,2) by (rule mail_absE)
  let ?z = "([], nodes (Q p))"
  have "mail_abs (put_mbox p (mb\<lparr>save_cursor := mb_head mb, save_prev := 0\<rparr>) m)
      (A(p \<mapsto> mail_view m ?z))"
  proof (rule mail_abs_cursor [OF Q(1) mb Q(3)])
    show "cursor_rep (mb\<lparr>save_cursor := mb_head mb, save_prev := 0\<rparr>) ?z"
      using mail_invD(2) [OF Q(1) mb] by (rule cursor_restart)
  qed simp_all
  with Q(2) mail_invD(4) [OF Q(1) mb] mb show ?thesis
    by (simp add: beam_mailbox_reset_save_cursor_def mail_view_def contents_def)
qed

lemma mail_peek:
  assumes "mail_abs m A" "A p = Some w"
  shows "\<exists>m'. beam_mailbox_peek_save p True m =
      Some (if snd (spec_peek w) = [] then (BEAM_ERR_NOT_FOUND, None, m')
            else (BEAM_OK, Some (hd (snd (spec_peek w))), m')) \<and>
      mail_abs m' (A(p \<mapsto> spec_peek w))"
proof -
  obtain Q mb where Q: "mail_inv m Q" "w = mail_view m (Q p)" "A = abs_of m Q" and mb: "mboxes m p = Some mb"
    using assms(1,2) by (rule mail_absE)
  note D = mail_invD [OF Q(1) mb]
  obtain xs ys where z: "Q p = (xs, ys)" by (cases "Q p")
  show ?thesis
  proof (cases ys)
    case Nil
    let ?mb = "mb\<lparr>save_cursor := mb_head mb, save_prev := 0\<rparr>"
    have "mail_abs (put_mbox p ?mb m) (A(p \<mapsto> mail_view m ([], nodes (Q p))))"
      by (rule mail_abs_cursor [OF Q(1) mb Q(3)])
        (use cursor_restart [OF D(2)] in simp_all)
    moreover have "save_cursor mb = 0"
      using D(3) z Nil by (simp add: cursor_rep_def)
    moreover have "mb_head mb = (if xs = [] then 0 else hd xs)" "set xs \<subseteq> dom (msgs m)"
      "xs = [] \<or> hd xs \<noteq> 0"
      using D(2) z Nil queue_rep_dom [OF D(2)] queue_rep_nonnull [OF D(2)]
      by (auto simp: queue_rep_def dest: chain_head)
    ultimately show ?thesis
      using Q(2) z Nil D(4) mb
      by (cases xs) (auto simp: beam_mailbox_peek_save_def mail_view_def contents_def put_mbox_def)
  next
    case (Cons y zs)
    have "mail_abs (put_mbox p mb m) (A(p \<mapsto> mail_view m (Q p)))"
      by (rule mail_abs_cursor [OF Q(1) mb Q(3)]) (simp_all add: D(3))
    moreover have "save_cursor mb = y" "y \<noteq> 0" "y \<in> dom (msgs m)"
      using D(3) z Cons queue_rep_dom [OF D(2)] queue_rep_nonnull [OF D(2)]
      by (auto simp: cursor_rep_def)
    ultimately show ?thesis
      using Q(2) z Cons D(4) mb
      by (auto simp: beam_mailbox_peek_save_def mail_view_def contents_def put_mbox_def)
  qed
qed

lemma mail_advance:
  assumes "mail_abs m A" "A p = Some w"
  shows "\<exists>m'. mailbox_advance_cursor p m = Some m' \<and> mail_abs m' (A(p \<mapsto> spec_advance w))"
proof -
  obtain Q mb where Q: "mail_inv m Q" "w = mail_view m (Q p)" "A = abs_of m Q" and mb: "mboxes m p = Some mb"
    using assms(1,2) by (rule mail_absE)
  note D = mail_invD [OF Q(1) mb]
  obtain xs ys where z: "Q p = (xs, ys)" by (cases "Q p")
  show ?thesis
  proof (cases ys)
    case Nil
    with D(3) z have "save_cursor mb = 0" by (simp add: cursor_rep_def)
    then show ?thesis
      using Q(2) z Nil assms mb by (simp add: mailbox_advance_cursor_def mail_view_def contents_def fun_upd_idem)
  next
    case (Cons y zs)
    have cur: "save_cursor mb = y" "y \<noteq> 0"
      using D(3) z Cons queue_rep_nonnull [OF D(2)] by (auto simp: cursor_rep_def)
    obtain node where node: "msgs m y = Some node" "chain (links (msgs m)) (msg_next node) zs 0"
      using D(2) z Cons by (auto simp: queue_rep_def chain_append links_def)
    let ?mb = "mb\<lparr>save_prev := y, save_cursor := msg_next node\<rparr>"
    have "mail_abs (put_mbox p ?mb m) (A(p \<mapsto> mail_view m (xs @ [y], zs)))"
    proof (rule mail_abs_cursor [OF Q(1) mb Q(3)])
      show "cursor_rep ?mb (xs @ [y], zs)"
        using chain_head [OF node(2)] by (auto simp: cursor_rep_def last_or_null_def split: list.split)
    qed (simp_all add: z Cons)
    then show ?thesis
      using Q(2) z Cons cur node(1) mb
      by (simp add: mailbox_advance_cursor_def mail_view_def contents_def)
  qed
qed

subsection \<open>Enqueue\<close>

lemma mail_abs_env:
  assumes "mail_abs m A" "machine_ok m'" "\<And>vt. vt_ok vt m' = vt_ok vt m"
    "msgs m' = msgs m" "mboxes m' = mboxes m" "dom (msgs m) \<union> dom (mboxes m) \<subseteq> fst ` set (live m')"
  shows "mail_abs m' A"
proof -
  obtain Q where Q: "mail_inv m Q" "A = abs_of m Q"
    using assms(1) by (auto simp: mail_abs_def)
  then have "mail_inv m' Q"
    unfolding mail_inv_def assms(3-5) using assms(2,6) by simp
  moreover have "A = abs_of m' Q"
    unfolding Q(2) abs_of_def assms(5) by (simp add: mail_view_def assms(4))
  ultimately show ?thesis unfolding mail_abs_def by blast
qed

lemma good_sizes [simp]:
  "good_size sizeof_beam_message" "good_size sizeof_beam_mailbox"
  by (simp_all add: good_size_def sizeof_beam_message_def sizeof_beam_mailbox_def)

lemma queue_rep_snoc:
  fixes v :: eterm
  assumes "queue_rep S mb xs" "a \<noteq> 0" "S a = None"
  defines "S1 \<equiv> S(a \<mapsto> \<lparr>body = v, msg_next = 0\<rparr>)"
  shows "mb_tail mb = 0 \<Longrightarrow> xs = [] \<and>
      queue_rep S1 (mb\<lparr>mb_tail := a, mb_head := a, atomic_count := k, mb_count := mb_count mb + 1\<rparr>) [a]"
    and "mb_tail mb \<noteq> 0 \<Longrightarrow> \<exists>prev. S1 (mb_tail mb) = Some prev \<and> S (mb_tail mb) = Some prev \<and>
      mb_tail mb \<in> set xs \<and>
      queue_rep (S1(mb_tail mb \<mapsto> prev\<lparr>msg_next := a\<rparr>))
        (mb\<lparr>mb_tail := a, atomic_count := k, mb_count := mb_count mb + 1\<rparr>) (xs @ [a])"
proof -
  have ch: "chain (links S) (mb_head mb) xs 0" and tl: "mb_tail mb = last_or_null xs"
    and cnt: "mb_count mb = of_nat (length xs)"
    using assms(1) by (auto simp: queue_rep_def)
  have sub: "set xs \<subseteq> dom S" and nonnull: "\<And>x. x \<in> set xs \<Longrightarrow> x \<noteq> 0"
    using queue_rep_dom [OF assms(1)] queue_rep_nonnull [OF assms(1)] by auto
  then have a: "a \<notin> set xs" using assms(3) by auto
  have snoc: "chain ((if xs = [] then links S else (links S)(last xs \<mapsto> a))(a \<mapsto> 0))
      (if xs = [] then a else mb_head mb) (xs @ [a]) 0"
    using chain_snoc [OF ch assms(2) a] assms(3) by (simp add: links_def)
  {
    assume "mb_tail mb = 0"
    then have xs: "xs = []"
      using tl nonnull by (auto simp: last_or_null_def split: if_splits)
    with snoc cnt show "xs = [] \<and>
        queue_rep S1 (mb\<lparr>mb_tail := a, mb_head := a, atomic_count := k, mb_count := mb_count mb + 1\<rparr>) [a]"
      by (simp add: queue_rep_def S1_def last_or_null_def)
  next
    assume "mb_tail mb \<noteq> 0"
    then have xs: "xs \<noteq> []" "mb_tail mb = last xs"
      using tl by (auto simp: last_or_null_def split: if_splits)
    then obtain prev where prev: "S (last xs) = Some prev"
      using sub last_in_set by blast
    moreover from xs a have "last xs \<noteq> a" by auto
    ultimately show "\<exists>prev. S1 (mb_tail mb) = Some prev \<and> S (mb_tail mb) = Some prev \<and>
        mb_tail mb \<in> set xs \<and>
        queue_rep (S1(mb_tail mb \<mapsto> prev\<lparr>msg_next := a\<rparr>))
          (mb\<lparr>mb_tail := a, atomic_count := k, mb_count := mb_count mb + 1\<rparr>) (xs @ [a])"
      using xs snoc cnt
      by (intro exI [of _ prev]) (simp add: queue_rep_def S1_def last_or_null_def fun_upd_twist)
  }
qed

lemma mail_fresh:
  assumes "mail_inv m Q" "vt_ok vt m" "good_size n" "call_alloc vt n m = Some (a, m1)"
  shows "machine_ok m1" "\<And>vt'. vt_ok vt' m1 = vt_ok vt' m" "msgs m1 = msgs m" "mboxes m1 = mboxes m"
    "fst ` set (live m) \<subseteq> fst ` set (live m1)" "a \<noteq> 0 \<Longrightarrow> a \<in> fst ` set (live m1)"
    "a \<noteq> 0 \<Longrightarrow> msgs m a = None" "a \<noteq> 0 \<Longrightarrow> mboxes m a = None"
proof -
  have env: "alloc_env vt m" using assms by (simp add: mail_inv_def)
  have inv: "dom (msgs m) \<subseteq> fst ` set (live m)" "dom (mboxes m) \<subseteq> fst ` set (live m)"
    using assms(1) by (auto simp: mail_inv_def)
  show "machine_ok m1" using vt.alloc_ok [OF env assms(3,4)] by blast
  show "vt_ok vt' m1 = vt_ok vt' m" for vt' using assms(4) by (rule vt_ok_call_alloc)
  show "msgs m1 = msgs m" "mboxes m1 = mboxes m"
    using mail_frame [OF call_alloc_frame(2) [OF assms(4)]] by auto
  show "fst ` set (live m) \<subseteq> fst ` set (live m1)"
    using vt.alloc_bases [OF env assms(3,4)] .
  show "a \<noteq> 0 \<Longrightarrow> a \<in> fst ` set (live m1)" "a \<noteq> 0 \<Longrightarrow> msgs m a = None" "a \<noteq> 0 \<Longrightarrow> mboxes m a = None"
    using vt.alloc_fresh [OF env assms(3,4)] inv by auto
qed

text \<open>The store after a node was linked in behind the nodes of mailbox \<open>p\<close>.\<close>

lemma mail_abs_snoc:
  assumes Q: "mail_inv m Q" "w = mail_view m (Q p)" "A = abs_of m Q"
    and mb: "mboxes m p = Some mb"
    and call: "call_alloc vt sizeof_beam_message m = Some (a, m1)" "vt_ok vt m" "a \<noteq> 0"
    and m': "m' = m1\<lparr>msgs := S, mboxes := (mboxes m)(p \<mapsto> mb')\<rparr>" "queue_rep S mb' (nodes (Q p) @ [a])"
    and mb': "mb_alloc mb' = mb_alloc mb" "save_cursor mb' = save_cursor mb" "save_prev mb' = save_prev mb"
    and S: "\<And>x. x \<in> dom (msgs m) \<Longrightarrow> x \<notin> set (nodes (Q p)) \<Longrightarrow> S x = msgs m x"
      "dom S = insert a (dom (msgs m))" "body (the (S a)) = v"
      "\<And>x. x \<in> dom (msgs m) \<Longrightarrow> body (the (S x)) = body (the (msgs m x))"
  shows "mail_abs m' (A(p \<mapsto> spec_enqueue v w))"
proof -
  note invs = Q(1) [unfolded mail_inv_def]
  note F = mail_fresh [OF Q(1) call(2) good_sizes(1) call(1)]
  let ?z = "spec_enqueue a (Q p)"
  have z: "nodes ?z = nodes (Q p) @ [a]" by (cases "Q p") simp
  have "mail_abs m' (A(p \<mapsto> mail_view m' ?z))"
  proof (rule mail_abs_update [OF Q(1) mb Q(3)])
    show "cursor_rep mb' ?z"
      using mail_invD(3) [OF Q(1) mb] mb' by (cases "Q p") (auto simp: cursor_rep_def split: list.splits)
    show "machine_ok m'" "vt_ok vt' m' = vt_ok vt' m" for vt'
      using F(1,2) by (simp_all add: m'(1))
    show "queue_rep (msgs m') mb' (nodes ?z)"
      using m'(2) unfolding z by (simp add: m'(1))
    show "set (nodes ?z) \<subseteq> set (nodes (Q p)) \<union> - dom (msgs m)"
      unfolding z using F(7) [OF call(3)] by auto
    show "dom (msgs m') \<subseteq> vt.bases m'"
      using S(2) F(5,6) call(3) invs by (simp add: m'(1)) blast
    show "dom (mboxes m) \<subseteq> vt.bases m'"
      using F(5) invs by (simp add: m'(1)) blast
    show "dom (msgs m') \<inter> dom (mboxes m) = {}"
      using S(2) F(8) call(3) invs by (simp add: m'(1)) blast
  qed (simp_all add: m'(1) mb' S(1))
  moreover have "mail_view m' ?z = spec_enqueue v w"
  proof -
    have "\<And>x. x \<in> set (nodes (Q p)) \<Longrightarrow> body (the (S x)) = body (the (msgs m x))"
      using S(4) queue_rep_dom [OF mail_invD(2) [OF Q(1) mb]] by blast
    then show ?thesis
      using S(3) by (cases "Q p") (auto simp: mail_view_def contents_def Q(2) m'(1))
  qed
  ultimately show ?thesis by simp
qed

lemma mail_enqueue:
  assumes "mail_abs m A" "A p = Some w"
  shows "\<exists>r m'. beam_mailbox_enqueue p v m = Some (r, m') \<and>
    (r = BEAM_OK \<and> mail_abs m' (A(p \<mapsto> spec_enqueue v w)) \<or>
     r = BEAM_ERR_NO_MEMORY \<and> mail_abs m' A)"
proof -
  obtain Q mb where Q: "mail_inv m Q" "w = mail_view m (Q p)" "A = abs_of m Q" and mb: "mboxes m p = Some mb"
    using assms(1,2) by (rule mail_absE)
  note invs = Q(1) [unfolded mail_inv_def]
  note D = mail_invD [OF Q(1) mb]
  obtain a m1 where call: "call_alloc (mb_alloc mb) sizeof_beam_message m = Some (a, m1)"
    using vt.alloc_total [OF D(1)] by blast
  note F = mail_fresh [OF Q(1) conjunct2 [OF D(1)] good_sizes(1) call]
  show ?thesis
  proof (cases "a = 0")
    case True
    have "mail_abs m1 A"
      by (rule mail_abs_env [OF assms(1) F(1-4)]) (use invs F(5) in blast)
    with True D(4) mb call show ?thesis by (simp add: beam_mailbox_enqueue_def)
  next
    case a: False
    note snoc = queue_rep_snoc [OF D(2) a F(7) [OF a], of v "atomic_count mb + 1"]
    note new = mail_abs_snoc [OF Q mb call conjunct2 [OF D(1)] a]
    let ?S = "(msgs m)(a \<mapsto> \<lparr>body = v, msg_next = 0\<rparr>)"
    show ?thesis
    proof (cases "mb_tail mb = 0")
      case True
      let ?mb = "mb\<lparr>mb_tail := a, mb_head := a, atomic_count := atomic_count mb + 1,
        mb_count := mb_count mb + 1\<rparr>"
      let ?m = "m1\<lparr>msgs := ?S, mboxes := (mboxes m)(p \<mapsto> ?mb)\<rparr>"
      have "mail_abs ?m (A(p \<mapsto> spec_enqueue v w))"
        using snoc(1) [OF True] F(7) [OF a] by (intro new [OF refl]) auto
      then show ?thesis
        using True a D(4) mb call F(3,4)
        by (auto simp: beam_mailbox_enqueue_def Let_def put_msg_def put_mbox_def)
    next
      case False
      let ?mb = "mb\<lparr>mb_tail := a, atomic_count := atomic_count mb + 1, mb_count := mb_count mb + 1\<rparr>"
      obtain prev where prev: "?S (mb_tail mb) = Some prev" "msgs m (mb_tail mb) = Some prev"
        "mb_tail mb \<in> set (nodes (Q p))"
        "queue_rep (?S(mb_tail mb \<mapsto> prev\<lparr>msg_next := a\<rparr>)) ?mb (nodes (Q p) @ [a])"
        using snoc(2) [OF False] by blast
      let ?m = "m1\<lparr>msgs := ?S(mb_tail mb \<mapsto> prev\<lparr>msg_next := a\<rparr>), mboxes := (mboxes m)(p \<mapsto> ?mb)\<rparr>"
      have "mail_abs ?m (A(p \<mapsto> spec_enqueue v w))"
        using prev F(7) [OF a] by (intro new [OF refl]) auto
      then show ?thesis
        using False a prev(1) D(4) mb call F(3,4)
        by (auto simp: beam_mailbox_enqueue_def Let_def put_msg_def put_mbox_def)
    qed
  qed
qed

subsection \<open>Unlinking and freeing nodes\<close>

lemma free_msg_total:
  assumes "machine_ok m" "vt_ok vt m" "a \<in> fst ` set (live m)"
  obtains m' where "free_msg vt a m = Some m'" "machine_ok m'" "\<And>vt'. vt_ok vt' m' = vt_ok vt' m"
    "msgs m' = (msgs m)(a := None)" "mboxes m' = mboxes m" "mail_machine.more m' = mail_machine.more m"
    "words m' = words m"
    "fst ` set (live m) - {a} \<subseteq> fst ` set (live m')" "fst ` set (live m') \<subseteq> fst ` set (live m)"
    "\<And>b. b \<in> set (live m) \<Longrightarrow> fst b \<noteq> a \<Longrightarrow> b \<in> set (live m')"
proof -
  have env: "alloc_env vt m" using assms by simp
  obtain m1 where call: "call_free vt a m = Some m1"
    using vt.free_total [OF env assms(3)] by blast
  note F = mail_frame [OF call_free_frame(2) [OF call]]
  let ?m = "m1\<lparr>msgs := (msgs m1)(a := None)\<rparr>"
  have "machine_ok ?m" using vt.free_ok [OF env call] by simp
  moreover have "vt_ok vt' ?m = vt_ok vt' m" for vt'
    using vt_ok_call_free [OF call] by simp
  moreover have "vt.bases m - {a} \<subseteq> vt.bases ?m" "vt.bases ?m \<subseteq> vt.bases m"
    using vt.free_bases [OF call] by simp_all
  moreover have "free_msg vt a m = Some ?m" using call by (simp add: free_msg_def)
  ultimately show thesis
    using F call_free_frame(1,4) [OF call] by (intro that [of ?m]) simp_all
qed

text \<open>The state after a node was unlinked from mailbox \<open>p\<close> and freed.\<close>

lemma mail_abs_unlink:
  assumes Q: "mail_inv m Q" "A = abs_of m Q"
    and mb: "mboxes m p = Some mb" and a: "a \<in> set (nodes (Q p))"
    and rep: "queue_rep (S(a := None)) mb' (nodes z)" "cursor_rep mb' z" "mb_alloc mb' = mb_alloc mb"
    and z: "set (nodes z) \<subseteq> set (nodes (Q p)) - {a}"
    and S: "\<And>x. x \<notin> set (nodes (Q p)) \<Longrightarrow> S x = msgs m x"
      "\<And>x. map_option body (S x) = map_option body (msgs m x)"
  shows "\<exists>m'. free_msg (mb_alloc mb) a (m\<lparr>msgs := S, mboxes := (mboxes m)(p \<mapsto> mb')\<rparr>) = Some m' \<and>
    mail_abs m' (A(p \<mapsto> mail_view m z))"
proof -
  note invs = Q(1) [unfolded mail_inv_def] and D = mail_invD [OF Q(1) mb]
  let ?m = "m\<lparr>msgs := S, mboxes := (mboxes m)(p \<mapsto> mb')\<rparr>"
  have sub: "set (nodes (Q p)) \<subseteq> dom (msgs m)" using D(2) by (rule queue_rep_dom)
  have dom: "dom S = dom (msgs m)"
    using S(2) by (metis (mono_tags) domIff option.map_disc_iff set_eqI)
  have disj: "dom (msgs m) \<inter> dom (mboxes m) = {}" "dom (msgs m) \<subseteq> vt.bases m" "dom (mboxes m) \<subseteq> vt.bases m"
    using invs by blast+
  have "machine_ok ?m" "vt_ok (mb_alloc mb) ?m" using D(1) by simp_all
  moreover have "a \<in> fst ` set (live ?m)" using a sub disj(2) by auto
  ultimately obtain m' where m': "free_msg (mb_alloc mb) a ?m = Some m'" "machine_ok m'"
    "\<And>vt. vt_ok vt m' = vt_ok vt ?m" "msgs m' = (msgs ?m)(a := None)" "mboxes m' = mboxes ?m"
    "fst ` set (live ?m) - {a} \<subseteq> fst ` set (live m')"
    by (rule free_msg_total) blast
  have bases: "vt.bases m - {a} \<subseteq> vt.bases m'" and dom': "dom (msgs m') = dom (msgs m) - {a}"
    using m'(4,6) dom by simp_all
  have "mail_abs m' (A(p \<mapsto> mail_view m' z))"
  proof (rule mail_abs_update [OF Q(1) mb Q(2)])
    show "vt_ok vt m' = vt_ok vt m" for vt using m'(3) by simp
    show "queue_rep (msgs m') mb' (nodes z)" using rep(1) m'(4) by simp
    show "dom (msgs m') \<subseteq> vt.bases m'" "dom (msgs m') \<inter> dom (mboxes m) = {}"
      unfolding dom' using disj bases by blast+
    show "dom (mboxes m) \<subseteq> vt.bases m'"
      using disj bases a sub by blast
  qed (use m'(2,4,5) rep z S(1) a in auto)
  moreover have "mail_view m' z = mail_view m z"
  proof -
    have body: "body (the (S x)) = body (the (msgs m x))" if x: "x \<in> set (nodes z)" for x
    proof -
      have "x \<in> dom (msgs m)" using x z sub by blast
      then obtain n where "msgs m x = Some n" by blast
      with S(2) [of x] show ?thesis by (cases "S x") auto
    qed
    have "x \<noteq> a" if "x \<in> set (nodes z)" for x using that z by blast
    with body show ?thesis
      by (auto simp: mail_view_def contents_def m'(4))
  qed
  ultimately show ?thesis using m'(1) by auto
qed

lemma count_pos:
  assumes "queue_rep S mb xs" "xs \<noteq> []"
  shows "mb_count mb > 0" "mb_count mb - 1 = of_nat (length xs - 1)"
proof -
  have "unat (mb_count mb) = length xs"
    using queue_rep_length [OF assms(1)] assms(1) by (simp add: queue_rep_def unat_of_nat_small)
  with assms(2) show "mb_count mb > 0" by (simp add: word_less_nat_alt)
  show "mb_count mb - 1 = of_nat (length xs - 1)"
    using assms by (cases xs) (simp_all add: queue_rep_def)
qed

lemma mail_dequeue_empty:
  assumes "mail_abs m A" "A p = Some w" "w = ([], [])"
  shows "beam_mailbox_dequeue p True m = Some (BEAM_ERR_NOT_FOUND, None, m)"
proof -
  obtain Q mb where Q: "mail_inv m Q" "w = mail_view m (Q p)" and mb: "mboxes m p = Some mb"
    using assms(1,2) by (rule mail_absE)
  note D = mail_invD [OF Q(1) mb]
  from Q(2) assms(3) have "nodes (Q p) = []" by (simp add: mail_view_def contents_def)
  with D(2) have "mb_head mb = 0" by (simp add: queue_rep_def)
  with D(4) mb show ?thesis by (simp add: beam_mailbox_dequeue_def)
qed

lemma queue_rep_tl:
  assumes "queue_rep S mb (a # xs)" "S a = Some node"
  shows "queue_rep (S(a := None))
      (mb\<lparr>mb_head := msg_next node, mb_tail := (if msg_next node = 0 then 0 else mb_tail mb),
          mb_count := mb_count mb - 1\<rparr>) xs"
proof -
  have ch: "chain (links S) (mb_head mb) (a # xs) 0" using assms(1) by (simp add: queue_rep_def)
  have "chain (links (S(a := None))) (msg_next node) xs 0"
    using chain_remove_head [OF ch links_Some [of S, OF assms(2)]] by simp
  moreover from chain_head [OF this] chain_nonnull [OF ch] have "msg_next node = 0 \<longleftrightarrow> xs = []"
    by auto
  ultimately show ?thesis
    using assms(1) count_pos(2) [OF assms(1)] by (auto simp: queue_rep_def last_or_null_def)
qed

lemma mail_dequeue:
  assumes "mail_abs m A" "A p = Some w" "w = (x # xs, ys)" "xs \<noteq> [] \<or> ys = []"
  shows "\<exists>m'. beam_mailbox_dequeue p True m = Some (BEAM_OK, Some x, m') \<and>
    mail_abs m' (A(p \<mapsto> spec_dequeue w))"
proof -
  obtain Q mb where Q: "mail_inv m Q" "w = mail_view m (Q p)" "A = abs_of m Q" and mb: "mboxes m p = Some mb"
    using assms(1,2) by (rule mail_absE)
  note D = mail_invD [OF Q(1) mb]
  obtain a as bs where z: "Q p = (a # as, bs)"
    using Q(2) assms(3) by (cases "Q p") (auto simp: mail_view_def contents_def)
  have ab: "as \<noteq> [] \<or> bs = []"
    using Q(2) assms(3,4) z by (auto simp: mail_view_def contents_def)
  have rep: "queue_rep (msgs m) mb (a # as @ bs)" using D(2) z by simp
  then have a: "mb_head mb = a" "a \<noteq> 0" "a \<notin> set (as @ bs)"
    using queue_rep_nonnull queue_rep_distinct [OF rep] by (auto simp: queue_rep_def)
  obtain node where node: "msgs m a = Some node" using queue_rep_dom [OF rep] by auto
  let ?mb = "mb\<lparr>mb_head := msg_next node, mb_tail := (if msg_next node = 0 then 0 else mb_tail mb),
    mb_count := mb_count mb - 1\<rparr>"
  have "\<exists>m'. free_msg (mb_alloc mb) a (m\<lparr>msgs := msgs m, mboxes := (mboxes m)(p \<mapsto> ?mb)\<rparr>) = Some m' \<and>
    mail_abs m' (A(p \<mapsto> mail_view m (as, bs)))"
  proof (rule mail_abs_unlink [OF Q(1,3) mb])
    show "queue_rep ((msgs m)(a := None)) ?mb (nodes (as, bs))"
      using queue_rep_tl [OF rep node] by simp
    show "cursor_rep ?mb (as, bs)"
      using D(3) z ab by (auto simp: cursor_rep_def last_or_null_def split: list.splits)
  qed (use z a in auto)
  moreover have "mail_view m (as, bs) = spec_dequeue w" "body node = x"
    using Q(2) z node assms(3) by (auto simp: mail_view_def contents_def)
  ultimately show ?thesis
    using a(1,2) node D(4) mb count_pos(1) [OF rep]
    by (auto simp: beam_mailbox_dequeue_def put_mbox_def Let_def)
qed

lemma queue_rep_unlink:
  assumes "queue_rep S mb (xs @ b # a # ys)" "S a = Some node" "S b = Some prev"
  shows "queue_rep ((S(b \<mapsto> prev\<lparr>msg_next := msg_next node\<rparr>))(a := None))
      (mb\<lparr>mb_tail := (if a = mb_tail mb then b else mb_tail mb), save_cursor := msg_next node,
          mb_count := mb_count mb - 1\<rparr>) (xs @ b # ys)"
    and "msg_next node = (if ys = [] then 0 else hd ys)" "a = mb_tail mb \<longleftrightarrow> ys = []"
proof -
  have ch: "chain (links S) (mb_head mb) (xs @ b # a # ys) 0" using assms(1) by (simp add: queue_rep_def)
  have ne: "a \<noteq> b" "a \<notin> set ys" using chain_distinct [OF ch] by auto
  have "chain (links S) (msg_next node) ys 0"
    using ch assms(2) by (auto simp: chain_append links_Some)
  then show nx: "msg_next node = (if ys = [] then 0 else hd ys)" by (rule chain_head)
  show tail: "a = mb_tail mb \<longleftrightarrow> ys = []"
    using assms(1) ne by (auto simp: queue_rep_def last_or_null_def)
  have "chain ((links S)(b \<mapsto> msg_next node, a := None)) (mb_head mb) (xs @ b # ys) 0"
    by (rule chain_unlink [OF ch links_Some [of S, OF assms(2)]])
  then show "queue_rep ((S(b \<mapsto> prev\<lparr>msg_next := msg_next node\<rparr>))(a := None))
      (mb\<lparr>mb_tail := (if a = mb_tail mb then b else mb_tail mb), save_cursor := msg_next node,
          mb_count := mb_count mb - 1\<rparr>) (xs @ b # ys)"
    using assms(1) tail count_pos(2) [OF assms(1)] by (simp add: queue_rep_def last_or_null_def)
qed

lemma mail_remove_none:
  assumes "mail_abs m A" "A p = Some w" "snd w = []"
  shows "beam_mailbox_remove_current p m = Some (BEAM_ERR_NOT_FOUND, m)"
proof -
  obtain Q mb where Q: "mail_inv m Q" "w = mail_view m (Q p)" and mb: "mboxes m p = Some mb"
    using assms(1,2) by (rule mail_absE)
  note D = mail_invD [OF Q(1) mb]
  have "save_cursor mb = 0"
    using D(3) Q(2) assms(3) by (simp add: cursor_rep_def mail_view_def contents_def)
  with D(4) mb show ?thesis by (simp add: beam_mailbox_remove_current_def)
qed

lemma mail_remove:
  assumes "mail_abs m A" "A p = Some w" "snd w \<noteq> []"
  shows "\<exists>m'. beam_mailbox_remove_current p m = Some (BEAM_OK, m') \<and>
    mail_abs m' (A(p \<mapsto> spec_remove w))"
proof -
  obtain Q mb where Q: "mail_inv m Q" "w = mail_view m (Q p)" "A = abs_of m Q" and mb: "mboxes m p = Some mb"
    using assms(1,2) by (rule mail_absE)
  note D = mail_invD [OF Q(1) mb]
  obtain xs a ys where z: "Q p = (xs, a # ys)"
    using Q(2) assms(3) by (cases "Q p"; cases "snd (Q p)") (auto simp: mail_view_def contents_def)
  have cur: "save_cursor mb = a" "save_prev mb = last_or_null xs"
    using D(3) z by (auto simp: cursor_rep_def)
  obtain node where node: "msgs m a = Some node" using queue_rep_dom [OF D(2)] z by auto
  have a: "a \<noteq> 0" "a \<notin> set xs" "a \<notin> set ys"
    using queue_rep_nonnull [OF D(2)] queue_rep_distinct [OF D(2)] z by auto
  have cnt: "mb_count mb > 0" using count_pos(1) [OF D(2)] z by simp
  have spec: "mail_view m (xs, ys) = spec_remove w"
    using Q(2) z by (auto simp: mail_view_def contents_def)
  note unlink = mail_abs_unlink [OF Q(1,3) mb, of a _ _ "(xs, ys)", unfolded spec]
  show ?thesis
  proof (cases xs rule: rev_cases)
    case Nil
    let ?mb = "mb\<lparr>mb_head := msg_next node, mb_tail := (if msg_next node = 0 then 0 else mb_tail mb),
      save_cursor := msg_next node, mb_count := mb_count mb - 1\<rparr>"
    have rep: "queue_rep (msgs m) mb (a # ys)" using D(2) z Nil by simp
    note tl = queue_rep_tl [OF rep node]
    have nx: "msg_next node = (if ys = [] then 0 else hd ys)"
      using tl by (intro chain_head [of "links ((msgs m)(a := None))"]) (simp add: queue_rep_def)
    have tail: "a = mb_tail mb \<longleftrightarrow> msg_next node = 0"
      using rep nx a queue_rep_nonnull [OF rep] by (auto simp: queue_rep_def last_or_null_def)
    have "\<exists>m'. free_msg (mb_alloc mb) a (m\<lparr>msgs := msgs m, mboxes := (mboxes m)(p \<mapsto> ?mb)\<rparr>) = Some m' \<and>
        mail_abs m' (A(p \<mapsto> spec_remove w))"
    proof (rule unlink)
      show "queue_rep ((msgs m)(a := None)) ?mb (nodes (xs, ys))"
        using tl Nil by (simp add: queue_rep_def)
      show "cursor_rep ?mb (xs, ys)"
        using nx cur Nil by (auto simp: cursor_rep_def split: list.split)
    qed (use z a Nil in auto)
    with Nil cur a node cnt D(4) tail mb show ?thesis
      by (auto simp: beam_mailbox_remove_current_def put_mbox_def Let_def last_or_null_def)
  next
    case (snoc as b)
    obtain prev where prev: "msgs m b = Some prev" using queue_rep_dom [OF D(2)] z snoc by auto
    have b: "b \<noteq> 0" "b \<noteq> a"
      using queue_rep_nonnull [OF D(2)] a z snoc by auto
    let ?mb = "mb\<lparr>mb_tail := (if a = mb_tail mb then b else mb_tail mb), save_cursor := msg_next node,
      mb_count := mb_count mb - 1\<rparr>"
    let ?S = "(msgs m)(b \<mapsto> prev\<lparr>msg_next := msg_next node\<rparr>)"
    have rep: "queue_rep (msgs m) mb (as @ b # a # ys)" using D(2) z snoc by simp
    note ul = queue_rep_unlink [OF rep node prev]
    have "\<exists>m'. free_msg (mb_alloc mb) a (m\<lparr>msgs := ?S, mboxes := (mboxes m)(p \<mapsto> ?mb)\<rparr>) = Some m' \<and>
        mail_abs m' (A(p \<mapsto> spec_remove w))"
    proof (rule unlink)
      show "queue_rep (?S(a := None)) ?mb (nodes (xs, ys))" using ul(1) snoc by simp
      show "cursor_rep ?mb (xs, ys)"
        using ul(2) cur by (auto simp: cursor_rep_def split: list.split)
    qed (use z a snoc prev in auto)
    with snoc cur a b node prev cnt D(4) mb show ?thesis
      by (auto simp: beam_mailbox_remove_current_def put_mbox_def put_msg_def Let_def last_or_null_def)
  qed
qed

subsection \<open>Create and destroy\<close>

lemma free_chain_frees:
  assumes "machine_ok m" "vt_ok vt m" "chain (links (msgs m)) c xs 0" "set xs \<subseteq> fst ` set (live m)"
  shows "\<exists>m'. free_chain vt c m = Some m' \<and> machine_ok m' \<and> (\<forall>vt'. vt_ok vt' m' = vt_ok vt' m) \<and>
    msgs m' = msgs m |` (- set xs) \<and> mboxes m' = mboxes m \<and> words m' = words m \<and>
    mail_machine.more m' = mail_machine.more m \<and> fst ` set (live m) - set xs \<subseteq> fst ` set (live m') \<and>
    (\<forall>b \<in> set (live m). fst b \<notin> set xs \<longrightarrow> b \<in> set (live m')) \<and>
    (vt_free vt = FN_SYS \<longrightarrow> fst ` set (live m') = fst ` set (live m) - set xs)"
  using assms
proof (induction xs arbitrary: c m)
  case Nil
  then show ?case by (simp add: free_chain.simps)
next
  case (Cons a xs)
  then obtain node where node: "msgs m a = Some node" "c = a" "a \<noteq> 0"
    "chain (links (msgs m)) (msg_next node) xs 0"
    by (auto simp: links_def)
  have a: "a \<notin> set xs" using chain_distinct [OF Cons.prems(3)] by simp
  have base: "a \<in> fst ` set (live m)" using Cons.prems(4) by simp
  obtain m1 where m1: "free_msg vt a m = Some m1" "machine_ok m1" "\<And>vt'. vt_ok vt' m1 = vt_ok vt' m"
    "msgs m1 = (msgs m)(a := None)" "mboxes m1 = mboxes m" "mail_machine.more m1 = mail_machine.more m"
    "words m1 = words m" "fst ` set (live m) - {a} \<subseteq> fst ` set (live m1)"
    "\<And>b. b \<in> set (live m) \<Longrightarrow> fst b \<noteq> a \<Longrightarrow> b \<in> set (live m1)"
    by (rule free_msg_total [OF Cons.prems(1,2) base]) blast
  obtain y where y: "call_free vt a m = Some y" "live m1 = live y"
    using m1(1) by (auto simp: free_msg_def bind_eq_Some_conv)
  then have sys: "vt_free vt = FN_SYS \<Longrightarrow> fst ` set (live m1) = fst ` set (live m) - {a}"
    using call_free_sys [OF _ node(3) y(1)] y(2) by simp
  have "chain (links (msgs m1)) (msg_next node) xs 0" "set xs \<subseteq> fst ` set (live m1)"
    using node(4) a m1(4,8) Cons.prems(4) by (auto simp: chain_frame)
  then obtain m2 where m2: "free_chain vt (msg_next node) m1 = Some m2" "machine_ok m2"
    "\<forall>vt'. vt_ok vt' m2 = vt_ok vt' m1" "msgs m2 = msgs m1 |` (- set xs)" "mboxes m2 = mboxes m1"
    "words m2 = words m1" "mail_machine.more m2 = mail_machine.more m1"
    "fst ` set (live m1) - set xs \<subseteq> fst ` set (live m2)"
    "\<forall>b \<in> set (live m1). fst b \<notin> set xs \<longrightarrow> b \<in> set (live m2)"
    "vt_free vt = FN_SYS \<longrightarrow> fst ` set (live m2) = fst ` set (live m1) - set xs"
    using Cons.IH [OF m1(2), of "msg_next node"] m1(3) Cons.prems(2) by auto
  have "msgs m2 = msgs m |` (- set (a # xs))"
    unfolding m2(4) m1(4) by (rule ext) (simp add: restrict_map_def)
  moreover have "free_chain vt c m = Some m2"
    using node m1(1) m2(1) by (subst free_chain.simps) simp
  moreover have "fst ` set (live m) - set (a # xs) \<subseteq> fst ` set (live m2)"
    using m1(8) m2(8) by auto
  moreover have "vt_free vt = FN_SYS \<longrightarrow> fst ` set (live m2) = fst ` set (live m) - set (a # xs)"
    using sys m2(10) by auto
  moreover have "\<forall>b \<in> set (live m). fst b \<notin> set (a # xs) \<longrightarrow> b \<in> set (live m2)"
    using m1(9) m2(9) by simp
  ultimately show ?case using m1 m2 by simp
qed

lemma mail_create:
  assumes "mail_abs m A" "vt_ok vt m"
  shows "\<exists>p m'. beam_mailbox_create (Some vt) m = Some (p, m') \<and>
    (if p = 0 then mail_abs m' A
     else mboxes m p = None \<and> mboxes m' = (mboxes m)(p \<mapsto> \<lparr>mb_head = 0, mb_tail = 0, save_cursor = 0,
         save_prev = 0, atomic_count = 0, mb_count = 0, mb_alloc = vt\<rparr>) \<and> mail_abs m' (A(p \<mapsto> ([], []))))"
proof -
  obtain Q where Q: "mail_inv m Q" "A = abs_of m Q"
    using assms(1) by (auto simp: mail_abs_def)
  note invs = Q(1) [unfolded mail_inv_def]
  have ok: "alloc_arg_ok (Some vt)" and env: "alloc_env vt m"
    using assms(2) invs by (auto simp: vt_ok_def alloc_arg_ok_def split: alloc_fn.splits)
  obtain p m1 where call: "call_alloc vt sizeof_beam_mailbox m = Some (p, m1)"
    using vt.alloc_total [OF env] by blast
  note F = mail_fresh [OF Q(1) assms(2) good_sizes(2) call]
  show ?thesis
  proof (cases "p = 0")
    case True
    have "mail_abs m1 A"
      by (rule mail_abs_env [OF assms(1) F(1-4)]) (use invs F(5) in blast)
    with True ok call show ?thesis by (auto simp: beam_mailbox_create_def)
  next
    case False
    let ?mb = "\<lparr>mb_head = 0, mb_tail = 0, save_cursor = 0, save_prev = 0, atomic_count = 0,
      mb_count = 0, mb_alloc = vt\<rparr>"
    let ?m = "put_mbox p ?mb m1" and ?Q = "Q(p := ([], []))"
    have "queue_rep (msgs m) ?mb []" "cursor_rep ?mb ([], [])"
      by (simp_all add: queue_rep_def cursor_rep_def last_or_null_def)
    then have "mail_inv ?m ?Q"
      using invs F False assms(2) by (simp add: mail_inv_def put_mbox_def) blast
    moreover have "A(p \<mapsto> ([], [])) = abs_of ?m ?Q"
      unfolding Q(2) by (rule ext) (simp add: put_mbox_def mail_view_def contents_def abs_of_def F(3,4))
    ultimately have "mail_abs ?m (A(p \<mapsto> ([], [])))"
      unfolding mail_abs_def by blast
    with False ok call F(4,8) show ?thesis by (auto simp: beam_mailbox_create_def put_mbox_def)
  qed
qed

lemma mail_destroy:
  assumes "mail_inv m Q" "mboxes m p = Some mb"
  shows "\<exists>m'. beam_mailbox_destroy p m = Some m' \<and> mail_inv m' Q \<and>
    mboxes m' = (mboxes m)(p := None) \<and> msgs m' = msgs m |` (- set (nodes (Q p))) \<and>
    words m' = words m \<and> mail_machine.more m' = mail_machine.more m \<and>
    (\<forall>vt. vt_ok vt m' = vt_ok vt m) \<and>
    fst ` set (live m) - insert p (set (nodes (Q p))) \<subseteq> fst ` set (live m') \<and>
    (\<forall>b \<in> set (live m). fst b \<notin> insert p (set (nodes (Q p))) \<longrightarrow> b \<in> set (live m')) \<and>
    (vt_free (mb_alloc mb) = FN_SYS \<longrightarrow>
       fst ` set (live m') = fst ` set (live m) - insert p (set (nodes (Q p))))"
proof -
  note invs = assms(1) [unfolded mail_inv_def] and D = mail_invD [OF assms]
  let ?ns = "set (nodes (Q p))"
  have sub: "?ns \<subseteq> dom (msgs m)" using D(2) by (rule queue_rep_dom)
  have disj: "dom (msgs m) \<inter> dom (mboxes m) = {}" "dom (msgs m) \<subseteq> vt.bases m" "dom (mboxes m) \<subseteq> vt.bases m"
    using invs by blast+
  have p: "p \<notin> ?ns" "p \<in> vt.bases m" using sub disj assms(2) by blast+
  have "?ns \<subseteq> vt.bases m" using sub disj(2) by blast
  then obtain m1 where m1: "free_chain (mb_alloc mb) (mb_head mb) m = Some m1" "machine_ok m1"
    "\<forall>vt'. vt_ok vt' m1 = vt_ok vt' m" "msgs m1 = msgs m |` (- ?ns)" "mboxes m1 = mboxes m"
    "words m1 = words m" "mail_machine.more m1 = mail_machine.more m" "vt.bases m - ?ns \<subseteq> vt.bases m1"
    "\<forall>b \<in> set (live m). fst b \<notin> ?ns \<longrightarrow> b \<in> set (live m1)"
    "vt_free (mb_alloc mb) = FN_SYS \<longrightarrow> vt.bases m1 = vt.bases m - ?ns"
    using free_chain_frees [of m "mb_alloc mb" "mb_head mb" "nodes (Q p)"] D(1,2)
    by (auto simp: queue_rep_def)
  have env: "alloc_env (mb_alloc mb) m1" using m1(2,3) D(1) by simp
  have "p \<in> vt.bases m1" using p m1(8) by blast
  then obtain m2 where m2: "call_free (mb_alloc mb) p m1 = Some m2"
    using vt.free_total [OF env] by blast
  note F = mail_frame [OF call_free_frame(2) [OF m2]]
  let ?m = "m2\<lparr>mboxes := (mboxes m2)(p := None)\<rparr>"
  have run: "beam_mailbox_destroy p m = Some ?m"
    using D(4) assms(2) m1(1) m2 by (simp add: beam_mailbox_destroy_def)
  have ok: "machine_ok ?m" "vt_ok vt ?m = vt_ok vt m" for vt
    using vt.free_ok [OF env m2] vt_ok_call_free [OF m2] m1(3) by simp_all
  have live: "live ?m = live m2" by simp
  have bases: "vt.bases m - insert p ?ns \<subseteq> vt.bases ?m"
    unfolding live using vt.free_bases(1) [OF m2] m1(8) by blast
  have sys: "vt_free (mb_alloc mb) = FN_SYS \<longrightarrow> vt.bases ?m = vt.bases m - insert p ?ns"
    unfolding live using call_free_sys [OF _ D(4) m2] m1(10) Diff_insert [of "vt.bases m" p ?ns] by simp
  have blocks: "\<forall>b \<in> set (live m). fst b \<notin> insert p ?ns \<longrightarrow> b \<in> set (live ?m)"
    unfolding live using call_free_frame(4) [OF m2] m1(9) by simp
  have stores: "msgs ?m = msgs m |` (- ?ns)" "mboxes ?m = (mboxes m)(p := None)"
    using F m1(4,5) by simp_all
  have doms: "dom (msgs ?m) = dom (msgs m) - ?ns" "dom (mboxes ?m) = dom (mboxes m) - {p}"
    unfolding stores by auto
  have pd: "p \<in> dom (mboxes m)" using assms(2) by blast
  have "mail_inv ?m Q"
    unfolding mail_inv_def ok(2)
  proof (intro conjI allI impI ballI)
    fix q mq assume q: "mboxes ?m q = Some mq"
    then have q': "mboxes m q = Some mq" "q \<noteq> p" using stores(2) by (auto split: if_splits)
    then show "vt_ok (mb_alloc mq) m" "cursor_rep mq (Q q)" using invs by blast+
    have "set (nodes (Q q)) \<inter> ?ns = {}" using invs q' assms(2) by blast
    then have "msgs ?m a = msgs m a" if "a \<in> set (nodes (Q q))" for a
      unfolding stores using that by (auto simp: restrict_map_def)
    then show "queue_rep (msgs ?m) mq (nodes (Q q))"
      using queue_rep_frame(1) mail_invD(2) [OF assms(1) q'(1)] by blast
  next
    fix q r assume "q \<in> dom (mboxes ?m)" "r \<in> dom (mboxes ?m)" "q \<noteq> r"
    then have "q \<in> dom (mboxes m)" "r \<in> dom (mboxes m)" "q \<noteq> r"
      unfolding stores by auto
    then show "set (nodes (Q q)) \<inter> set (nodes (Q r)) = {}" using invs by blast
  next
    have "dom (msgs ?m) \<subseteq> vt.bases m - insert p ?ns" "dom (mboxes ?m) \<subseteq> vt.bases m - insert p ?ns"
      unfolding doms using disj sub pd by blast+
    then show "dom (msgs ?m) \<subseteq> vt.bases ?m" "dom (mboxes ?m) \<subseteq> vt.bases ?m"
      by (simp_all only: subset_trans [OF _ bases])
    show "dom (msgs ?m) \<inter> dom (mboxes ?m) = {}"
      unfolding doms using disj(1) by blast
  qed (use ok(1) invs stores(2) in auto)
  then show ?thesis
    using run stores ok(2) bases blocks sys F m1(6,7) call_free_frame(1) [OF m2] by simp
qed

lemma abs_of_destroyed:
  assumes "mail_inv m Q" "mboxes m p = Some mb"
    "mboxes m' = (mboxes m)(p := None)" "msgs m' = msgs m |` (- set (nodes (Q p)))"
  shows "abs_of m' Q = (abs_of m Q)(p := None)"
proof -
  have "mail_view m' (Q q) = mail_view m (Q q)" if "mboxes m q = Some mq" "q \<noteq> p" for q mq
  proof -
    have "set (nodes (Q q)) \<inter> set (nodes (Q p)) = {}"
      using that assms(1,2) unfolding mail_inv_def by blast
    then show ?thesis
      by (auto simp: mail_view_def contents_def assms(4) restrict_map_def)
  qed
  then show ?thesis
    unfolding abs_of_def assms(3) by (intro ext) (auto intro: option.map_cong)
qed

subsection \<open>The contract of a mailbox\<close>

locale mailbox_contract =
  fixes enqueue :: "eterm \<Rightarrow> 's \<Rightarrow> (beam_result \<times> 's) option"
    and dequeue :: "'s \<Rightarrow> (beam_result \<times> eterm option \<times> 's) option"
    and peek :: "'s \<Rightarrow> (beam_result \<times> eterm option \<times> 's) option"
    and reset :: "'s \<Rightarrow> 's option"
    and advance :: "'s \<Rightarrow> 's option"
    and remove :: "'s \<Rightarrow> (beam_result \<times> 's) option"
    and rep :: "'s \<Rightarrow> eterm list \<times> eterm list \<Rightarrow> bool"
  assumes enqueue_rep: "rep s w \<Longrightarrow> \<exists>r s'. enqueue v s = Some (r, s') \<and>
      (r = BEAM_OK \<and> rep s' (spec_enqueue v w) \<or> r = BEAM_ERR_NO_MEMORY \<and> rep s' w)"
    and dequeue_empty: "rep s ([], []) \<Longrightarrow> dequeue s = Some (BEAM_ERR_NOT_FOUND, None, s)"
    and dequeue_rep: "rep s (x # xs, ys) \<Longrightarrow> xs \<noteq> [] \<or> ys = [] \<Longrightarrow>
      \<exists>s'. dequeue s = Some (BEAM_OK, Some x, s') \<and> rep s' (xs, ys)"
    and peek_rep: "rep s w \<Longrightarrow> \<exists>s'. rep s' (spec_peek w) \<and> peek s =
      Some (if snd (spec_peek w) = [] then (BEAM_ERR_NOT_FOUND, None, s')
            else (BEAM_OK, Some (hd (snd (spec_peek w))), s'))"
    and reset_rep: "rep s w \<Longrightarrow> \<exists>s'. reset s = Some s' \<and> rep s' (spec_reset w)"
    and advance_rep: "rep s w \<Longrightarrow> \<exists>s'. advance s = Some s' \<and> rep s' (spec_advance w)"
    and remove_rep: "rep s w \<Longrightarrow> snd w \<noteq> [] \<Longrightarrow>
      \<exists>s'. remove s = Some (BEAM_OK, s') \<and> rep s' (spec_remove w)"
    and remove_none: "rep s w \<Longrightarrow> snd w = [] \<Longrightarrow> remove s = Some (BEAM_ERR_NOT_FOUND, s)"
begin

lemma send_all_rep:
  assumes "rep s (xs, [])"
  shows "\<exists>acc s'. send_all enqueue vs s = Some (acc, s') \<and> rep s' (xs @ acc, []) \<and> subseq acc vs"
  using assms
proof (induction vs arbitrary: s xs)
  case Nil
  then show ?case by simp
next
  case (Cons v vs)
  obtain r s1 where s1: "enqueue v s = Some (r, s1)"
    "r = BEAM_OK \<and> rep s1 (xs @ [v], []) \<or> r = BEAM_ERR_NO_MEMORY \<and> rep s1 (xs, [])"
    using enqueue_rep [OF Cons.prems, of v] by auto
  then consider "r = BEAM_OK" "rep s1 (xs @ [v], [])" | "r = BEAM_ERR_NO_MEMORY" "rep s1 (xs, [])"
    by blast
  then show ?case
  proof cases
    case 1
    with Cons.IH [OF 1(2)] s1(1) show ?thesis by auto
  next
    case 2
    with Cons.IH [OF 2(2)] s1(1) show ?thesis by auto
  qed
qed

lemma receive_all_rep:
  "rep s (xs, []) \<Longrightarrow> \<exists>s'. receive_all dequeue (length xs) s = Some (xs, s') \<and> rep s' ([], [])"
proof (induction xs arbitrary: s)
  case Nil
  then show ?case by simp
next
  case (Cons x xs)
  obtain s1 where "dequeue s = Some (BEAM_OK, Some x, s1)" "rep s1 (xs, [])"
    using dequeue_rep [OF Cons.prems] by blast
  with Cons.IH show ?case by fastforce
qed

lemma fifo:
  assumes "rep s (xs, [])"
  shows "\<exists>acc s1 s2. send_all enqueue vs s = Some (acc, s1) \<and> subseq acc vs \<and>
    receive_all dequeue (length xs + length acc) s1 = Some (xs @ acc, s2) \<and> rep s2 ([], [])"
proof -
  obtain acc s1 where s1: "send_all enqueue vs s = Some (acc, s1)" "rep s1 (xs @ acc, [])" "subseq acc vs"
    using send_all_rep [OF assms] by blast
  with receive_all_rep [OF s1(2)] show ?thesis by auto
qed

lemma advance_n:
  assumes "rep s (xs, ys)" "n \<le> length ys"
  shows "\<exists>s'. iterate advance n s = Some s' \<and> rep s' (xs @ take n ys, drop n ys)"
  using assms
proof (induction n arbitrary: s xs ys)
  case 0
  then show ?case by simp
next
  case (Suc n)
  then obtain y zs where ys: "ys = y # zs" by (cases ys) auto
  obtain s1 where s1: "advance s = Some s1" "rep s1 (xs @ [y], zs)"
    using advance_rep [OF Suc.prems(1)] ys by auto
  with Suc.IH [OF s1(2)] Suc.prems(2) ys show ?case by auto
qed

lemma select_nth:
  assumes "rep s (xs, ys)" "n < length (xs @ ys)"
  shows "\<exists>s1 s2 s3 s4. reset s = Some s1 \<and> iterate advance n s1 = Some s2 \<and>
    peek s2 = Some (BEAM_OK, Some ((xs @ ys) ! n), s3) \<and> remove s3 = Some (BEAM_OK, s4) \<and>
    rep s4 (take n (xs @ ys), drop (Suc n) (xs @ ys))"
proof -
  let ?q = "xs @ ys"
  obtain s1 where s1: "reset s = Some s1" "rep s1 ([], ?q)"
    using reset_rep [OF assms(1)] by auto
  obtain s2 where s2: "iterate advance n s1 = Some s2" "rep s2 (take n ?q, drop n ?q)"
    using advance_n [OF s1(2), of n] assms(2) by auto
  have ne: "drop n ?q = ?q ! n # drop (Suc n) ?q"
    using Cons_nth_drop_Suc [OF assms(2)] by simp
  obtain s3 where s3: "peek s2 = Some (BEAM_OK, Some (?q ! n), s3)" "rep s3 (take n ?q, drop n ?q)"
    using peek_rep [OF s2(2)] unfolding ne by auto
  obtain s4 where "remove s3 = Some (BEAM_OK, s4)" "rep s4 (take n ?q, drop (Suc n) ?q)"
    using remove_rep [OF s3(2)] unfolding ne by auto
  with s1 s2 s3 show ?thesis by blast
qed

text \<open>Past the last message the scan starts again at the first one.\<close>

lemma scan_restarts:
  assumes "rep s (xs, [y])"
  shows "\<exists>s1 s2. advance s = Some s1 \<and> peek s1 = Some (BEAM_OK, Some (hd (xs @ [y])), s2) \<and>
    rep s2 ([], xs @ [y])"
proof -
  obtain s1 where s1: "advance s = Some s1" "rep s1 (xs @ [y], [])"
    using advance_rep [OF assms] by auto
  with peek_rep [OF s1(2)] show ?thesis by auto
qed

end

interpretation mbox: mailbox_contract "beam_mailbox_enqueue p" "beam_mailbox_dequeue p True"
  "beam_mailbox_peek_save p True" "beam_mailbox_reset_save_cursor p" "mailbox_advance_cursor p"
  "beam_mailbox_remove_current p" "\<lambda>m w. mail_abs m (A(p \<mapsto> w))" for p A
proof (unfold_locales, goal_cases)
  case (1 m w v)
  then show ?case using mail_enqueue [OF 1, of p w v] by simp
next
  case (2 m)
  then show ?case by (rule mail_dequeue_empty) simp_all
next
  case (3 m x xs ys)
  then show ?case using mail_dequeue [OF 3(1), of p] by simp
next
  case (4 m w)
  then show ?case using mail_peek [OF 4, of p w] by auto
next
  case (5 m w)
  then show ?case using mail_reset [OF 5, of p w] by simp
next
  case (6 m w)
  then show ?case using mail_advance [OF 6, of p w] by simp
next
  case (7 m w)
  then show ?case using mail_remove [OF 7(1), of p w] by simp
next
  case (8 m w)
  then show ?case using mail_remove_none [OF 8(1), of p w] by simp
qed

subsection \<open>A concrete mailbox\<close>

definition sys_vt :: beam_allocator_i where
  "sys_vt = \<lparr>vt_ctx = 0, vt_alloc = FN_SYS, vt_realloc = FN_SYS, vt_free = FN_SYS\<rparr>"

definition mail_start :: "ptr list \<Rightarrow> mail_machine" where
  "mail_start rs = \<lparr>words = (\<lambda>_. 0), live = [], raw = [], malloc_results = rs, sys_states = Map.empty,
     arenas = Map.empty, msgs = Map.empty, mboxes = Map.empty\<rparr>"

definition mail_demo :: mail_machine where
  "mail_demo = snd (the (beam_mailbox_create (Some sys_vt) (mail_start [4096, 8192, 12288, 16384])))"

lemma vt_ok_sys_vt [simp]: "vt_ok sys_vt m"
  by (simp add: vt_ok_def sys_vt_def)

lemma mail_abs_start: "mail_abs (mail_start rs) Map.empty"
  by (auto simp: mail_abs_def abs_of_def mail_inv_def mail_start_def machine_ok_def arenas_apart_def)

lemma mail_demo_create:
  "beam_mailbox_create (Some sys_vt) (mail_start [4096, 8192, 12288, 16384]) = Some (4096, mail_demo)"
  by (simp add: mail_demo_def mail_start_def sys_vt_def beam_defs)

lemma mail_abs_demo: "mail_abs mail_demo [4096 \<mapsto> ([], [])]"
  using mail_create [OF mail_abs_start vt_ok_sys_vt, of "[4096, 8192, 12288, 16384]"]
  by (simp add: mail_demo_create)

definition mail_demo3 :: mail_machine where
  "mail_demo3 = snd (the (send_all (beam_mailbox_enqueue 4096) [7, 8, 9] mail_demo))"

lemma mail_abs_demo3: "mail_abs mail_demo3 [4096 \<mapsto> ([7, 8, 9], [])]"
proof -
  obtain acc m' where run: "send_all (beam_mailbox_enqueue 4096) [7, 8, 9] mail_demo = Some (acc, m')"
    "mail_abs m' [4096 \<mapsto> (acc, [])]"
    using mbox.send_all_rep [of mail_demo "Map.empty" 4096 "[]" "[7, 8, 9]"] mail_abs_demo by auto
  moreover have "map_option fst (send_all (beam_mailbox_enqueue 4096) [7, 8, 9] mail_demo) = Some [7, 8, 9]"
    by (simp add: mail_demo_def mail_start_def sys_vt_def beam_defs)
  ultimately show ?thesis by (simp add: mail_demo3_def)
qed

definition mail_last :: mail_machine where
  "mail_last = the (do { m1 \<leftarrow> beam_mailbox_reset_save_cursor 4096 mail_demo3;
     iterate (mailbox_advance_cursor 4096) 2 m1 })"

lemma mail_abs_last: "mail_abs mail_last [4096 \<mapsto> ([7, 8], [9])]"
proof -
  obtain m1 where m1: "beam_mailbox_reset_save_cursor 4096 mail_demo3 = Some m1"
    "mail_abs m1 [4096 \<mapsto> ([], [7, 8, 9])]"
    using mail_reset [OF mail_abs_demo3, of 4096] by auto
  then obtain m2 where "iterate (mailbox_advance_cursor 4096) 2 m1 = Some m2"
    "mail_abs m2 [4096 \<mapsto> ([7, 8], [9])]"
    using mbox.advance_n [of m1 "Map.empty" 4096 "[]" "[7, 8, 9]" 2] by (auto simp: numeral_2_eq_2)
  with m1 show ?thesis by (simp add: mail_last_def)
qed

subsection \<open>Properties\<close>

text \<open>
  C4: a send to a mailbox never runs into undefined behaviour. It either appends the message
  behind all others, leaving the save cursor where it is, or reports that no memory was left and
  changes no mailbox.
\<close>

theorem mailbox_enqueue_refines:
  assumes "mail_abs m A" "A p = Some w"
  shows "\<exists>r m'. beam_mailbox_enqueue p v m = Some (r, m') \<and>
    (r = BEAM_OK \<and> mail_abs m' (A(p \<mapsto> spec_enqueue v w)) \<or>
     r = BEAM_ERR_NO_MEMORY \<and> mail_abs m' A)"
  using assms by (rule mail_enqueue)

theorem mailbox_enqueue_refines_witness:
  "\<exists>r m'. beam_mailbox_enqueue 4096 7 mail_demo = Some (r, m') \<and>
    (r = BEAM_OK \<and> mail_abs m' [4096 \<mapsto> ([7], [])] \<or>
     r = BEAM_ERR_NO_MEMORY \<and> mail_abs m' [4096 \<mapsto> ([], [])])"
  using mailbox_enqueue_refines [OF mail_abs_demo, of 4096 "([], [])" 7] by simp

text \<open>
  C2: messages are delivered in the order they were sent. Whatever sends fail for lack of memory,
  receiving from a mailbox whose cursor is unset returns the messages it held followed by those
  that were accepted, and leaves it empty.
\<close>

theorem mailbox_fifo:
  assumes "mail_abs m A" "A p = Some (xs, [])"
  shows "\<exists>acc m1 m2. send_all (beam_mailbox_enqueue p) vs m = Some (acc, m1) \<and> subseq acc vs \<and>
    receive_all (beam_mailbox_dequeue p True) (length xs + length acc) m1 = Some (xs @ acc, m2) \<and>
    mail_abs m2 (A(p \<mapsto> ([], [])))"
  using mbox.fifo [of m A p xs vs] assms by (simp add: fun_upd_idem)

theorem mailbox_fifo_witness:
  "\<exists>acc m1 m2. send_all (beam_mailbox_enqueue 4096) [7, 8] mail_demo = Some (acc, m1) \<and>
    subseq acc [7, 8] \<and> receive_all (beam_mailbox_dequeue 4096 True) (length acc) m1 = Some (acc, m2) \<and>
    mail_abs m2 [4096 \<mapsto> ([], [])]"
  using mailbox_fifo [OF mail_abs_demo, of 4096 "[]" "[7, 8]"] by simp

text \<open>
  C6: selective receive. After a reset and \<open>n\<close> steps of the save cursor the \<open>n\<close>-th message is the
  current one, and removing it takes exactly that message out: the others stay, in their order.
\<close>

theorem mailbox_select_nth:
  assumes "mail_abs m A" "A p = Some (xs, ys)" "n < length (xs @ ys)"
  shows "\<exists>m1 m2 m3 m4. beam_mailbox_reset_save_cursor p m = Some m1 \<and>
    iterate (mailbox_advance_cursor p) n m1 = Some m2 \<and>
    beam_mailbox_peek_save p True m2 = Some (BEAM_OK, Some ((xs @ ys) ! n), m3) \<and>
    beam_mailbox_remove_current p m3 = Some (BEAM_OK, m4) \<and>
    mail_abs m4 (A(p \<mapsto> (take n (xs @ ys), drop (Suc n) (xs @ ys))))"
  using mbox.select_nth [of m A p xs ys n] assms by (simp add: fun_upd_idem)

theorem mailbox_select_nth_witness:
  "\<exists>m1 m2 m3 m4. beam_mailbox_reset_save_cursor 4096 mail_demo3 = Some m1 \<and>
    iterate (mailbox_advance_cursor 4096) 1 m1 = Some m2 \<and>
    beam_mailbox_peek_save 4096 True m2 = Some (BEAM_OK, Some 8, m3) \<and>
    beam_mailbox_remove_current 4096 m3 = Some (BEAM_OK, m4) \<and>
    mail_abs m4 [4096 \<mapsto> ([7], [9])]"
  using mailbox_select_nth [OF mail_abs_demo3, of 4096 "[7, 8, 9]" "[]" 1] by (simp add: numeral_2_eq_2)

text \<open>
  A scan that passes the last message does not report the end of the mailbox. The null cursor
  that \<^verbatim>\<open>BEAM_OP_LOOP_REC_END\<close> leaves behind is also the mark of a scan that has not started,
  so the next peek returns the first message again.
\<close>

theorem mailbox_scan_restarts:
  assumes "mail_abs m A" "A p = Some (xs, [y])"
  shows "\<exists>m1 m2. mailbox_advance_cursor p m = Some m1 \<and>
    beam_mailbox_peek_save p True m1 = Some (BEAM_OK, Some (hd (xs @ [y])), m2) \<and>
    mail_abs m2 (A(p \<mapsto> ([], xs @ [y])))"
  using mbox.scan_restarts [of m A p xs y] assms by (simp add: fun_upd_idem)

theorem mailbox_scan_restarts_witness:
  "\<exists>m1 m2. mailbox_advance_cursor 4096 mail_last = Some m1 \<and>
    beam_mailbox_peek_save 4096 True m1 = Some (BEAM_OK, Some 7, m2) \<and>
    mail_abs m2 [4096 \<mapsto> ([], [7, 8, 9])]"
  using mailbox_scan_restarts [OF mail_abs_last, of 4096 "[7, 8]" 9] by simp

text \<open>
  Destroying a mailbox whose allocator is the system allocator releases the mailbox and every
  queued message, and nothing else; the other mailboxes keep their messages.
\<close>

theorem mailbox_destroy_exact:
  assumes "mail_inv m Q" "mboxes m p = Some mb" "vt_free (mb_alloc mb) = FN_SYS"
  shows "\<exists>m'. beam_mailbox_destroy p m = Some m' \<and> mail_inv m' Q \<and>
    fst ` set (live m') = fst ` set (live m) - insert p (set (nodes (Q p))) \<and>
    abs_of m' Q = (abs_of m Q)(p := None)"
  using mail_destroy [OF assms(1,2)] abs_of_destroyed [OF assms(1,2)] assms(3) by auto

theorem mailbox_destroy_exact_witness:
  "\<exists>m' Q. beam_mailbox_destroy 4096 mail_demo3 = Some m' \<and> mail_inv m' Q \<and>
    fst ` set (live m') = fst ` set (live mail_demo3) - insert 4096 (set (nodes (Q 4096))) \<and>
    abs_of m' Q = (abs_of mail_demo3 Q)(4096 := None)"
proof -
  obtain Q mb where Q: "mail_inv mail_demo3 Q" "mboxes mail_demo3 4096 = Some mb"
    by (rule mail_absE [OF mail_abs_demo3, of 4096 "([7, 8, 9], [])"]) simp_all
  moreover have "vt_free (mb_alloc (the (mboxes mail_demo3 4096))) = FN_SYS"
    by (simp add: mail_demo3_def mail_demo_def mail_start_def sys_vt_def beam_defs)
  ultimately show ?thesis using mailbox_destroy_exact [OF Q] by auto
qed


end
