(* ===== verification/Beam_Terms.thy ===== *)
theory Beam_Terms
  imports Beam_Machine
begin

text \<open>
  Tagged terms, \<^verbatim>\<open>include/beam_core.h\<close>: a term is a 64-bit word whose low bits are
  its tag; tuples, lists and the other boxed terms point to words of a process heap. The type
  tests on boxed terms read the header word, so they can run into undefined behaviour.
\<close>

subsection \<open>Tags\<close>

definition TAG_PRIMARY_HEADER :: eterm where "TAG_PRIMARY_HEADER = 0"
definition TAG_PRIMARY_LIST :: eterm where "TAG_PRIMARY_LIST = 1"
definition TAG_PRIMARY_BOXED :: eterm where "TAG_PRIMARY_BOXED = 2"
definition TAG_PRIMARY_IMMED1 :: eterm where "TAG_PRIMARY_IMMED1 = 3"

definition TAG_IMMED1_SMALL_INT :: eterm where
  "TAG_IMMED1_SMALL_INT = push_bit 2 0 OR TAG_PRIMARY_IMMED1"
definition TAG_IMMED1_PORT :: eterm where
  "TAG_IMMED1_PORT = push_bit 2 1 OR TAG_PRIMARY_IMMED1"
definition TAG_IMMED1_ATOM :: eterm where
  "TAG_IMMED1_ATOM = push_bit 2 2 OR TAG_PRIMARY_IMMED1"
definition TAG_IMMED1_PID :: eterm where
  "TAG_IMMED1_PID = push_bit 2 3 OR TAG_PRIMARY_IMMED1"

definition SUBTAG_TUPLE :: eterm where "SUBTAG_TUPLE = 0"
definition SUBTAG_FLOAT :: eterm where "SUBTAG_FLOAT = 0x04"
definition SUBTAG_POS_BIG :: eterm where "SUBTAG_POS_BIG = 0x08"
definition SUBTAG_NEG_BIG :: eterm where "SUBTAG_NEG_BIG = 0x0C"
definition SUBTAG_REF :: eterm where "SUBTAG_REF = 0x10"
definition SUBTAG_REFC_BINARY :: eterm where "SUBTAG_REFC_BINARY = 0x14"
definition SUBTAG_HEAP_BINARY :: eterm where "SUBTAG_HEAP_BINARY = 0x18"

definition ETERM_NIL :: eterm where
  "ETERM_NIL = push_bit 2 0x0F OR TAG_PRIMARY_IMMED1"
definition ETERM_INVALID :: eterm where "ETERM_INVALID = 0"

lemmas tag_defs =
  TAG_PRIMARY_HEADER_def TAG_PRIMARY_LIST_def TAG_PRIMARY_BOXED_def TAG_PRIMARY_IMMED1_def
  TAG_IMMED1_SMALL_INT_def TAG_IMMED1_PORT_def TAG_IMMED1_ATOM_def TAG_IMMED1_PID_def
  SUBTAG_TUPLE_def SUBTAG_FLOAT_def SUBTAG_POS_BIG_def SUBTAG_NEG_BIG_def SUBTAG_REF_def
  SUBTAG_REFC_BINARY_def SUBTAG_HEAP_BINARY_def ETERM_NIL_def ETERM_INVALID_def

subsection \<open>Immediate terms\<close>

definition beam_is_small_int :: "eterm \<Rightarrow> bool" where
  "beam_is_small_int t \<longleftrightarrow> t AND 0x0F = TAG_IMMED1_SMALL_INT"

definition beam_is_atom :: "eterm \<Rightarrow> bool" where
  "beam_is_atom t \<longleftrightarrow> t AND 0x0F = TAG_IMMED1_ATOM"

definition beam_is_pid :: "eterm \<Rightarrow> bool" where
  "beam_is_pid t \<longleftrightarrow> t AND 0x0F = TAG_IMMED1_PID"

definition beam_is_port :: "eterm \<Rightarrow> bool" where
  "beam_is_port t \<longleftrightarrow> t AND 0x0F = TAG_IMMED1_PORT"

text \<open>An \<open>intptr_t\<close> is a word read as two's complement; the right shift is arithmetic.\<close>

definition make_small_int :: "64 word \<Rightarrow> eterm" where
  "make_small_int val = push_bit 4 val OR TAG_IMMED1_SMALL_INT"

definition eterm_to_small_int :: "eterm \<Rightarrow> 64 word" where
  "eterm_to_small_int t = signed_drop_bit 4 t"

definition beam_is_list :: "eterm \<Rightarrow> bool" where
  "beam_is_list t \<longleftrightarrow> t AND 0x03 = TAG_PRIMARY_LIST"

definition beam_is_nil :: "eterm \<Rightarrow> bool" where
  "beam_is_nil t \<longleftrightarrow> t = ETERM_NIL"

subsection \<open>Boxed terms\<close>

definition term_ptr :: "eterm \<Rightarrow> ptr" where
  "term_ptr t = t AND NOT 0x03"

text \<open>
  The common shape of the type tests: a boxed term whose header word, masked by \<open>0x3F\<close>,
  satisfies a test.
\<close>

definition boxed_test :: "(eterm \<Rightarrow> bool) \<Rightarrow> 'a machine_scheme \<Rightarrow> eterm \<Rightarrow> bool option" where
  "boxed_test P m t =
     (if t AND 0x03 \<noteq> TAG_PRIMARY_BOXED then Some False
      else if term_ptr t = 0 then Some False
      else do { w \<leftarrow> rd m (term_ptr t); Some (P (w AND 0x3F)) })"

definition beam_is_tuple :: "'a machine_scheme \<Rightarrow> eterm \<Rightarrow> bool option" where
  "beam_is_tuple m t = boxed_test (\<lambda>sub. sub = SUBTAG_TUPLE) m t"

definition beam_tuple_arity :: "'a machine_scheme \<Rightarrow> eterm \<Rightarrow> size_t option" where
  "beam_tuple_arity m t = do {
     b \<leftarrow> beam_is_tuple m t;
     if \<not> b then Some 0
     else do { w \<leftarrow> rd m (term_ptr t); Some (drop_bit 6 w) }
   }"

definition beam_tuple_element :: "'a machine_scheme \<Rightarrow> eterm \<Rightarrow> size_t \<Rightarrow> eterm option" where
  "beam_tuple_element m t index = do {
     b \<leftarrow> beam_is_tuple m t;
     if \<not> b then Some 0 else rd m (term_ptr t + 8 * (index + 1))
   }"

definition beam_list_head :: "'a machine_scheme \<Rightarrow> eterm \<Rightarrow> eterm option" where
  "beam_list_head m t = (if \<not> beam_is_list t then Some 0 else rd m (term_ptr t))"

definition beam_list_tail :: "'a machine_scheme \<Rightarrow> eterm \<Rightarrow> eterm option" where
  "beam_list_tail m t = (if \<not> beam_is_list t then Some 0 else rd m (term_ptr t + 8))"

definition beam_is_float :: "'a machine_scheme \<Rightarrow> eterm \<Rightarrow> bool option" where
  "beam_is_float m t = boxed_test (\<lambda>sub. sub = SUBTAG_FLOAT) m t"

definition beam_is_big_int :: "'a machine_scheme \<Rightarrow> eterm \<Rightarrow> bool option" where
  "beam_is_big_int m t = boxed_test (\<lambda>sub. sub = SUBTAG_POS_BIG \<or> sub = SUBTAG_NEG_BIG) m t"

definition beam_is_ref :: "'a machine_scheme \<Rightarrow> eterm \<Rightarrow> bool option" where
  "beam_is_ref m t = boxed_test (\<lambda>sub. sub = SUBTAG_REF) m t"

definition beam_is_binary :: "'a machine_scheme \<Rightarrow> eterm \<Rightarrow> bool option" where
  "beam_is_binary m t = boxed_test (\<lambda>sub. sub = SUBTAG_REFC_BINARY \<or> sub = SUBTAG_HEAP_BINARY) m t"

lemmas term_defs =
  beam_is_small_int_def beam_is_atom_def beam_is_pid_def beam_is_port_def make_small_int_def
  eterm_to_small_int_def beam_is_list_def beam_is_nil_def term_ptr_def boxed_test_def
  beam_is_tuple_def beam_tuple_arity_def beam_tuple_element_def beam_list_head_def
  beam_list_tail_def beam_is_float_def beam_is_big_int_def beam_is_ref_def beam_is_binary_def

lemmas [beam_defs] = tag_defs term_defs

subsection \<open>Small integers\<close>

lemma tag_values:
  "TAG_IMMED1_SMALL_INT = 3" "TAG_IMMED1_PORT = 7" "TAG_IMMED1_ATOM = 11" "TAG_IMMED1_PID = 15"
  "ETERM_NIL = 63"
  by (simp_all add: tag_defs push_bit_eq_mult)

lemma masks64: "mask 2 = (3 :: 64 word)" "mask 3 = (7 :: 64 word)" "mask 4 = (15 :: 64 word)" "mask 6 = (63 :: 64 word)"
  by (simp_all add: mask_eq_exp_minus_1)

lemma min_59: "min 59 n = (if n < 60 then n else (59 :: nat))"
  by auto

text \<open>
  Boxing and unboxing keep the low 60 bits of an integer, with the sign of bit 59.
\<close>

lemma small_int_wraps: "eterm_to_small_int (make_small_int v) = signed_take_bit 59 v"
proof -
  have "signed_drop_bit 4 (push_bit 4 v OR mask 2) = signed_take_bit 59 v"
    by (rule bit_word_eqI) (auto simp: bit_simps min_59)
  then show ?thesis
    by (simp add: eterm_to_small_int_def make_small_int_def tag_values masks64)
qed

definition small_range :: "64 word \<Rightarrow> bool" where
  "small_range v \<longleftrightarrow> - (2 ^ 59) \<le> sint v \<and> sint v < 2 ^ 59"

lemma sint_signed_take_bit_59: "sint (signed_take_bit 59 (v :: 64 word)) = signed_take_bit 59 (sint v)"
  by (rule bit_eqI) (auto simp: bit_simps min_def)

lemma small_int_roundtrip: 
  assumes "small_range v" shows "eterm_to_small_int (make_small_int v) = v"
proof (rule signed_word_eqI)
  show "sint (eterm_to_small_int (make_small_int v)) = sint v"
    using assms
    by (simp add: small_int_wraps sint_signed_take_bit_59 small_range_def signed_take_bit_int_eq_self)
qed

lemma small_range_eterm_to_small_int: "small_range (eterm_to_small_int t)"
proof -
  have "sint (eterm_to_small_int t) = drop_bit 4 (sint t)"
    by (simp add: eterm_to_small_int_def sint_signed_drop_bit_eq)
  moreover have "- (2 ^ 63) \<le> sint t" "sint t < 2 ^ 63"
    using sint_ge [of t] sint_lt [of t] by simp_all
  ultimately show ?thesis
    by (auto simp: small_range_def drop_bit_eq_div)
qed

lemma make_of_eterm:
  assumes "beam_is_small_int t"
  shows "make_small_int (eterm_to_small_int t) = t"
proof -
  have low: "t AND mask 4 = mask 2"
    using assms by (simp add: beam_is_small_int_def tag_values masks64)
  have "push_bit 4 (signed_drop_bit 4 t) = t AND NOT (mask 4)"
    by (rule bit_word_eqI) (auto simp: bit_simps)
  moreover have "(t AND NOT (mask 4)) OR (t AND mask 4) = t"
    by (rule bit_word_eqI) (auto simp: bit_simps)
  ultimately show ?thesis
    by (simp add: make_small_int_def eterm_to_small_int_def tag_values masks64 [symmetric] low)
qed

lemma and_15_and_3: "(t AND 15) AND 3 = t AND (3 :: 64 word)"
  by (simp add: and.assoc)

lemma is_small_int_make [simp]: "beam_is_small_int (make_small_int v)"
proof -
  have "(push_bit 4 v OR mask 2) AND mask 4 = mask 2"
    by (rule bit_word_eqI) (auto simp: bit_simps)
  then show ?thesis
    by (simp add: beam_is_small_int_def make_small_int_def tag_values masks64)
qed

subsection \<open>Tagged pointers\<close>

lemma aligned8_push: "aligned8 p \<Longrightarrow> p = push_bit 3 (drop_bit 3 p)"
proof -
  assume "aligned8 p"
  then have "p AND mask 3 = 0"
    by (simp add: aligned8_def masks64)
  moreover have "p = (p AND NOT (mask 3)) OR (p AND mask 3)"
    by (rule bit_word_eqI) (auto simp: bit_simps)
  ultimately show ?thesis
    by (simp add: and_not_mask_eq)
qed

lemma tagged_pointer:
  assumes "aligned8 p"
  shows "(p OR 1) AND 3 = 1" "(p OR 2) AND 3 = 2" "(p OR 1) AND NOT 3 = p" "(p OR 2) AND NOT 3 = p"
proof -
  have "(push_bit 3 q OR 1) AND mask 2 = 1" "(push_bit 3 q OR 2) AND mask 2 = 2"
    "(push_bit 3 q OR 1) AND NOT (mask 2) = push_bit 3 q" "(push_bit 3 q OR 2) AND NOT (mask 2) = push_bit 3 q"
    for q :: "64 word"
    by (rule bit_word_eqI; auto simp: bit_simps bit_1_iff bit_2_iff)+
  then show "(p OR 1) AND 3 = 1" "(p OR 2) AND 3 = 2" "(p OR 1) AND NOT 3 = p" "(p OR 2) AND NOT 3 = p"
    using aligned8_push [OF assms] unfolding masks64 by metis+
qed

lemma tuple_reads:
  assumes "aligned8 p" "p \<noteq> 0" "accessible m p"
  shows "beam_is_tuple m (p OR TAG_PRIMARY_BOXED) = Some (words m p AND 0x3F = 0)"
    and "words m p AND 0x3F = 0 \<Longrightarrow>
      beam_tuple_arity m (p OR TAG_PRIMARY_BOXED) = Some (drop_bit 6 (words m p))"
    and "words m p AND 0x3F = 0 \<Longrightarrow>
      beam_tuple_element m (p OR TAG_PRIMARY_BOXED) i = rd m (p + 8 * (i + 1))"
  using assms tagged_pointer [OF assms(1)]
  by (simp_all add: beam_is_tuple_def boxed_test_def beam_tuple_arity_def beam_tuple_element_def
      term_ptr_def tag_defs rd_def)

lemma list_reads:
  assumes "aligned8 p"
  shows "beam_is_list (p OR TAG_PRIMARY_LIST)"
    and "beam_list_head m (p OR TAG_PRIMARY_LIST) = rd m p"
    and "beam_list_tail m (p OR TAG_PRIMARY_LIST) = rd m (p + 8)"
  using tagged_pointer [OF assms]
  by (simp_all add: beam_is_list_def beam_list_head_def beam_list_tail_def term_ptr_def tag_defs)

subsection \<open>Tags exclude each other\<close>

definition term_tags :: "eterm \<Rightarrow> bool list" where
  "term_tags t = [beam_is_small_int t, beam_is_atom t, beam_is_pid t, beam_is_port t,
                  beam_is_list t, t AND 0x03 = TAG_PRIMARY_BOXED, t AND 0x03 = TAG_PRIMARY_HEADER]"

lemma and_3_of_and_15:
  fixes t :: eterm
  assumes "t AND 15 = c"
  shows "t AND 3 = c AND 3"
proof -
  have "t AND 3 = (t AND 15) AND 3"
    by (simp add: and.assoc)
  with assms show ?thesis by simp
qed

lemma low_nibble_cases: "\<exists>k \<in> set [0..<16]. (t :: eterm) AND 15 = of_nat k"
proof
  show "t AND 15 = of_nat (unat (t AND 15))" by simp
  have "unat (t AND mask 4) < 16"
    by (simp add: unat_and_mask)
  then show "unat (t AND 15) \<in> set [0..<16]"
    by (simp add: masks64)
qed

lemma one_tag: "length (filter id (term_tags t)) = 1"
proof -
  obtain k where k: "k \<in> set [0..<16]" "t AND 15 = of_nat k"
    using low_nibble_cases by blast
  note and3 = and_3_of_and_15 [OF k(2)]
  from k(1) have "k \<in> {0, 1, 2, 3, 4, 5, 6, 7, 8, 9, 10, 11, 12, 13, 14, 15}"
    by simp arith
  then show ?thesis
    using k(2) and3
    by (auto simp: term_tags_def beam_is_small_int_def beam_is_atom_def beam_is_pid_def
        beam_is_port_def beam_is_list_def tag_values TAG_PRIMARY_BOXED_def TAG_PRIMARY_LIST_def
        TAG_PRIMARY_HEADER_def)
qed

subsection \<open>Properties\<close>

text \<open>
  Boxing an integer keeps its low 60 bits and the sign of bit 59. The boxed word is recognised as
  a small integer, and unboxing returns the integer itself exactly when it fits into 60 bits.
\<close>

theorem small_int_wraparound:
  "sint (eterm_to_small_int (make_small_int v)) = signed_take_bit 59 (sint v) \<and>
   beam_is_small_int (make_small_int v) \<and> (eterm_to_small_int (make_small_int v) = v) = small_range v"
  using small_int_roundtrip small_range_eterm_to_small_int [of "make_small_int v"]
  by (auto simp: small_int_wraps sint_signed_take_bit_59)

text \<open>
  C35: the low bits of a word decide its kind: of the tests for small integers, ports, atoms, process
  identifiers, lists, boxed terms and headers exactly one succeeds. The empty list is no exception:
  its tag bits are those of a process identifier.
\<close>

theorem tags_exclusive: "length (filter id (term_tags t)) = 1 \<and> beam_is_pid ETERM_NIL"
  using one_tag by (simp add: beam_defs)

end
