(* ===== verification/Beam_Process.thy ===== *)
theory Beam_Process
  imports Mailbox_Refinement Beam_Terms
begin

text \<open>
  Processes, \<^verbatim>\<open>src/scheduler/erl_process.c\<close>: the control block with its private heap and the
  stack that grows down from the end of it, the term constructors, and the operations of
  \<^verbatim>\<open>src/messaging/erl_message.c\<close> that reach a mailbox through its process.

  The fields of the control block that no code reads (the unused operand stack of the frame, the
  off-heap payload table, the \<^verbatim>\<open>wide\<close> flag of a catch frame) are left out.
\<close>

subsection \<open>State\<close>

datatype beam_process_state =
    BEAM_PROC_STATE_RUNNABLE
  | BEAM_PROC_STATE_RUNNING
  | BEAM_PROC_STATE_WAITING
  | BEAM_PROC_STATE_SUSPENDED
  | BEAM_PROC_STATE_EXITED

text \<open>A priority is an enumeration value; \<open>BEAM_PRIO_MAX\<close> is 0 and the most urgent.\<close>

type_synonym beam_priority = u32

definition BEAM_PRIO_MAX :: beam_priority where "BEAM_PRIO_MAX = 0"
definition BEAM_PRIO_HIGH :: beam_priority where "BEAM_PRIO_HIGH = 1"
definition BEAM_PRIO_NORMAL :: beam_priority where "BEAM_PRIO_NORMAL = 2"
definition BEAM_PRIO_LOW :: beam_priority where "BEAM_PRIO_LOW = 3"
definition BEAM_NUM_PRIORITIES :: beam_priority where "BEAM_NUM_PRIORITIES = 4"

definition BEAM_DEFAULT_REDUCTIONS :: int where "BEAM_DEFAULT_REDUCTIONS = 4000"
definition BEAM_NUM_X_REGISTERS :: nat where "BEAM_NUM_X_REGISTERS = 256"
definition BEAM_MAX_STACK_WORDS :: int where "BEAM_MAX_STACK_WORDS = 256"
definition BEAM_MAX_CATCH_DEPTH :: nat where "BEAM_MAX_CATCH_DEPTH = 64"

record beam_catch_frame =
  catch_label :: size_t
  catch_stack_top :: size_t
  catch_cp :: u32

record beam_emulator_frame =
  x_regs :: "eterm list"
  sp :: int
  cp :: u32
  frame_ip :: size_t
  catch_ip :: size_t
  catch_sp :: size_t
  catch_stack :: "beam_catch_frame list"
  catch_depth :: nat

record beam_process =
  pid :: u32
  proc_state :: beam_process_state
  priority :: beam_priority
  reductions :: int
  heap :: ptr
  heap_capacity :: size_t
  heap_top :: size_t
  stack_top :: size_t
  mailbox :: ptr
  frame :: beam_emulator_frame
  proc_alloc :: beam_allocator_i

record proc_machine = mail_machine +
  procs :: "ptr \<rightharpoonup> beam_process"

definition sizeof_beam_process :: size_t where "sizeof_beam_process = 5784"

definition put_proc :: "ptr \<Rightarrow> beam_process \<Rightarrow> 'a proc_machine_scheme \<Rightarrow> 'a proc_machine_scheme" where
  "put_proc p pr m = m\<lparr>procs := (procs m)(p \<mapsto> pr)\<rparr>"

text \<open>The frame after \<^verbatim>\<open>memset\<close> and the assignments of the constructor.\<close>

definition initial_frame :: beam_emulator_frame where
  "initial_frame = \<lparr>x_regs = replicate BEAM_NUM_X_REGISTERS 0, sp = BEAM_MAX_STACK_WORDS, cp = 0,
     frame_ip = 0, catch_ip = 0, catch_sp = 0,
     catch_stack = replicate BEAM_MAX_CATCH_DEPTH \<lparr>catch_label = 0, catch_stack_top = 0, catch_cp = 0\<rparr>,
     catch_depth = 0\<rparr>"

subsection \<open>Creation and destruction\<close>

definition beam_process_create ::
    "u32 \<Rightarrow> size_t \<Rightarrow> beam_allocator_i option \<Rightarrow> 'a proc_machine_scheme \<Rightarrow>
     (ptr \<times> 'a proc_machine_scheme) option" where
  "beam_process_create new_pid initial_heap_words al m =
     (if \<not> alloc_arg_ok al then Some (0, m)
      else do {
        let vt = the al;
        (proc, m1) \<leftarrow> call_alloc vt sizeof_beam_process m;
        if proc = 0 then Some (0, m1)
        else do {
          let cap = (if initial_heap_words > 0 then initial_heap_words else 256);
          (hp, m2) \<leftarrow> call_alloc vt (8 * cap) m1;
          if hp = 0 then do {
            m3 \<leftarrow> call_free vt proc m2;
            Some (0, m3)
          } else do {
            (mbox, m3) \<leftarrow> beam_mailbox_create (Some vt) m2;
            if mbox = 0 then do {
              m4 \<leftarrow> call_free vt hp m3;
              m5 \<leftarrow> call_free vt proc m4;
              Some (0, m5)
            } else
              Some (proc, put_proc proc
                \<lparr>pid = new_pid, proc_state = BEAM_PROC_STATE_RUNNABLE, priority = BEAM_PRIO_NORMAL,
                 reductions = BEAM_DEFAULT_REDUCTIONS, heap = hp, heap_capacity = cap,
                 heap_top = 0, stack_top = cap, mailbox = mbox, frame = initial_frame,
                 proc_alloc = vt\<rparr> m3)
          }
        }
      })"

definition beam_process_destroy ::
    "ptr \<Rightarrow> 'a proc_machine_scheme \<Rightarrow> 'a proc_machine_scheme option" where
  "beam_process_destroy proc m =
     (if proc = 0 then Some m
      else do {
        pr \<leftarrow> procs m proc;
        m1 \<leftarrow> (if mailbox pr \<noteq> 0 then beam_mailbox_destroy (mailbox pr) m else Some m);
        m2 \<leftarrow> (if heap pr \<noteq> 0 then call_free (proc_alloc pr) (heap pr) m1 else Some m1);
        m3 \<leftarrow> call_free (proc_alloc pr) proc m2;
        Some (m3\<lparr>procs := (procs m3)(proc := None)\<rparr>)
      })"

subsection \<open>Accessors\<close>

text \<open>A null process gives the default; a process that is not in the store is dangling.\<close>

definition proc_get :: "'b \<Rightarrow> (beam_process \<Rightarrow> 'b) \<Rightarrow> ptr \<Rightarrow> 'a proc_machine_scheme \<Rightarrow> 'b option" where
  "proc_get d f proc m = (if proc = 0 then Some d else map_option f (procs m proc))"

definition proc_set ::
    "(beam_process \<Rightarrow> beam_process) \<Rightarrow> ptr \<Rightarrow> 'a proc_machine_scheme \<Rightarrow> 'a proc_machine_scheme option" where
  "proc_set f proc m =
     (if proc = 0 then Some m else do { pr \<leftarrow> procs m proc; Some (put_proc proc (f pr) m) })"

definition beam_process_get_pid :: "ptr \<Rightarrow> 'a proc_machine_scheme \<Rightarrow> u32 option" where
  "beam_process_get_pid = proc_get 0 pid"

definition beam_process_get_state :: "ptr \<Rightarrow> 'a proc_machine_scheme \<Rightarrow> beam_process_state option" where
  "beam_process_get_state = proc_get BEAM_PROC_STATE_EXITED proc_state"

definition beam_process_set_state ::
    "ptr \<Rightarrow> beam_process_state \<Rightarrow> 'a proc_machine_scheme \<Rightarrow> 'a proc_machine_scheme option" where
  "beam_process_set_state proc st = proc_set (\<lambda>pr. pr\<lparr>proc_state := st\<rparr>) proc"

definition beam_process_get_reductions :: "ptr \<Rightarrow> 'a proc_machine_scheme \<Rightarrow> int option" where
  "beam_process_get_reductions = proc_get 0 reductions"

definition beam_process_set_reductions ::
    "ptr \<Rightarrow> int \<Rightarrow> 'a proc_machine_scheme \<Rightarrow> 'a proc_machine_scheme option" where
  "beam_process_set_reductions proc n = proc_set (\<lambda>pr. pr\<lparr>reductions := n\<rparr>) proc"

text \<open>The counter is a C \<open>int\<close>: leaving its range is undefined behaviour.\<close>

definition beam_process_consume_reductions ::
    "ptr \<Rightarrow> int \<Rightarrow> 'a proc_machine_scheme \<Rightarrow> 'a proc_machine_scheme option" where
  "beam_process_consume_reductions proc n m =
     (if proc = 0 then Some m
      else do {
        pr \<leftarrow> procs m proc;
        let r = reductions pr - n;
        if - (2 ^ 31) \<le> r \<and> r < 2 ^ 31 then Some (put_proc proc (pr\<lparr>reductions := r\<rparr>) m) else None
      })"

definition beam_process_get_priority :: "ptr \<Rightarrow> 'a proc_machine_scheme \<Rightarrow> beam_priority option" where
  "beam_process_get_priority = proc_get BEAM_PRIO_NORMAL priority"

definition beam_process_set_priority ::
    "ptr \<Rightarrow> beam_priority \<Rightarrow> 'a proc_machine_scheme \<Rightarrow> 'a proc_machine_scheme option" where
  "beam_process_set_priority proc prio = proc_set (\<lambda>pr. pr\<lparr>priority := prio\<rparr>) proc"

definition beam_process_reset_reductions ::
    "ptr \<Rightarrow> 'a proc_machine_scheme \<Rightarrow> 'a proc_machine_scheme option" where
  "beam_process_reset_reductions = proc_set (\<lambda>pr. pr\<lparr>reductions := BEAM_DEFAULT_REDUCTIONS\<rparr>)"

definition beam_process_get_mailbox :: "ptr \<Rightarrow> 'a proc_machine_scheme \<Rightarrow> ptr option" where
  "beam_process_get_mailbox = proc_get 0 mailbox"

definition beam_process_heap_used :: "ptr \<Rightarrow> 'a proc_machine_scheme \<Rightarrow> size_t option" where
  "beam_process_heap_used = proc_get 0 heap_top"

definition beam_process_heap_capacity :: "ptr \<Rightarrow> 'a proc_machine_scheme \<Rightarrow> size_t option" where
  "beam_process_heap_capacity = proc_get 0 heap_capacity"

subsection \<open>Heap and term constructors\<close>

definition beam_process_alloc_heap ::
    "ptr \<Rightarrow> size_t \<Rightarrow> 'a proc_machine_scheme \<Rightarrow> (ptr \<times> 'a proc_machine_scheme) option" where
  "beam_process_alloc_heap proc needed_words m =
     (if proc = 0 then Some (0, m)
      else do {
        pr \<leftarrow> procs m proc;
        (new_heap, cap, m1) \<leftarrow>
          (if heap_top pr + needed_words > heap_capacity pr then do {
             let new_cap = heap_capacity pr * 2 + needed_words;
             (h, m1) \<leftarrow> call_realloc (proc_alloc pr) (heap pr) (8 * new_cap) m;
             Some (h, new_cap, m1)
           } else Some (heap pr, heap_capacity pr, m));
        if heap_top pr + needed_words > heap_capacity pr \<and> new_heap = 0 then Some (0, m1)
        else Some (new_heap + 8 * heap_top pr, put_proc proc
          (pr\<lparr>heap := new_heap, heap_capacity := cap, heap_top := heap_top pr + needed_words\<rparr>) m1)
      })"

text \<open>
  The elements are a C array; reading more of it than it holds is undefined behaviour.
\<close>

definition tuple_words :: "size_t \<Rightarrow> eterm list option \<Rightarrow> eterm list option" where
  "tuple_words arity elements =
     (case elements of
        Some es \<Rightarrow> if arity > 0 then (if unat arity \<le> length es then Some (take (unat arity) es) else None)
                   else Some []
      | None \<Rightarrow> Some (replicate (unat arity) 0))"

definition beam_make_tuple ::
    "ptr \<Rightarrow> size_t \<Rightarrow> eterm list option \<Rightarrow> 'a proc_machine_scheme \<Rightarrow>
     (eterm \<times> 'a proc_machine_scheme) option" where
  "beam_make_tuple proc arity elements m =
     (if proc = 0 then Some (0, m)
      else do {
        (hp, m1) \<leftarrow> beam_process_alloc_heap proc (arity + 1) m;
        if hp = 0 then Some (0, m1)
        else do {
          m2 \<leftarrow> wr hp (push_bit 6 arity OR SUBTAG_TUPLE) m1;
          ws \<leftarrow> tuple_words arity elements;
          m3 \<leftarrow> wr_list (hp + 8) ws m2;
          Some (hp OR TAG_PRIMARY_BOXED, m3)
        }
      })"

definition beam_make_list ::
    "ptr \<Rightarrow> eterm \<Rightarrow> eterm \<Rightarrow> 'a proc_machine_scheme \<Rightarrow> (eterm \<times> 'a proc_machine_scheme) option" where
  "beam_make_list proc hd_term tl_term m =
     (if proc = 0 then Some (0, m)
      else do {
        (hp, m1) \<leftarrow> beam_process_alloc_heap proc 2 m;
        if hp = 0 then Some (0, m1)
        else do {
          m2 \<leftarrow> wr hp hd_term m1;
          m3 \<leftarrow> wr (hp + 8) tl_term m2;
          Some (hp OR TAG_PRIMARY_LIST, m3)
        }
      })"

subsection \<open>Stack\<close>

definition beam_process_stack_push ::
    "ptr \<Rightarrow> eterm \<Rightarrow> 'a proc_machine_scheme \<Rightarrow> (beam_result \<times> 'a proc_machine_scheme) option" where
  "beam_process_stack_push proc t m =
     (if proc = 0 then Some (BEAM_ERR_INVALID_ARG, m)
      else do {
        pr \<leftarrow> procs m proc;
        if heap pr = 0 then Some (BEAM_ERR_INVALID_ARG, m)
        else if stack_top pr \<le> heap_top pr then Some (BEAM_ERR_NO_MEMORY, m)
        else do {
          let top = stack_top pr - 1;
          m1 \<leftarrow> wr (heap pr + 8 * top) t (put_proc proc (pr\<lparr>stack_top := top\<rparr>) m);
          Some (BEAM_OK, m1)
        }
      })"

definition beam_process_stack_pop ::
    "ptr \<Rightarrow> bool \<Rightarrow> 'a proc_machine_scheme \<Rightarrow>
     (beam_result \<times> eterm option \<times> 'a proc_machine_scheme) option" where
  "beam_process_stack_pop proc out_term m =
     (if proc = 0 then Some (BEAM_ERR_INVALID_ARG, None, m)
      else do {
        pr \<leftarrow> procs m proc;
        if heap pr = 0 \<or> \<not> out_term then Some (BEAM_ERR_INVALID_ARG, None, m)
        else if stack_top pr \<ge> heap_capacity pr then Some (BEAM_ERR_BADARG, None, m)
        else do {
          t \<leftarrow> rd m (heap pr + 8 * stack_top pr);
          Some (BEAM_OK, Some t, put_proc proc (pr\<lparr>stack_top := stack_top pr + 1\<rparr>) m)
        }
      })"

subsection \<open>Messages of a process\<close>

definition beam_message_send_to_process ::
    "ptr \<Rightarrow> eterm \<Rightarrow> 'a proc_machine_scheme \<Rightarrow> (beam_result \<times> 'a proc_machine_scheme) option" where
  "beam_message_send_to_process receiver msg m = do {
     mbox \<leftarrow> beam_process_get_mailbox receiver m;
     if mbox = 0 then Some (BEAM_ERR_INVALID_ARG, m) else beam_mailbox_enqueue mbox msg m
   }"

definition beam_process_receive_message ::
    "ptr \<Rightarrow> bool \<Rightarrow> 'a proc_machine_scheme \<Rightarrow>
     (beam_result \<times> eterm option \<times> 'a proc_machine_scheme) option" where
  "beam_process_receive_message proc out_msg m = do {
     mbox \<leftarrow> beam_process_get_mailbox proc m;
     if mbox = 0 then Some (BEAM_ERR_INVALID_ARG, None, m) else beam_mailbox_dequeue mbox out_msg m
   }"

definition beam_process_reset_mailbox_cursor ::
    "ptr \<Rightarrow> 'a proc_machine_scheme \<Rightarrow> 'a proc_machine_scheme option" where
  "beam_process_reset_mailbox_cursor proc m = do {
     mbox \<leftarrow> beam_process_get_mailbox proc m;
     if mbox \<noteq> 0 then beam_mailbox_reset_save_cursor mbox m else Some m
   }"

lemmas process_consts =
  BEAM_PRIO_MAX_def BEAM_PRIO_HIGH_def BEAM_PRIO_NORMAL_def BEAM_PRIO_LOW_def
  BEAM_NUM_PRIORITIES_def BEAM_DEFAULT_REDUCTIONS_def BEAM_NUM_X_REGISTERS_def
  BEAM_MAX_STACK_WORDS_def BEAM_MAX_CATCH_DEPTH_def sizeof_beam_process_def

lemmas process_accessors =
  proc_get_def proc_set_def beam_process_get_pid_def beam_process_get_state_def
  beam_process_set_state_def beam_process_get_reductions_def beam_process_set_reductions_def
  beam_process_consume_reductions_def beam_process_get_priority_def beam_process_set_priority_def
  beam_process_reset_reductions_def beam_process_get_mailbox_def beam_process_heap_used_def
  beam_process_heap_capacity_def

lemmas process_defs =
  put_proc_def initial_frame_def beam_process_create_def beam_process_destroy_def
  beam_process_alloc_heap_def tuple_words_def beam_make_tuple_def beam_make_list_def
  beam_process_stack_push_def beam_process_stack_pop_def beam_message_send_to_process_def
  beam_process_receive_message_def beam_process_reset_mailbox_cursor_def

lemmas [beam_defs] = process_consts process_accessors process_defs

subsection \<open>What the operations leave alone\<close>

lemma free_msg_more: "free_msg vt a m = Some m' \<Longrightarrow> mail_machine.more m' = mail_machine.more m"
  by (auto simp: bind_eq_Some_conv free_msg_def dest!: call_free_frame(2) mail_frame(3))

lemma put_more [simp]:
  "mail_machine.more (put_mbox p mb m) = mail_machine.more m" "mail_machine.more (put_msg a n m) = mail_machine.more m"
  by (simp_all add: put_mbox_def put_msg_def)

lemma enqueue_more: "beam_mailbox_enqueue p v m = Some (r, m') \<Longrightarrow> mail_machine.more m' = mail_machine.more m"
  by (auto simp: bind_eq_Some_conv beam_mailbox_enqueue_def Let_def split: if_splits
      dest!: call_alloc_frame(2) mail_frame(3))

lemma peek_more: "beam_mailbox_peek_save p b m = Some (r, v, m') \<Longrightarrow> mail_machine.more m' = mail_machine.more m"
  by (auto simp: bind_eq_Some_conv beam_mailbox_peek_save_def Let_def split: if_splits)

lemma reset_more: "beam_mailbox_reset_save_cursor p m = Some m' \<Longrightarrow> mail_machine.more m' = mail_machine.more m"
  by (auto simp: bind_eq_Some_conv beam_mailbox_reset_save_cursor_def split: if_splits)

lemma advance_more: "mailbox_advance_cursor p m = Some m' \<Longrightarrow> mail_machine.more m' = mail_machine.more m"
  by (auto simp: bind_eq_Some_conv mailbox_advance_cursor_def split: if_splits)

lemma remove_more: "beam_mailbox_remove_current p m = Some (r, m') \<Longrightarrow> mail_machine.more m' = mail_machine.more m"
  by (auto simp: bind_eq_Some_conv beam_mailbox_remove_current_def Let_def split: if_splits dest!: free_msg_more)

lemmas mail_more = enqueue_more peek_more reset_more advance_more remove_more

lemma procs_more: "mail_machine.more m' = mail_machine.more m \<Longrightarrow> procs m' = procs m"
  by (cases m; cases m') simp

lemma machine_more_procs: "machine.more m' = machine.more m \<Longrightarrow> procs m' = procs m"
  using mail_frame(3) procs_more by blast

lemma wr_more: "wr p v m = Some m' \<Longrightarrow> machine.more m' = machine.more m"
  by (auto simp: bind_eq_Some_conv wr_Some_iff)

lemma wr_procs: "wr p v m = Some m' \<Longrightarrow> procs m' = procs m"
  by (auto simp: bind_eq_Some_conv wr_Some_iff)

lemma put_proc_sel [simp]: "procs (put_proc p pr m) = (procs m)(p \<mapsto> pr)"
  by (simp add: put_proc_def)

end
