(* ===== verification/Process_Invariant.thy ===== *)
theory Process_Invariant
  imports Beam_Process
begin

text \<open>
  The invariant of the process table, \<open>proc_inv\<close>: every mailbox represents an abstract mailbox,
  every control block has its registers and catch frames in full, its heap is a live object of the
  capacity it records, its stack pointer lies inside, and no two processes share an object. The
  operations of a mailbox leave the objects of the processes alone (\<open>mail_keeps\<close>).
\<close>

subsection \<open>Well-formed processes\<close>

definition frame_ok :: "beam_process \<Rightarrow> bool" where
  "frame_ok pr \<longleftrightarrow> length (x_regs (frame pr)) = BEAM_NUM_X_REGISTERS \<and>
     length (catch_stack (frame pr)) = BEAM_MAX_CATCH_DEPTH \<and>
     catch_depth (frame pr) \<le> BEAM_MAX_CATCH_DEPTH \<and> stack_top pr \<le> heap_capacity pr \<and>
     (\<forall>i < catch_depth (frame pr). catch_stack_top (catch_stack (frame pr) ! i) \<le> heap_capacity pr)"

definition heap_ok :: "'a machine_scheme \<Rightarrow> beam_process \<Rightarrow> bool" where
  "heap_ok m pr \<longleftrightarrow> heap pr \<noteq> 0 \<and>
     (\<exists>n. (heap pr, n) \<in> set (live m) \<and> 8 * unat (heap_capacity pr) \<le> unat n)"

definition proc_wf :: "'a proc_machine_scheme \<Rightarrow> beam_process \<Rightarrow> bool" where
  "proc_wf m pr \<longleftrightarrow> vt_ok (proc_alloc pr) m \<and> mailbox pr \<in> dom (mboxes m) \<and> heap_ok m pr \<and> frame_ok pr \<and>
     heap pr \<notin> dom (msgs m) \<union> dom (mboxes m) \<union> dom (procs m)"

definition proc_own :: "'a proc_machine_scheme \<Rightarrow> bool" where
  "proc_own m \<longleftrightarrow> dom (procs m) \<subseteq> fst ` set (live m) \<and> 0 \<notin> dom (procs m) \<and>
     dom (procs m) \<inter> (dom (msgs m) \<union> dom (mboxes m)) = {} \<and>
     (\<forall>p pr. procs m p = Some pr \<longrightarrow> proc_wf m pr) \<and>
     (\<forall>p q pr qr. procs m p = Some pr \<longrightarrow> procs m q = Some qr \<longrightarrow> p \<noteq> q \<longrightarrow>
        mailbox pr \<noteq> mailbox qr \<and> heap pr \<noteq> heap qr)"

definition proc_inv :: "'a proc_machine_scheme \<Rightarrow> bool" where
  "proc_inv m \<longleftrightarrow> (\<exists>A. mail_abs m A) \<and> proc_own m"

text \<open>What a mailbox operation leaves alone.\<close>

definition mail_keeps :: "'a mail_machine_scheme \<Rightarrow> 'a mail_machine_scheme \<Rightarrow> bool" where
  "mail_keeps m m' \<longleftrightarrow> mail_machine.more m' = mail_machine.more m \<and> words m' = words m \<and>
     dom (mboxes m') = dom (mboxes m) \<and> (\<forall>vt. vt_ok vt m' = vt_ok vt m) \<and>
     (\<forall>b \<in> set (live m). fst b \<notin> dom (msgs m) \<longrightarrow> b \<in> set (live m')) \<and>
     dom (msgs m') \<inter> (fst ` set (live m) - dom (msgs m)) = {}"

subsection \<open>Mailbox operations\<close>

lemma mail_keepsD:
  assumes "mail_keeps m m'"
  shows "mail_machine.more m' = mail_machine.more m" "words m' = words m"
    "dom (mboxes m') = dom (mboxes m)" "\<And>vt. vt_ok vt m' = vt_ok vt m"
    "\<And>b. b \<in> set (live m) \<Longrightarrow> fst b \<notin> dom (msgs m) \<Longrightarrow> b \<in> set (live m')"
    "\<And>a. a \<in> fst ` set (live m) \<Longrightarrow> a \<notin> dom (msgs m) \<Longrightarrow> a \<notin> dom (msgs m')"
    "\<And>a. a \<in> fst ` set (live m) \<Longrightarrow> a \<notin> dom (msgs m) \<Longrightarrow> a \<in> fst ` set (live m')"
proof -
  note K = assms [unfolded mail_keeps_def]
  show "mail_machine.more m' = mail_machine.more m" "words m' = words m"
    "dom (mboxes m') = dom (mboxes m)" "\<And>vt. vt_ok vt m' = vt_ok vt m"
    "\<And>b. b \<in> set (live m) \<Longrightarrow> fst b \<notin> dom (msgs m) \<Longrightarrow> b \<in> set (live m')"
    "\<And>a. a \<in> fst ` set (live m) \<Longrightarrow> a \<notin> dom (msgs m) \<Longrightarrow> a \<notin> dom (msgs m')"
    using K by (simp_all only: disjoint_iff) blast+
  then show "\<And>a. a \<in> fst ` set (live m) \<Longrightarrow> a \<notin> dom (msgs m) \<Longrightarrow> a \<in> fst ` set (live m')"
    by (metis (no_types, lifting) imageE imageI)
qed

lemma mail_keeps_refl [simp]: "mail_keeps m m"
  by (auto simp: mail_keeps_def)

lemma mail_keeps_put_mbox:
  "mboxes m p = Some mb' \<Longrightarrow> mail_keeps m (put_mbox p mb m)"
  by (auto simp: mail_keeps_def put_mbox_def)

lemma words_put [simp]: "words (put_mbox p mb m) = words m" "words (put_msg a n m) = words m"
  by (simp_all add: put_mbox_def put_msg_def)

lemma enqueue_keeps:
  assumes "mail_abs m A" "A p = Some w" "beam_mailbox_enqueue p v m = Some (r, m')"
  shows "mail_keeps m m'"
proof -
  obtain Q mb where Q: "mail_inv m Q" and mb: "mboxes m p = Some mb"
    using assms(1,2) by (rule mail_absE)
  note D = mail_invD [OF Q mb]
  obtain a m1 where call: "call_alloc (mb_alloc mb) sizeof_beam_message m = Some (a, m1)"
    using vt.alloc_total [OF D(1)] by blast
  note F = mail_fresh [OF Q conjunct2 [OF D(1)] good_sizes(1) call]
  have live: "set (live m) \<subseteq> set (live m1)" "a \<noteq> 0 \<Longrightarrow> a \<notin> fst ` set (live m)"
    using vt.alloc_null [OF D(1) good_sizes(1), of m1] vt.alloc_objs [OF D(1) good_sizes(1) call]
      vt.alloc_fresh(1) [OF D(1) good_sizes(1) call] call
    by (cases "a = 0"; auto)+
  have "live m' = live m1 \<and> (\<forall>vt. vt_ok vt m' = vt_ok vt m1) \<and> words m' = words m1 \<and>
      dom (mboxes m') = dom (mboxes m) \<and> dom (msgs m') \<subseteq> (if a = 0 then {} else {a}) \<union> dom (msgs m)"
    using assms(3) D(4) mb call F(3,4)
    by (auto simp: beam_mailbox_enqueue_def Let_def bind_eq_Some_conv put_mbox_def put_msg_def
        split: if_splits)
  then show ?thesis
    using enqueue_more [OF assms(3)] live F(2) call_alloc_frame(1) [OF call]
    unfolding mail_keeps_def by (simp split: if_splits) blast+
qed

lemma remove_keeps:
  assumes "mail_abs m A" "A p = Some w" "beam_mailbox_remove_current p m = Some (r, m')"
  shows "mail_keeps m m'"
proof -
  obtain Q mb where Q: "mail_inv m Q" "w = mail_view m (Q p)" and mb: "mboxes m p = Some mb"
    using assms(1,2) by (rule mail_absE)
  note D = mail_invD [OF Q(1) mb]
  show ?thesis
  proof (cases "save_cursor mb = 0")
    case True
    with assms(3) mb D(4) show ?thesis by (simp add: beam_mailbox_remove_current_def)
  next
    case False
    let ?a = "save_cursor mb"
    obtain S mb' where S: "free_msg (mb_alloc mb) ?a (m\<lparr>msgs := S, mboxes := (mboxes m)(p \<mapsto> mb')\<rparr>) = Some m'"
      "dom S = dom (msgs m)" "?a \<in> dom (msgs m)"
    proof (cases "save_prev mb = 0")
      case True
      with assms(3) False D(4) mb show thesis
        by (auto simp: beam_mailbox_remove_current_def Let_def bind_eq_Some_conv put_mbox_def
            intro!: that [of _ "msgs m"])
    next
      case prev: False
      with assms(3) False D(4) mb obtain prev tnode mb' where
        "msgs m (save_prev mb) = Some prev" "msgs m ?a = Some tnode"
        "free_msg (mb_alloc mb) ?a (m\<lparr>msgs := (msgs m)(save_prev mb \<mapsto> prev\<lparr>msg_next := msg_next tnode\<rparr>),
          mboxes := (mboxes m)(p \<mapsto> mb')\<rparr>) = Some m'"
        by (auto simp: beam_mailbox_remove_current_def Let_def bind_eq_Some_conv put_mbox_def put_msg_def)
      then show thesis
        by (intro that [of mb' "(msgs m)(save_prev mb \<mapsto> prev\<lparr>msg_next := msg_next tnode\<rparr>)"]) auto
    qed
    define m1 where "m1 = m\<lparr>msgs := S, mboxes := (mboxes m)(p \<mapsto> mb')\<rparr>"
    have m1: "free_msg (mb_alloc mb) ?a m1 = Some m'" "live m1 = live m" "words m1 = words m"
      "dom (mboxes m1) = dom (mboxes m)" "dom (msgs m1) = dom (msgs m)" "?a \<in> dom (msgs m)"
      "\<And>vt. vt_ok vt m1 = vt_ok vt m"
      using S mb by (auto simp: m1_def)
    obtain m2 where m2: "call_free (mb_alloc mb) ?a m1 = Some m2" "m' = m2\<lparr>msgs := (msgs m2)(?a := None)\<rparr>"
      using m1(1) by (auto simp: free_msg_def bind_eq_Some_conv)
    note F = mail_frame [OF call_free_frame(2) [OF m2(1)]] call_free_frame(1,4) [OF m2(1)]
      vt_ok_call_free [OF m2(1)]
    show ?thesis
      unfolding mail_keeps_def
    proof (intro conjI allI ballI impI)
      show "mail_machine.more m' = mail_machine.more m" using remove_more [OF assms(3)] .
      show "b \<in> set (live m')" if "b \<in> set (live m)" "fst b \<notin> dom (msgs m)" for b
      proof -
        have "fst b \<noteq> ?a" using that(2) m1(6) by auto
        with F(5) [of b] that(1) m1(2) m2(2) show ?thesis by simp
      qed
      show "words m' = words m" "dom (mboxes m') = dom (mboxes m)" "vt_ok vt m' = vt_ok vt m" for vt
        using F m1 m2(2) by simp_all
      show "dom (msgs m') \<inter> (vt.bases m - dom (msgs m)) = {}"
        using F(1) m1(5) m2(2) by auto
    qed
  qed
qed


subsection \<open>Updates that keep the invariant\<close>

lemma mail_abs_cong:
  assumes "msgs m' = msgs m" "mboxes m' = mboxes m" "live m' = live m" "raw m' = raw m"
    "arenas m' = arenas m" "dom (sys_states m') = dom (sys_states m)"
  shows "mail_abs m' A = mail_abs m A"
proof -
  have "machine_ok m' = machine_ok m" using assms by (intro machine_ok_cong)
  moreover have "vt_ok vt m' = vt_ok vt m" for vt using assms by (intro vt_ok_cong) simp_all
  ultimately show ?thesis
    using assms by (simp add: mail_abs_def mail_inv_def abs_of_def mail_view_def)
qed

lemma mail_abs_upd [simp]:
  fixes m :: "'a proc_machine_scheme"
  shows "mail_abs (m\<lparr>procs := f\<rparr>) A = mail_abs m A" "mail_abs (m\<lparr>words := w\<rparr>) A = mail_abs m A"
    "mail_abs (put_proc p pr m) A = mail_abs m A"
  by (rule mail_abs_cong; simp add: put_proc_def)+

lemma proc_ownD:
  assumes "proc_own m"
  shows "dom (procs m) \<subseteq> fst ` set (live m)" "0 \<notin> dom (procs m)"
    "dom (procs m) \<inter> (dom (msgs m) \<union> dom (mboxes m)) = {}"
    "\<And>p pr. procs m p = Some pr \<Longrightarrow> proc_wf m pr"
    "\<And>p q pr qr. procs m p = Some pr \<Longrightarrow> procs m q = Some qr \<Longrightarrow> p \<noteq> q \<Longrightarrow>
      mailbox pr \<noteq> mailbox qr \<and> heap pr \<noteq> heap qr"
  using assms unfolding proc_own_def by blast+

lemma proc_ownI:
  assumes "dom (procs m) \<subseteq> fst ` set (live m)" "0 \<notin> dom (procs m)"
    "dom (procs m) \<inter> (dom (msgs m) \<union> dom (mboxes m)) = {}"
    "\<And>p pr. procs m p = Some pr \<Longrightarrow> proc_wf m pr"
    "\<And>p q pr qr. procs m p = Some pr \<Longrightarrow> procs m q = Some qr \<Longrightarrow> p \<noteq> q \<Longrightarrow>
      mailbox pr \<noteq> mailbox qr \<and> heap pr \<noteq> heap qr"
  shows "proc_own m"
  using assms unfolding proc_own_def by blast

lemma proc_own_mail:
  assumes own: "proc_own m" and keeps: "mail_keeps m m'"
  shows "proc_own m'"
proof -
  note K = mail_keepsD [OF keeps] and D = proc_ownD [OF own]
  have procs: "procs m' = procs m" using K(1) by (rule procs_more)
  note bases = K(7,6) and mb = K(3,4)
  show ?thesis
  proof (rule proc_ownI, unfold procs mb)
    have sub: "x \<in> fst ` set (live m)" "x \<notin> dom (msgs m)" if "x \<in> dom (procs m)" for x
      by (rule subsetD [OF D(1) that], use D(3) that in blast)
    show "dom (procs m) \<subseteq> fst ` set (live m')"
      by (rule subsetI) (rule bases(1) [OF sub])
    show "dom (procs m) \<inter> (dom (msgs m') \<union> dom (mboxes m)) = {}"
      using D(3) bases(2) [OF sub] by blast
    fix p pr assume "procs m p = Some pr"
    then have wf: "proc_wf m pr" by (rule D(4))
    then have h: "heap_ok m pr" "heap pr \<notin> dom (msgs m)" by (auto simp: proc_wf_def)
    then have "heap_ok m' pr" using K(5) by (force simp: heap_ok_def)
    moreover have "heap pr \<notin> dom (msgs m')" using h by (intro bases) (force simp: heap_ok_def)+
    ultimately show "proc_wf m' pr" using wf by (simp add: proc_wf_def procs mb)
  qed (use D(2,5) in blast)+
qed

lemma proc_own_put:
  assumes own: "proc_own m" and pr: "procs m p = Some pr"
    and same: "mailbox pr' = mailbox pr" "heap pr' = heap pr" "heap_capacity pr' = heap_capacity pr"
      "proc_alloc pr' = proc_alloc pr" and ok: "frame_ok pr'"
  shows "proc_own (put_proc p pr' m)"
proof -
  note D = proc_ownD [OF own]
  let ?m = "put_proc p pr' m"
  have dom: "dom (procs ?m) = dom (procs m)" using pr by auto
  have rest: "live ?m = live m" "msgs ?m = msgs m" "mboxes ?m = mboxes m"
    by (simp_all add: put_proc_def)
  have vt: "vt_ok vt ?m = vt_ok vt m" for vt
    by (rule vt_ok_cong) (simp_all add: put_proc_def)
  have "proc_wf m pr" using pr by (rule D(4))
  then have wf': "proc_wf ?m pr'"
    using same ok by (simp only: proc_wf_def heap_ok_def vt rest dom simp_thms)
  show ?thesis
  proof (rule proc_ownI, unfold dom rest)
    show "proc_wf ?m x" if "procs ?m q = Some x" for q x
    proof (cases "q = p")
      case False
      with that D(4) have "proc_wf m x" by auto
      then show ?thesis by (simp only: proc_wf_def heap_ok_def vt rest dom simp_thms)
    qed (use that wf' in auto)
    show "mailbox x \<noteq> mailbox y \<and> heap x \<noteq> heap y"
      if "procs ?m q = Some x" "procs ?m r = Some y" "q \<noteq> r" for q r x y
      using that D(5) [OF pr] D(5) [OF _ pr] D(5) same by (auto split: if_splits)
  qed (use D(1-3) in blast)+
qed

lemma proc_own_words [simp]: "proc_own (m\<lparr>words := w\<rparr>) = proc_own m"
proof -
  have "vt_ok vt (m\<lparr>words := w\<rparr>) = vt_ok vt m" for vt by (rule vt_ok_cong) simp_all
  then show ?thesis by (simp add: proc_own_def proc_wf_def heap_ok_def)
qed

lemma proc_invD:
  assumes "proc_inv m" "procs m p = Some pr"
  shows "vt_ok (proc_alloc pr) m" "heap_ok m pr" "frame_ok pr" "p \<noteq> 0" "mailbox pr \<noteq> 0"
    "\<And>A. mail_abs m A \<Longrightarrow> \<exists>w. A (mailbox pr) = Some w" "machine_ok m"
proof -
  obtain A where A: "mail_abs m A" "proc_own m" using assms(1) by (auto simp: proc_inv_def)
  note D = proc_ownD [OF A(2)]
  have wf: "proc_wf m pr" using assms(2) by (rule D(4))
  then show "vt_ok (proc_alloc pr) m" "heap_ok m pr" "frame_ok pr" by (simp_all add: proc_wf_def)
  show "p \<noteq> 0" using D(2) assms(2) by blast
  have mb: "mailbox pr \<in> dom (mboxes m)" using wf by (simp add: proc_wf_def)
  then show "mailbox pr \<noteq> 0" using A(1) by (auto simp: mail_abs_def mail_inv_def)
  show "\<exists>w. B (mailbox pr) = Some w" if "mail_abs m B" for B
    using that mb by (auto simp: mail_abs_def abs_of_def)
  show "machine_ok m" using A(1) by (auto simp: mail_abs_def mail_inv_def)
qed

lemma proc_inv_put:
  assumes "proc_inv m" "procs m p = Some pr" "mailbox pr' = mailbox pr" "heap pr' = heap pr"
    "heap_capacity pr' = heap_capacity pr" "proc_alloc pr' = proc_alloc pr" "frame_ok pr'"
  shows "proc_inv (put_proc p pr' m)"
  using assms proc_own_put by (auto simp: proc_inv_def)

lemma proc_inv_words [simp]: "proc_inv (m\<lparr>words := w\<rparr>) = proc_inv m"
  by (simp add: proc_inv_def)


subsection \<open>The stack\<close>

lemma heap_slot:
  assumes "machine_ok m" "heap_ok m pr" "k < heap_capacity pr"
  shows "accessible m (heap pr + 8 * k)" "unat (heap pr + 8 * k) = unat (heap pr) + 8 * unat k"
proof -
  obtain n where n: "(heap pr, n) \<in> set (live m)" "8 * unat (heap_capacity pr) \<le> unat n"
    using assms(2) by (auto simp: heap_ok_def)
  have "block_ok (heap pr, n)" using assms(1) n(1) by (auto simp: machine_ok_def)
  then have blk: "aligned8 (heap pr)" "unat (heap pr) + unat n < 2 ^ 63"
    by (auto simp: block_ok_def)
  have k: "8 * unat k + 8 \<le> unat n" using assms(3) n(2) by (simp add: word_less_nat_alt)
  then have k8: "unat (8 * k) = 8 * unat k" using blk(2) by (intro unat_8_mult) simp
  then show addr: "unat (heap pr + 8 * k) = unat (heap pr) + 8 * unat k"
    using k blk(2) by (subst unat_add_no_wrap) simp_all
  show "accessible m (heap pr + 8 * k)"
    using n(1) blk(1) k by (intro accessibleI [OF n(1)]) (simp_all add: aligned8_add addr)
qed

lemma word_pred_le: "h < (s :: 'a::len word) \<Longrightarrow> s \<le> c \<Longrightarrow> s - 1 < s \<and> s - 1 < c"
proof -
  assume hs: "h < s" and sc: "s \<le> c"
  then have "unat s \<noteq> 0" by (metis unat_gt_0 word_gt_0_no word_not_simps(1) not_gr_zero)
  then have "unat (s - 1) = unat s - 1" by (metis unat_minus_one unat_eq_zero)
  with \<open>unat s \<noteq> 0\<close> sc show ?thesis by (auto simp: word_less_nat_alt word_le_nat_alt)
qed

lemma frame_ok_stack: "frame_ok pr \<Longrightarrow> v \<le> heap_capacity pr \<Longrightarrow> frame_ok (pr\<lparr>stack_top := v\<rparr>)"
  by (simp add: frame_ok_def)

lemma push_run:
  assumes "proc_inv m" "procs m p = Some pr"
  shows "beam_process_stack_push p t m =
    Some (if stack_top pr \<le> heap_top pr then (BEAM_ERR_NO_MEMORY, m)
          else (BEAM_OK, (put_proc p (pr\<lparr>stack_top := stack_top pr - 1\<rparr>) m)\<lparr>words :=
                  (words m)(heap pr + 8 * (stack_top pr - 1) := t)\<rparr>))"
proof (cases "stack_top pr \<le> heap_top pr")
  case True
  with proc_invD [OF assms] assms(2) show ?thesis
    by (simp add: beam_process_stack_push_def heap_ok_def)
next
  case False
  note D = proc_invD [OF assms]
  have "stack_top pr - 1 < heap_capacity pr"
    using False D(3) word_pred_le [of "heap_top pr" "stack_top pr"] by (simp add: frame_ok_def)
  then have "accessible m (heap pr + 8 * (stack_top pr - 1))"
    using heap_slot(1) [OF D(7) D(2)] by blast
  with False D(2,4) assms(2) show ?thesis
    by (simp add: beam_process_stack_push_def heap_ok_def wr_def Let_def put_proc_def accessible_def)
qed

lemma pop_run:
  assumes "proc_inv m" "procs m p = Some pr"
  shows "beam_process_stack_pop p True m =
    Some (if heap_capacity pr \<le> stack_top pr then (BEAM_ERR_BADARG, None, m)
          else (BEAM_OK, Some (words m (heap pr + 8 * stack_top pr)),
                put_proc p (pr\<lparr>stack_top := stack_top pr + 1\<rparr>) m))"
  using proc_invD [OF assms] assms(2) heap_slot(1) [OF proc_invD(7,2) [OF assms], of "stack_top pr"]
  by (auto simp: beam_process_stack_pop_def heap_ok_def rd_def not_le)

lemma push_inv:
  assumes "proc_inv m" "procs m p = Some pr"
  shows "\<exists>r m'. beam_process_stack_push p t m = Some (r, m') \<and> proc_inv m'"
proof -
  note D = proc_invD [OF assms]
  have "proc_inv (put_proc p (pr\<lparr>stack_top := stack_top pr - 1\<rparr>) m)" if "\<not> stack_top pr \<le> heap_top pr"
    using that D(3) word_pred_le [of "heap_top pr" "stack_top pr" "heap_capacity pr"]
    by (intro proc_inv_put [OF assms]) (auto simp: frame_ok_def not_le)
  with assms show ?thesis by (simp add: push_run [OF assms])
qed

lemma pop_inv:
  assumes "proc_inv m" "procs m p = Some pr"
  shows "\<exists>r v m'. beam_process_stack_pop p True m = Some (r, v, m') \<and> proc_inv m' \<and> (r = BEAM_OK \<longrightarrow> v \<noteq> None)"
proof -
  note D = proc_invD [OF assms]
  have "proc_inv (put_proc p (pr\<lparr>stack_top := stack_top pr + 1\<rparr>) m)" if "\<not> heap_capacity pr \<le> stack_top pr"
    using that D(3) inc_le [of "stack_top pr" "heap_capacity pr"]
    by (intro proc_inv_put [OF assms]) (simp_all add: frame_ok_def)
  with assms(1) show ?thesis by (simp add: pop_run [OF assms])
qed

end
