(* ===== verification/Beam_Bif.thy ===== *)
theory Beam_Bif
  imports Beam_Process
begin

text \<open>
  Built-in functions, \<^verbatim>\<open>src/emulator/beam_bif.c\<close>. The argument array is \<open>None\<close> for a null
  pointer; reading past it is undefined behaviour. The traversal of \<open>bif_length_1\<close> does not end on a
  cyclic list: not returning is \<open>None\<close> as well.
\<close>

definition arg_at :: "eterm list \<Rightarrow> nat \<Rightarrow> eterm option" where
  "arg_at args i = (if i < length args then Some (args ! i) else None)"

definition bif_self_0 ::
    "ptr \<Rightarrow> eterm list option \<Rightarrow> int \<Rightarrow> 'a proc_machine_scheme \<Rightarrow> eterm option" where
  "bif_self_0 proc args arity m =
     (if proc = 0 then Some 0
      else do {
        id \<leftarrow> beam_process_get_pid proc m;
        Some (ucast (push_bit 4 id OR (ucast TAG_IMMED1_PID :: u32)))
      })"

definition bif_add_2 ::
    "ptr \<Rightarrow> eterm list option \<Rightarrow> int \<Rightarrow> 'a proc_machine_scheme \<Rightarrow> eterm option" where
  "bif_add_2 proc args arity m =
     (case args of None \<Rightarrow> Some 0
      | Some as \<Rightarrow> if arity < 2 then Some 0 else do {
          a \<leftarrow> arg_at as 0;
          b \<leftarrow> arg_at as 1;
          Some (make_small_int (eterm_to_small_int a + eterm_to_small_int b))
        })"

definition bif_sub_2 ::
    "ptr \<Rightarrow> eterm list option \<Rightarrow> int \<Rightarrow> 'a proc_machine_scheme \<Rightarrow> eterm option" where
  "bif_sub_2 proc args arity m =
     (case args of None \<Rightarrow> Some 0
      | Some as \<Rightarrow> if arity < 2 then Some 0 else do {
          a \<leftarrow> arg_at as 0;
          b \<leftarrow> arg_at as 1;
          Some (make_small_int (eterm_to_small_int a - eterm_to_small_int b))
        })"

text \<open>The atoms with index 1 and 2 stand for true and false.\<close>

definition bool_atom :: "bool \<Rightarrow> eterm" where
  "bool_atom b = (if b then push_bit 4 1 OR TAG_IMMED1_ATOM else push_bit 4 2 OR TAG_IMMED1_ATOM)"

definition bif_is_atom_1 ::
    "ptr \<Rightarrow> eterm list option \<Rightarrow> int \<Rightarrow> 'a proc_machine_scheme \<Rightarrow> eterm option" where
  "bif_is_atom_1 proc args arity m =
     (case args of None \<Rightarrow> Some 0
      | Some as \<Rightarrow> if arity < 1 then Some 0
                   else do { a \<leftarrow> arg_at as 0; Some (bool_atom (beam_is_atom a)) })"

definition bif_is_tuple_1 ::
    "ptr \<Rightarrow> eterm list option \<Rightarrow> int \<Rightarrow> 'a proc_machine_scheme \<Rightarrow> eterm option" where
  "bif_is_tuple_1 proc args arity m =
     (case args of None \<Rightarrow> Some 0
      | Some as \<Rightarrow> if arity < 1 then Some 0 else do {
          a \<leftarrow> arg_at as 0;
          b \<leftarrow> beam_is_tuple m a;
          Some (bool_atom b)
        })"

partial_function (option) length_loop ::
    "'a proc_machine_scheme \<Rightarrow> eterm \<Rightarrow> size_t \<Rightarrow> size_t option" where
  "length_loop m t len =
     (if beam_is_list t then do { t' \<leftarrow> beam_list_tail m t; length_loop m t' (len + 1) }
      else Some len)"

definition bif_length_1 ::
    "ptr \<Rightarrow> eterm list option \<Rightarrow> int \<Rightarrow> 'a proc_machine_scheme \<Rightarrow> eterm option" where
  "bif_length_1 proc args arity m =
     (case args of None \<Rightarrow> Some 0
      | Some as \<Rightarrow> if arity < 1 then Some 0 else do {
          a \<leftarrow> arg_at as 0;
          n \<leftarrow> length_loop m a 0;
          Some (make_small_int n)
        })"

definition beam_bif_dispatch ::
    "size_t \<Rightarrow> ptr \<Rightarrow> eterm list option \<Rightarrow> int \<Rightarrow> bool \<Rightarrow> 'a proc_machine_scheme \<Rightarrow>
     (beam_result \<times> eterm option) option" where
  "beam_bif_dispatch bif_index proc args arity out_result m =
     (if proc = 0 \<or> \<not> out_result then Some (BEAM_ERR_INVALID_ARG, None)
      else if bif_index = 0 then do { v \<leftarrow> bif_self_0 proc args arity m; Some (BEAM_OK, Some v) }
      else if bif_index = 1 then do { v \<leftarrow> bif_add_2 proc args arity m; Some (BEAM_OK, Some v) }
      else if bif_index = 2 then do { v \<leftarrow> bif_sub_2 proc args arity m; Some (BEAM_OK, Some v) }
      else if bif_index = 3 then do { v \<leftarrow> bif_is_atom_1 proc args arity m; Some (BEAM_OK, Some v) }
      else if bif_index = 4 then do { v \<leftarrow> bif_is_tuple_1 proc args arity m; Some (BEAM_OK, Some v) }
      else if bif_index = 5 then do { v \<leftarrow> bif_length_1 proc args arity m; Some (BEAM_OK, Some v) }
      else Some (BEAM_ERR_NOT_FOUND, None))"

lemmas bif_defs =
  arg_at_def bif_self_0_def bif_add_2_def bif_sub_2_def bool_atom_def bif_is_atom_1_def
  bif_is_tuple_1_def bif_length_1_def beam_bif_dispatch_def

lemmas [beam_defs] = bif_defs length_loop.simps

subsection \<open>Lists on a heap\<close>

text \<open>
  A proper list: cells whose heads are the given terms, ended by a term that is not a list cell.
\<close>

primrec term_list :: "'a machine_scheme \<Rightarrow> eterm \<Rightarrow> eterm list \<Rightarrow> bool" where
  "term_list m t [] \<longleftrightarrow> t = ETERM_NIL"
| "term_list m t (v # vs) \<longleftrightarrow> beam_is_list t \<and> beam_list_head m t = Some v \<and>
     (\<exists>t'. beam_list_tail m t = Some t' \<and> term_list m t' vs)"

lemma not_list_nil [simp]: "\<not> beam_is_list ETERM_NIL"
  by (simp add: beam_is_list_def tag_values TAG_PRIMARY_LIST_def)

lemma length_loop_list:
  "term_list m t vs \<Longrightarrow> length_loop m t n = Some (n + of_nat (length vs))"
  by (induction vs arbitrary: t n) (subst length_loop.simps, auto simp: algebra_simps)+

end
