(* ===== verification/Beam_Emu.thy ===== *)
theory Beam_Emu
  imports Beam_Bif "HOL-Library.Signed_Division"
begin

text \<open>
  The bytecode interpreter, \<^verbatim>\<open>src/emulator/beam_emu.c\<close>: one definition per opcode, the
  dispatch, and the loop. A handler ends its instruction by falling through to the next one
  (\<open>Next\<close>), by setting the instruction pointer (\<open>Goto\<close>, the C \<open>continue\<close>) or by returning from
  the interpreter (\<open>Return\<close>, with the term written through \<^verbatim>\<open>out_result\<close>, if any).

  The loop is a terminating function: every round consumes a reduction of the process.
\<close>

subsection \<open>Instructions\<close>

datatype beam_opcode =
    BEAM_OP_LABEL | BEAM_OP_MOVE | BEAM_OP_ADD | BEAM_OP_SUB | BEAM_OP_MUL | BEAM_OP_INT_DIV
  | BEAM_OP_ALLOCATE | BEAM_OP_DEALLOCATE | BEAM_OP_CALL | BEAM_OP_RETURN | BEAM_OP_SEND
  | BEAM_OP_RECEIVE | BEAM_OP_MATCH_TUPLE | BEAM_OP_GET_TUPLE_ELEMENT | BEAM_OP_TEST_IS_EQ_EXACT
  | BEAM_OP_TEST_IS_NE_EXACT | BEAM_OP_TEST_IS_TUPLE | BEAM_OP_TEST_IS_LIST | BEAM_OP_GET_LIST
  | BEAM_OP_SELECT_VAL | BEAM_OP_CALL_EXT | BEAM_OP_CALL_LAST | BEAM_OP_MAKE_FUN2
  | BEAM_OP_LOOP_REC | BEAM_OP_LOOP_REC_END | BEAM_OP_REMOVE_MESSAGE | BEAM_OP_WAIT
  | BEAM_OP_TRY | BEAM_OP_TRY_CASE | BEAM_OP_CATCH | BEAM_OP_TRY_END | BEAM_OP_RAISE
  | BEAM_OP_TRY_CASE_END | BEAM_OP_HALT

text \<open>The enumerators in the order of their values, which start at 1.\<close>

definition beam_opcodes :: "beam_opcode list" where
  "beam_opcodes =
     [BEAM_OP_LABEL, BEAM_OP_MOVE, BEAM_OP_ADD, BEAM_OP_SUB, BEAM_OP_MUL, BEAM_OP_INT_DIV,
      BEAM_OP_ALLOCATE, BEAM_OP_DEALLOCATE, BEAM_OP_CALL, BEAM_OP_RETURN, BEAM_OP_SEND,
      BEAM_OP_RECEIVE, BEAM_OP_MATCH_TUPLE, BEAM_OP_GET_TUPLE_ELEMENT, BEAM_OP_TEST_IS_EQ_EXACT,
      BEAM_OP_TEST_IS_NE_EXACT, BEAM_OP_TEST_IS_TUPLE, BEAM_OP_TEST_IS_LIST, BEAM_OP_GET_LIST,
      BEAM_OP_SELECT_VAL, BEAM_OP_CALL_EXT, BEAM_OP_CALL_LAST, BEAM_OP_MAKE_FUN2,
      BEAM_OP_LOOP_REC, BEAM_OP_LOOP_REC_END, BEAM_OP_REMOVE_MESSAGE, BEAM_OP_WAIT,
      BEAM_OP_TRY, BEAM_OP_TRY_CASE, BEAM_OP_CATCH, BEAM_OP_TRY_END, BEAM_OP_RAISE,
      BEAM_OP_TRY_CASE_END, BEAM_OP_HALT]"

text \<open>
  The \<open>opcode\<close> field is an integer that the decoder fills from a file, so it need not be the value
  of an enumerator.
\<close>

definition opcode_of :: "u32 \<Rightarrow> beam_opcode option" where
  "opcode_of n =
     (if 1 \<le> unat n \<and> unat n \<le> length beam_opcodes then Some (beam_opcodes ! (unat n - 1)) else None)"

record beam_instruction =
  opcode :: u32
  arg1 :: u32
  arg2 :: u32
  arg3 :: u32
  literal :: eterm
  target_proc :: ptr
  extra_args :: "eterm list option"
  extra_count :: size_t

datatype ctl = Next | Goto size_t | Return beam_result "eterm option"

subsection \<open>Registers and labels\<close>

definition reg_ok :: "u32 \<Rightarrow> bool" where
  "reg_ok r \<longleftrightarrow> unat r < BEAM_NUM_X_REGISTERS"

text \<open>An array access without a guard: outside the 256 registers it is undefined behaviour.\<close>

definition get_x :: "u32 \<Rightarrow> beam_process \<Rightarrow> eterm option" where
  "get_x r pr = arg_at (x_regs (frame pr)) (unat r)"

definition set_x :: "u32 \<Rightarrow> eterm \<Rightarrow> beam_process \<Rightarrow> beam_process option" where
  "set_x r v pr =
     (if unat r < length (x_regs (frame pr))
      then Some (pr\<lparr>frame := (frame pr)\<lparr>x_regs := (x_regs (frame pr))[unat r := v]\<rparr>\<rparr>) else None)"

definition set_cp :: "u32 \<Rightarrow> beam_process \<Rightarrow> beam_process" where
  "set_cp c pr = pr\<lparr>frame := (frame pr)\<lparr>cp := c\<rparr>\<rparr>"

text \<open>\<^verbatim>\<open>JUMP_TO_LABEL\<close>: the first label instruction with the number; without one \<open>ip\<close> stays.\<close>

fun find_label :: "beam_instruction list \<Rightarrow> size_t \<Rightarrow> nat \<Rightarrow> nat option" where
  "find_label [] lbl i = None"
| "find_label (c # cs) lbl i =
     (if opcode_of (opcode c) = Some BEAM_OP_LABEL \<and> ucast (arg1 c) = lbl then Some i
      else find_label cs lbl (i + 1))"

definition jump_to_label :: "beam_instruction list \<Rightarrow> size_t \<Rightarrow> size_t \<Rightarrow> size_t" where
  "jump_to_label code lbl ip = (case find_label code lbl 0 of Some i \<Rightarrow> of_nat i | None \<Rightarrow> ip)"

subsection \<open>Data movement and arithmetic\<close>

text \<open>
  In the handlers below \<open>pr\<close> is the control block of \<open>proc\<close> in the state \<open>m\<close>.
\<close>

definition op_move ::
    "beam_instruction \<Rightarrow> ptr \<Rightarrow> beam_process \<Rightarrow> 'a proc_machine_scheme \<Rightarrow> (ctl \<times> 'a proc_machine_scheme) option" where
  "op_move instr proc pr m =
     (if reg_ok (arg2 instr)
      then do { pr1 \<leftarrow> set_x (arg2 instr) (literal instr) pr; Some (Next, put_proc proc pr1 m) }
      else Some (Next, m))"

text \<open>The common shape of the arithmetic handlers; \<open>f\<close> is \<open>None\<close> on signed overflow.\<close>

definition arith ::
    "(64 word \<Rightarrow> 64 word \<Rightarrow> 64 word option) \<Rightarrow> beam_instruction \<Rightarrow> ptr \<Rightarrow> beam_process \<Rightarrow>
     'a proc_machine_scheme \<Rightarrow> (ctl \<times> 'a proc_machine_scheme) option" where
  "arith f instr proc pr m =
     (if reg_ok (arg1 instr) \<and> reg_ok (arg2 instr) \<and> reg_ok (arg3 instr)
      then do {
        a \<leftarrow> get_x (arg1 instr) pr;
        b \<leftarrow> get_x (arg2 instr) pr;
        v \<leftarrow> f (eterm_to_small_int a) (eterm_to_small_int b);
        pr1 \<leftarrow> set_x (arg3 instr) (make_small_int v) pr;
        Some (Next, put_proc proc pr1 m)
      } else Some (Next, m))"

text \<open>Signed 64-bit arithmetic of C: a result out of range is undefined behaviour.\<close>

definition signed64 :: "int \<Rightarrow> 64 word option" where
  "signed64 k = (if - (2 ^ 63) \<le> k \<and> k < 2 ^ 63 then Some (of_int k) else None)"

definition op_add ::
    "beam_instruction \<Rightarrow> ptr \<Rightarrow> beam_process \<Rightarrow> 'a proc_machine_scheme \<Rightarrow> (ctl \<times> 'a proc_machine_scheme) option" where
  "op_add = arith (\<lambda>a b. signed64 (sint a + sint b))"

definition op_sub ::
    "beam_instruction \<Rightarrow> ptr \<Rightarrow> beam_process \<Rightarrow> 'a proc_machine_scheme \<Rightarrow> (ctl \<times> 'a proc_machine_scheme) option" where
  "op_sub = arith (\<lambda>a b. signed64 (sint a - sint b))"

definition op_mul ::
    "beam_instruction \<Rightarrow> ptr \<Rightarrow> beam_process \<Rightarrow> 'a proc_machine_scheme \<Rightarrow> (ctl \<times> 'a proc_machine_scheme) option" where
  "op_mul = arith (\<lambda>a b. signed64 (sint a * sint b))"

definition op_int_div ::
    "beam_instruction \<Rightarrow> ptr \<Rightarrow> beam_process \<Rightarrow> 'a proc_machine_scheme \<Rightarrow> (ctl \<times> 'a proc_machine_scheme) option" where
  "op_int_div instr proc pr m =
     (if reg_ok (arg1 instr) \<and> reg_ok (arg2 instr) \<and> reg_ok (arg3 instr)
      then do {
        a \<leftarrow> get_x (arg1 instr) pr;
        b \<leftarrow> get_x (arg2 instr) pr;
        if eterm_to_small_int b = 0 then Some (Return BEAM_ERR_BADARG None, m)
        else do {
          v \<leftarrow> signed64 (sint (eterm_to_small_int a) sdiv sint (eterm_to_small_int b));
          pr1 \<leftarrow> set_x (arg3 instr) (make_small_int v) pr;
          Some (Next, put_proc proc pr1 m)
        }
      } else Some (Next, m))"

subsection \<open>Stack frames and calls\<close>

fun push_zeros :: "nat \<Rightarrow> ptr \<Rightarrow> 'a proc_machine_scheme \<Rightarrow> (beam_result \<times> 'a proc_machine_scheme) option" where
  "push_zeros 0 proc m = Some (BEAM_OK, m)"
| "push_zeros (Suc n) proc m = do {
     (r, m1) \<leftarrow> beam_process_stack_push proc 0 m;
     if r \<noteq> BEAM_OK then Some (r, m1) else push_zeros n proc m1
   }"

fun pop_words :: "nat \<Rightarrow> ptr \<Rightarrow> 'a proc_machine_scheme \<Rightarrow> (beam_result \<times> 'a proc_machine_scheme) option" where
  "pop_words 0 proc m = Some (BEAM_OK, m)"
| "pop_words (Suc n) proc m = do {
     (r, t, m1) \<leftarrow> beam_process_stack_pop proc True m;
     if r \<noteq> BEAM_OK then Some (r, m1) else pop_words n proc m1
   }"

definition op_allocate ::
    "beam_instruction \<Rightarrow> ptr \<Rightarrow> beam_process \<Rightarrow> 'a proc_machine_scheme \<Rightarrow> (ctl \<times> 'a proc_machine_scheme) option" where
  "op_allocate instr proc pr m = do {
     (r, m1) \<leftarrow> beam_process_stack_push proc (ucast (cp (frame pr))) m;
     if r \<noteq> BEAM_OK then Some (Return r None, m1)
     else do {
       (r2, m2) \<leftarrow> push_zeros (unat (arg1 instr)) proc m1;
       if r2 \<noteq> BEAM_OK then Some (Return r2 None, m2) else Some (Next, m2)
     }
   }"

text \<open>Pop \<open>n\<close> words, then the saved continuation pointer.\<close>

definition pop_frame ::
    "nat \<Rightarrow> ptr \<Rightarrow> 'a proc_machine_scheme \<Rightarrow> (beam_result \<times> 'a proc_machine_scheme) option" where
  "pop_frame n proc m = do {
     (r, m1) \<leftarrow> pop_words n proc m;
     if r \<noteq> BEAM_OK then Some (r, m1)
     else do {
       (r2, t, m2) \<leftarrow> beam_process_stack_pop proc True m1;
       if r2 \<noteq> BEAM_OK then Some (r2, m2)
       else do {
         pr \<leftarrow> procs m2 proc;
         Some (BEAM_OK, put_proc proc (set_cp (ucast (the t)) pr) m2)
       }
     }
   }"

definition op_deallocate ::
    "beam_instruction \<Rightarrow> ptr \<Rightarrow> 'a proc_machine_scheme \<Rightarrow> (ctl \<times> 'a proc_machine_scheme) option" where
  "op_deallocate instr proc m = do {
     (r, m1) \<leftarrow> pop_frame (unat (arg1 instr)) proc m;
     Some (if r \<noteq> BEAM_OK then Return r None else Next, m1)
   }"

definition op_call ::
    "beam_instruction \<Rightarrow> ptr \<Rightarrow> beam_process \<Rightarrow> size_t \<Rightarrow> 'a proc_machine_scheme \<Rightarrow> (ctl \<times> 'a proc_machine_scheme) option" where
  "op_call instr proc pr ip m =
     Some (Goto (ucast (arg1 instr)), put_proc proc (set_cp (ucast (ip + 1)) pr) m)"

definition op_call_last ::
    "beam_instruction \<Rightarrow> ptr \<Rightarrow> 'a proc_machine_scheme \<Rightarrow> (ctl \<times> 'a proc_machine_scheme) option" where
  "op_call_last instr proc m = do {
     (r, m1) \<leftarrow> pop_frame (unat (arg2 instr)) proc m;
     Some (if r \<noteq> BEAM_OK then Return r None else Goto (ucast (arg1 instr)), m1)
   }"

definition op_return ::
    "beam_process \<Rightarrow> 'a proc_machine_scheme \<Rightarrow> (ctl \<times> 'a proc_machine_scheme) option" where
  "op_return pr m = Some (Goto (ucast (cp (frame pr))), m)"

subsection \<open>Messages\<close>

definition op_send ::
    "beam_instruction \<Rightarrow> beam_process \<Rightarrow> 'a proc_machine_scheme \<Rightarrow> (ctl \<times> 'a proc_machine_scheme) option" where
  "op_send instr pr m =
     (if reg_ok (arg1 instr) \<and> target_proc instr \<noteq> 0
      then do {
        msg \<leftarrow> get_x (arg1 instr) pr;
        (r, m1) \<leftarrow> beam_message_send_to_process (target_proc instr) msg m;
        Some (Next, m1)
      } else Some (Next, m))"

definition op_loop_rec ::
    "beam_instruction \<Rightarrow> ptr \<Rightarrow> beam_process \<Rightarrow> beam_instruction list \<Rightarrow> size_t \<Rightarrow>
     'a proc_machine_scheme \<Rightarrow> (ctl \<times> 'a proc_machine_scheme) option" where
  "op_loop_rec instr proc pr code ip m = do {
     (r, v, m1) \<leftarrow> beam_mailbox_peek_save (mailbox pr) True m;
     if r = BEAM_OK then
       (if reg_ok (arg2 instr)
        then do { pr1 \<leftarrow> set_x (arg2 instr) (the v) pr; Some (Next, put_proc proc pr1 m1) }
        else Some (Next, m1))
     else do {
       m2 \<leftarrow> beam_mailbox_reset_save_cursor (mailbox pr) m1;
       Some (Goto (jump_to_label code (ucast (arg1 instr)) ip), m2)
     }
   }"

definition op_remove_message ::
    "beam_process \<Rightarrow> 'a proc_machine_scheme \<Rightarrow> (ctl \<times> 'a proc_machine_scheme) option" where
  "op_remove_message pr m = do {
     (r, m1) \<leftarrow> beam_mailbox_remove_current (mailbox pr) m;
     Some (Next, m1)
   }"

definition op_loop_rec_end ::
    "beam_instruction \<Rightarrow> beam_process \<Rightarrow> beam_instruction list \<Rightarrow> size_t \<Rightarrow>
     'a proc_machine_scheme \<Rightarrow> (ctl \<times> 'a proc_machine_scheme) option" where
  "op_loop_rec_end instr pr code ip m = do {
     m1 \<leftarrow> mailbox_advance_cursor (mailbox pr) m;
     Some (Goto (jump_to_label code (ucast (arg1 instr)) ip), m1)
   }"

definition op_wait ::
    "ptr \<Rightarrow> beam_process \<Rightarrow> size_t \<Rightarrow> 'a proc_machine_scheme \<Rightarrow> (ctl \<times> 'a proc_machine_scheme) option" where
  "op_wait proc pr ip m = do {
     m1 \<leftarrow> beam_process_set_state proc BEAM_PROC_STATE_WAITING
             (put_proc proc (pr\<lparr>frame := (frame pr)\<lparr>frame_ip := ip\<rparr>\<rparr>) m);
     Some (Return BEAM_OK None, m1)
   }"

subsection \<open>Exceptions\<close>

definition op_try ::
    "beam_instruction \<Rightarrow> ptr \<Rightarrow> beam_process \<Rightarrow> 'a proc_machine_scheme \<Rightarrow> (ctl \<times> 'a proc_machine_scheme) option" where
  "op_try instr proc pr m =
     (let fr = frame pr; d = catch_depth fr in
      if d \<ge> BEAM_MAX_CATCH_DEPTH then Some (Return BEAM_ERR_NO_MEMORY None, m)
      else if d < length (catch_stack fr) then
        Some (Next, put_proc proc (pr\<lparr>frame := fr\<lparr>
          catch_stack := (catch_stack fr)[d := \<lparr>catch_label = ucast (arg1 instr),
            catch_stack_top = stack_top pr, catch_cp = cp fr\<rparr>],
          catch_depth := d + 1, catch_ip := ucast (arg1 instr), catch_sp := stack_top pr\<rparr>\<rparr>) m)
      else None)"

definition op_try_end ::
    "ptr \<Rightarrow> beam_process \<Rightarrow> 'a proc_machine_scheme \<Rightarrow> (ctl \<times> 'a proc_machine_scheme) option" where
  "op_try_end proc pr m =
     (let fr = frame pr; d = catch_depth fr - 1 in
      if catch_depth fr > 0 then
        (if d > 0 \<and> d > length (catch_stack fr) then None
         else let prev = catch_stack fr ! (d - 1) in
           Some (Next, put_proc proc (pr\<lparr>frame := fr\<lparr>catch_depth := d,
             catch_ip := (if d > 0 then catch_label prev else 0),
             catch_sp := (if d > 0 then catch_stack_top prev else 0)\<rparr>\<rparr>) m))
      else Some (Next, m))"

definition op_raise ::
    "beam_instruction \<Rightarrow> ptr \<Rightarrow> beam_process \<Rightarrow> beam_instruction list \<Rightarrow> size_t \<Rightarrow>
     'a proc_machine_scheme \<Rightarrow> (ctl \<times> 'a proc_machine_scheme) option" where
  "op_raise instr proc pr code ip m = do {
     exc \<leftarrow> (if reg_ok (arg1 instr) then get_x (arg1 instr) pr else Some 0);
     let d = catch_depth (frame pr);
     if d = 0 then do {
       m1 \<leftarrow> beam_process_set_state proc BEAM_PROC_STATE_EXITED m;
       Some (Return BEAM_ERR_EXCEPTION None, m1)
     } else if d \<le> length (catch_stack (frame pr)) then do {
       let cf = catch_stack (frame pr) ! (d - 1);
       let pr1 = pr\<lparr>stack_top := catch_stack_top cf, frame := (frame pr)\<lparr>catch_depth := d - 1\<rparr>\<rparr>;
       pr2 \<leftarrow> set_x 0 exc pr1;
       Some (Goto (jump_to_label code (catch_label cf) ip), put_proc proc pr2 m)
     } else None
   }"

subsection \<open>Terms and tests\<close>

definition op_match_tuple ::
    "beam_instruction \<Rightarrow> beam_process \<Rightarrow> 'a proc_machine_scheme \<Rightarrow> (ctl \<times> 'a proc_machine_scheme) option" where
  "op_match_tuple instr pr m =
     (if reg_ok (arg1 instr)
      then do {
        val \<leftarrow> get_x (arg1 instr) pr;
        b \<leftarrow> beam_is_tuple m val;
        if \<not> b then Some (Return BEAM_ERR_BADARG None, m)
        else do {
          n \<leftarrow> beam_tuple_arity m val;
          Some (if n \<noteq> ucast (arg2 instr) then Return BEAM_ERR_BADARG None else Next, m)
        }
      } else Some (Next, m))"

definition op_get_tuple_element ::
    "beam_instruction \<Rightarrow> ptr \<Rightarrow> beam_process \<Rightarrow> 'a proc_machine_scheme \<Rightarrow> (ctl \<times> 'a proc_machine_scheme) option" where
  "op_get_tuple_element instr proc pr m =
     (if reg_ok (arg1 instr) \<and> reg_ok (arg3 instr)
      then do {
        val \<leftarrow> get_x (arg1 instr) pr;
        e \<leftarrow> beam_tuple_element m val (ucast (arg2 instr));
        pr1 \<leftarrow> set_x (arg3 instr) e pr;
        Some (Next, put_proc proc pr1 m)
      } else Some (Next, m))"

definition op_test_is_eq_exact ::
    "beam_instruction \<Rightarrow> beam_process \<Rightarrow> beam_instruction list \<Rightarrow> size_t \<Rightarrow> 'a proc_machine_scheme \<Rightarrow>
     (ctl \<times> 'a proc_machine_scheme) option" where
  "op_test_is_eq_exact instr pr code ip m = do {
     a \<leftarrow> get_x (arg2 instr) pr;
     b \<leftarrow> get_x (arg3 instr) pr;
     Some (if a \<noteq> b then Goto (jump_to_label code (ucast (arg1 instr)) ip) else Next, m)
   }"

definition op_test_is_ne_exact ::
    "beam_instruction \<Rightarrow> beam_process \<Rightarrow> beam_instruction list \<Rightarrow> size_t \<Rightarrow> 'a proc_machine_scheme \<Rightarrow>
     (ctl \<times> 'a proc_machine_scheme) option" where
  "op_test_is_ne_exact instr pr code ip m = do {
     a \<leftarrow> get_x (arg2 instr) pr;
     b \<leftarrow> get_x (arg3 instr) pr;
     Some (if a = b then Goto (jump_to_label code (ucast (arg1 instr)) ip) else Next, m)
   }"

definition op_test_is_tuple ::
    "beam_instruction \<Rightarrow> beam_process \<Rightarrow> beam_instruction list \<Rightarrow> size_t \<Rightarrow> 'a proc_machine_scheme \<Rightarrow>
     (ctl \<times> 'a proc_machine_scheme) option" where
  "op_test_is_tuple instr pr code ip m = do {
     a \<leftarrow> get_x (arg2 instr) pr;
     b \<leftarrow> beam_is_tuple m a;
     Some (if \<not> b then Goto (jump_to_label code (ucast (arg1 instr)) ip) else Next, m)
   }"

definition op_test_is_list ::
    "beam_instruction \<Rightarrow> beam_process \<Rightarrow> beam_instruction list \<Rightarrow> size_t \<Rightarrow> 'a proc_machine_scheme \<Rightarrow>
     (ctl \<times> 'a proc_machine_scheme) option" where
  "op_test_is_list instr pr code ip m = do {
     a \<leftarrow> get_x (arg2 instr) pr;
     Some (if \<not> beam_is_list a \<and> \<not> beam_is_nil a
           then Goto (jump_to_label code (ucast (arg1 instr)) ip) else Next, m)
   }"

definition op_get_list ::
    "beam_instruction \<Rightarrow> ptr \<Rightarrow> beam_process \<Rightarrow> 'a proc_machine_scheme \<Rightarrow> (ctl \<times> 'a proc_machine_scheme) option" where
  "op_get_list instr proc pr m = do {
     l \<leftarrow> get_x (arg1 instr) pr;
     if beam_is_list l then do {
       h \<leftarrow> beam_list_head m l;
       pr1 \<leftarrow> set_x (arg2 instr) h pr;
       t \<leftarrow> beam_list_tail m l;
       pr2 \<leftarrow> set_x (arg3 instr) t pr1;
       Some (Next, put_proc proc pr2 m)
     } else Some (Return BEAM_ERR_BADARG None, m)
   }"

text \<open>
  The jump table is an array of value and label pairs; the loop steps by two up to the count.
  \<open>Some None\<close> is a table without a match.
\<close>

function select_scan ::
    "eterm list \<Rightarrow> nat \<Rightarrow> nat \<Rightarrow> u32 \<Rightarrow> beam_process \<Rightarrow> size_t option option" where
  "select_scan tab n k src pr =
     (if k < n then do {
        v \<leftarrow> get_x src pr;
        w \<leftarrow> arg_at tab k;
        if v = w then do { l \<leftarrow> arg_at tab (k + 1); Some (Some (ucast (ucast l :: u32))) }
        else select_scan tab n (k + 2) src pr
      } else Some None)"
  by pat_completeness auto
termination by (relation "measure (\<lambda>(tab, n, k, src, pr). n - k)") auto

definition op_select_val ::
    "beam_instruction \<Rightarrow> beam_process \<Rightarrow> beam_instruction list \<Rightarrow> size_t \<Rightarrow> 'a proc_machine_scheme \<Rightarrow>
     (ctl \<times> 'a proc_machine_scheme) option" where
  "op_select_val instr pr code ip m = do {
     r \<leftarrow> (case extra_args instr of
             None \<Rightarrow> Some None
           | Some tab \<Rightarrow>
               if extra_count instr \<ge> 2
               then select_scan tab (unat (extra_count instr)) 0 (arg1 instr) pr else Some None);
     Some (Goto (case r of Some l \<Rightarrow> jump_to_label code l ip
                 | None \<Rightarrow> jump_to_label code (ucast (arg2 instr)) ip), m)
   }"

subsection \<open>Built-in functions and closures\<close>

definition op_call_ext ::
    "beam_instruction \<Rightarrow> ptr \<Rightarrow> beam_process \<Rightarrow> 'a proc_machine_scheme \<Rightarrow> (ctl \<times> 'a proc_machine_scheme) option" where
  "op_call_ext instr proc pr m = do {
     (r, v) \<leftarrow> beam_bif_dispatch (ucast (arg1 instr)) proc (Some (x_regs (frame pr)))
                (sint (arg2 instr)) True m;
     if r = BEAM_OK then do { pr1 \<leftarrow> set_x 0 (the v) pr; Some (Next, put_proc proc pr1 m) }
     else Some (Return r None, m)
   }"

fun write_free_vars ::
    "ptr \<Rightarrow> eterm list \<Rightarrow> nat list \<Rightarrow> 'a proc_machine_scheme \<Rightarrow> 'a proc_machine_scheme option" where
  "write_free_vars hp regs [] m = Some m"
| "write_free_vars hp regs (fv # fvs) m = do {
     v \<leftarrow> (if fv < BEAM_NUM_X_REGISTERS then arg_at regs fv else Some 0);
     m1 \<leftarrow> wr (hp + 8 * ucast (2 + of_nat fv :: u32)) v m;
     write_free_vars hp regs fvs m1
   }"

definition op_make_fun2 ::
    "beam_instruction \<Rightarrow> ptr \<Rightarrow> 'a proc_machine_scheme \<Rightarrow> (ctl \<times> 'a proc_machine_scheme) option" where
  "op_make_fun2 instr proc m = do {
     let num_free = arg2 instr;
     (hp, m1) \<leftarrow> beam_process_alloc_heap proc (ucast (num_free + 2)) m;
     if hp = 0 then Some (Return BEAM_ERR_NO_MEMORY None, m1)
     else do {
       m2 \<leftarrow> wr hp (ucast (push_bit 6 (num_free + 1) OR (ucast SUBTAG_TUPLE :: u32))) m1;
       m3 \<leftarrow> wr (hp + 8) (make_small_int (ucast (arg1 instr))) m2;
       pr \<leftarrow> procs m3 proc;
       m4 \<leftarrow> write_free_vars hp (x_regs (frame pr)) [0..<unat num_free] m3;
       if reg_ok (arg3 instr)
       then do { pr1 \<leftarrow> set_x (arg3 instr) (hp OR TAG_PRIMARY_BOXED) pr; Some (Next, put_proc proc pr1 m4) }
       else Some (Next, m4)
     }
   }"

definition op_halt ::
    "ptr \<Rightarrow> beam_process \<Rightarrow> 'a proc_machine_scheme \<Rightarrow> (ctl \<times> 'a proc_machine_scheme) option" where
  "op_halt proc pr m = do {
     v \<leftarrow> get_x 0 pr;
     m1 \<leftarrow> beam_process_set_state proc BEAM_PROC_STATE_EXITED m;
     Some (Return BEAM_ERR_HALT (Some v), m1)
   }"

subsection \<open>Dispatch\<close>

definition exec_instr ::
    "beam_instruction \<Rightarrow> ptr \<Rightarrow> beam_instruction list \<Rightarrow> size_t \<Rightarrow> 'a proc_machine_scheme \<Rightarrow>
     (ctl \<times> 'a proc_machine_scheme) option" where
  "exec_instr instr proc code ip m = do {
     pr \<leftarrow> procs m proc;
     case opcode_of (opcode instr) of
       None \<Rightarrow> Some (Return BEAM_ERR_BADARG None, m)
     | Some oc \<Rightarrow> (case oc of
         BEAM_OP_LABEL \<Rightarrow> Some (Next, m)
       | BEAM_OP_MOVE \<Rightarrow> op_move instr proc pr m
       | BEAM_OP_ADD \<Rightarrow> op_add instr proc pr m
       | BEAM_OP_SUB \<Rightarrow> op_sub instr proc pr m
       | BEAM_OP_MUL \<Rightarrow> op_mul instr proc pr m
       | BEAM_OP_INT_DIV \<Rightarrow> op_int_div instr proc pr m
       | BEAM_OP_ALLOCATE \<Rightarrow> op_allocate instr proc pr m
       | BEAM_OP_DEALLOCATE \<Rightarrow> op_deallocate instr proc m
       | BEAM_OP_CALL \<Rightarrow> op_call instr proc pr ip m
       | BEAM_OP_CALL_LAST \<Rightarrow> op_call_last instr proc m
       | BEAM_OP_RETURN \<Rightarrow> op_return pr m
       | BEAM_OP_SEND \<Rightarrow> op_send instr pr m
       | BEAM_OP_LOOP_REC \<Rightarrow> op_loop_rec instr proc pr code ip m
       | BEAM_OP_REMOVE_MESSAGE \<Rightarrow> op_remove_message pr m
       | BEAM_OP_LOOP_REC_END \<Rightarrow> op_loop_rec_end instr pr code ip m
       | BEAM_OP_WAIT \<Rightarrow> op_wait proc pr ip m
       | BEAM_OP_TRY \<Rightarrow> op_try instr proc pr m
       | BEAM_OP_CATCH \<Rightarrow> op_try instr proc pr m
       | BEAM_OP_TRY_CASE \<Rightarrow> Some (Next, m)
       | BEAM_OP_TRY_CASE_END \<Rightarrow> Some (Next, m)
       | BEAM_OP_TRY_END \<Rightarrow> op_try_end proc pr m
       | BEAM_OP_RAISE \<Rightarrow> op_raise instr proc pr code ip m
       | BEAM_OP_MATCH_TUPLE \<Rightarrow> op_match_tuple instr pr m
       | BEAM_OP_GET_TUPLE_ELEMENT \<Rightarrow> op_get_tuple_element instr proc pr m
       | BEAM_OP_TEST_IS_EQ_EXACT \<Rightarrow> op_test_is_eq_exact instr pr code ip m
       | BEAM_OP_TEST_IS_NE_EXACT \<Rightarrow> op_test_is_ne_exact instr pr code ip m
       | BEAM_OP_TEST_IS_TUPLE \<Rightarrow> op_test_is_tuple instr pr code ip m
       | BEAM_OP_TEST_IS_LIST \<Rightarrow> op_test_is_list instr pr code ip m
       | BEAM_OP_GET_LIST \<Rightarrow> op_get_list instr proc pr m
       | BEAM_OP_SELECT_VAL \<Rightarrow> op_select_val instr pr code ip m
       | BEAM_OP_CALL_EXT \<Rightarrow> op_call_ext instr proc pr m
       | BEAM_OP_MAKE_FUN2 \<Rightarrow> op_make_fun2 instr proc m
       | BEAM_OP_HALT \<Rightarrow> op_halt proc pr m
       | BEAM_OP_RECEIVE \<Rightarrow> Some (Return BEAM_ERR_BADARG None, m))
   }"

definition emu_step ::
    "ptr \<Rightarrow> beam_instruction list \<Rightarrow> size_t \<Rightarrow> 'a proc_machine_scheme \<Rightarrow>
     (ctl \<times> 'a proc_machine_scheme) option" where
  "emu_step proc code ip m = do {
     m1 \<leftarrow> beam_process_consume_reductions proc 1 m;
     r \<leftarrow> beam_process_get_reductions proc m1;
     if r \<le> 0 then do {
       m2 \<leftarrow> beam_process_set_state proc BEAM_PROC_STATE_RUNNABLE m1;
       Some (Return BEAM_OK None, m2)
     } else exec_instr (code ! unat ip) proc code ip m1
   }"

subsection \<open>One instruction changes one process\<close>

text \<open>
  An instruction changes the control block of its own process only. It keeps the identity, the
  reductions and the mailbox of the process, and as long as the interpreter goes on also the saved
  instruction pointer and the state. When it returns, only \<open>BEAM_OP_WAIT\<close> has saved the pointer.
\<close>

definition kept :: "ctl \<Rightarrow> beam_process \<Rightarrow> beam_process \<Rightarrow> bool" where
  "kept c pr pr' \<longleftrightarrow> pid pr' = pid pr \<and> priority pr' = priority pr \<and> reductions pr' = reductions pr \<and>
     mailbox pr' = mailbox pr \<and> proc_alloc pr' = proc_alloc pr \<and>
     (case c of
        Return r v \<Rightarrow> frame_ip (frame pr') = frame_ip (frame pr) \<or> proc_state pr' = BEAM_PROC_STATE_WAITING
      | _ \<Rightarrow> frame_ip (frame pr') = frame_ip (frame pr) \<and> proc_state pr' = proc_state pr)"

definition only_proc :: "ptr \<Rightarrow> ctl \<Rightarrow> 'a proc_machine_scheme \<Rightarrow> 'a proc_machine_scheme \<Rightarrow> bool" where
  "only_proc p c m m' \<longleftrightarrow>
     (\<forall>pr. procs m p = Some pr \<longrightarrow> (\<exists>pr'. procs m' = (procs m)(p \<mapsto> pr') \<and> kept c pr pr'))"

lemma kept_refl [simp]: "kept c pr pr"
  by (simp add: kept_def split: ctl.split)

lemma kept_trans: "kept Next pr pr' \<Longrightarrow> kept c pr' pr'' \<Longrightarrow> kept c pr pr''"
  by (auto simp: kept_def split: ctl.splits)

lemma only_proc_same: "procs m' = procs m \<Longrightarrow> only_proc p c m m'"
  by (auto simp: bind_eq_Some_conv only_proc_def intro!: exI)

lemma only_proc_put:
  "procs m p = Some pr \<Longrightarrow> procs m' = (procs m)(p \<mapsto> pr') \<Longrightarrow> kept c pr pr' \<Longrightarrow> only_proc p c m m'"
  by (auto simp: only_proc_def)

lemma kept_updates [simp]:
  "kept c pr (pr\<lparr>stack_top := v\<rparr>)"
  "kept c pr (pr\<lparr>heap := h, heap_capacity := n, heap_top := k\<rparr>)"
  "kept c pr (pr\<lparr>heap_top := k\<rparr>)" "kept c pr (pr\<lparr>heap_capacity := n, heap_top := k\<rparr>)"
  "frame_ip f = frame_ip (frame pr) \<Longrightarrow> kept c pr (pr\<lparr>frame := f\<rparr>)"
  "frame_ip f = frame_ip (frame pr) \<Longrightarrow> kept c pr (pr\<lparr>stack_top := v, frame := f\<rparr>)"
  "kept (Return r w) pr (pr\<lparr>proc_state := st\<rparr>)"
  "kept (Return r w) pr (pr\<lparr>frame := f, proc_state := BEAM_PROC_STATE_WAITING\<rparr>)"
  by (simp_all add: kept_def split: ctl.split)

lemma only_proc_trans: "only_proc p Next m m1 \<Longrightarrow> only_proc p c m1 m2 \<Longrightarrow> only_proc p c m m2"
  by (fastforce simp: only_proc_def intro: kept_trans)

lemma only_proc_weaken: "only_proc p Next m m' \<Longrightarrow> only_proc p c m m'"
  by (fastforce simp: only_proc_def kept_def split: ctl.splits)

lemma set_x_kept: "set_x r v pr = Some pr' \<Longrightarrow> kept c pr pr'"
  by (auto simp: bind_eq_Some_conv set_x_def kept_def split: if_splits ctl.split)

lemma push_only: "beam_process_stack_push p t m = Some (r, m') \<Longrightarrow> only_proc p c m m'"
  by (auto simp: beam_process_stack_push_def bind_eq_Some_conv Let_def split: if_splits
      dest!: wr_procs intro: only_proc_same only_proc_put)

lemma pop_only: "beam_process_stack_pop p b m = Some (r, v, m') \<Longrightarrow> only_proc p c m m'"
  by (auto simp: beam_process_stack_pop_def bind_eq_Some_conv split: if_splits
      intro: only_proc_same only_proc_put)

lemma push_zeros_only: "push_zeros n p m = Some (r, m') \<Longrightarrow> only_proc p c m m'"
proof (rule only_proc_weaken, induction n arbitrary: m)
  case (Suc n)
  then show ?case
    by (auto simp: bind_eq_Some_conv split: if_splits
        dest!: push_only [where c = Next] intro: only_proc_trans)
qed (simp add: only_proc_same)

lemma pop_words_only: "pop_words n p m = Some (r, m') \<Longrightarrow> only_proc p c m m'"
proof (rule only_proc_weaken, induction n arbitrary: m)
  case (Suc n)
  then show ?case
    by (auto simp: bind_eq_Some_conv split: if_splits
        dest!: pop_only [where c = Next] intro: only_proc_trans)
qed (simp add: only_proc_same)

lemma pop_frame_only: "pop_frame n p m = Some (r, m') \<Longrightarrow> only_proc p c m m'"
proof (rule only_proc_weaken)
  assume run: "pop_frame n p m = Some (r, m')"
  have cp: "only_proc p Next m1 (put_proc p (set_cp v pr) m1)"
    if "procs m1 p = Some pr" for m1 :: "'a proc_machine_scheme" and v pr
    using that by (auto simp: set_cp_def intro: only_proc_put)
  show "only_proc p Next m m'"
    using run
    by (auto simp: pop_frame_def bind_eq_Some_conv split: if_splits
        dest!: pop_words_only [where c = Next] pop_only [where c = Next] intro: only_proc_trans cp)
qed

lemma call_realloc_frame:
  assumes "call_realloc vt p n m = Some (q, m')"
  shows "machine.more m' = machine.more m"
  using assms
  by (auto simp: call_realloc_def sys_realloc_def libc_realloc_def arena_realloc_def arena_alloc_def
      malloc_def next_block_def bind_eq_Some_conv Let_def
      split: alloc_fn.splits if_splits option.splits prod.splits)

lemma alloc_heap_only: "beam_process_alloc_heap p n m = Some (h, m') \<Longrightarrow> only_proc p c m m'"
  by (auto simp: beam_process_alloc_heap_def bind_eq_Some_conv Let_def split: if_splits
      dest!: call_realloc_frame machine_more_procs intro: only_proc_same only_proc_put)

lemma write_free_vars_procs: "write_free_vars hp regs fvs m = Some m' \<Longrightarrow> procs m' = procs m"
  by (induction fvs arbitrary: m) (auto simp: bind_eq_Some_conv dest!: wr_procs)

lemma send_only: "beam_message_send_to_process q v m = Some (r, m') \<Longrightarrow> procs m' = procs m"
  by (auto simp: beam_message_send_to_process_def bind_eq_Some_conv split: if_splits
      dest!: enqueue_more procs_more)

lemma set_state_only:
  "beam_process_set_state p st m = Some m' \<Longrightarrow> only_proc p (Return r w) m m'"
  by (auto simp: beam_process_set_state_def proc_set_def bind_eq_Some_conv split: if_splits
      intro: only_proc_same only_proc_put)

lemmas handler_intros = only_proc_same only_proc_put set_x_kept

lemma arith_only: "procs m p = Some pr \<Longrightarrow> arith f i p pr m = Some (c, m') \<Longrightarrow> only_proc p c m m'"
  by (auto simp: arith_def bind_eq_Some_conv split: if_splits intro: handler_intros)

lemma op_make_fun2_only:
  assumes "op_make_fun2 i p m = Some (c, m')"
  shows "only_proc p c m m'"
proof -
  obtain hp m1 where m1: "beam_process_alloc_heap p (ucast (arg2 i + 2)) m = Some (hp, m1)"
    using assms by (auto simp: op_make_fun2_def bind_eq_Some_conv Let_def)
  have "only_proc p c m1 m'"
    using assms m1
    by (auto simp: op_make_fun2_def bind_eq_Some_conv Let_def split: if_splits
        dest!: wr_procs write_free_vars_procs intro: handler_intros)
  with alloc_heap_only [OF m1] show ?thesis by (rule only_proc_trans)
qed

lemma op_allocate_only: "op_allocate i p pr m = Some (c, m') \<Longrightarrow> only_proc p c m m'"
  by (auto simp: op_allocate_def bind_eq_Some_conv split: if_splits
      dest!: push_only [where c = Next] push_zeros_only [where c = Next] intro: only_proc_trans only_proc_weaken)

lemma op_wait_only:
  "p \<noteq> 0 \<Longrightarrow> procs m p = Some pr \<Longrightarrow> op_wait p pr ip m = Some (c, m') \<Longrightarrow> only_proc p c m m'"
  by (auto simp: op_wait_def bind_eq_Some_conv beam_process_set_state_def proc_set_def split: if_splits
      intro!: only_proc_put)

lemma op_raise_only:
  assumes "procs m p = Some pr" "op_raise i p pr code ip m = Some (c, m')"
  shows "only_proc p c m m'"
proof (cases "catch_depth (frame pr) = 0")
  case True
  with assms show ?thesis
    by (auto simp: op_raise_def bind_eq_Some_conv dest!: set_state_only split: if_splits)
next
  case False
  let ?cf = "catch_stack (frame pr) ! (catch_depth (frame pr) - 1)"
  let ?pr = "pr\<lparr>stack_top := catch_stack_top ?cf, frame := (frame pr)\<lparr>catch_depth := catch_depth (frame pr) - 1\<rparr>\<rparr>"
  obtain exc pr2 where run: "set_x 0 exc ?pr = Some pr2" "m' = put_proc p pr2 m"
    using False assms(2) by (auto simp: op_raise_def bind_eq_Some_conv Let_def split: if_splits)
  have "kept c pr pr2" by (rule kept_trans [OF _ set_x_kept [OF run(1)]]) simp
  with assms(1) run(2) show ?thesis by (auto intro: only_proc_put)
qed

lemma exec_instr_only:
  assumes "exec_instr i p code ip m = Some (c, m')" "p \<noteq> 0"
  shows "only_proc p c m m'"
proof -
  obtain pr where pr: "procs m p = Some pr"
    using assms by (auto simp: exec_instr_def bind_eq_Some_conv)
  note mail = mail_more [THEN procs_more]
  show ?thesis
  proof (cases "opcode_of (opcode i)")
    case None
    with assms pr show ?thesis by (auto simp: exec_instr_def intro: only_proc_same)
  next
    case (Some oc)
    show ?thesis
    proof (cases oc)
      case BEAM_OP_MOVE
      with Some assms pr show ?thesis
        by (auto simp: exec_instr_def op_move_def bind_eq_Some_conv split: if_splits intro: handler_intros)
    next
      case BEAM_OP_INT_DIV
      with Some assms pr show ?thesis
        by (auto simp: exec_instr_def op_int_div_def bind_eq_Some_conv split: if_splits intro: handler_intros)
    next
      case BEAM_OP_ALLOCATE
      with Some assms pr show ?thesis by (auto simp: exec_instr_def dest: op_allocate_only)
    next
      case BEAM_OP_DEALLOCATE
      with Some assms pr show ?thesis
        by (auto simp: exec_instr_def op_deallocate_def bind_eq_Some_conv dest: pop_frame_only)
    next
      case BEAM_OP_CALL_LAST
      with Some assms pr show ?thesis
        by (auto simp: exec_instr_def op_call_last_def bind_eq_Some_conv dest: pop_frame_only)
    next
      case BEAM_OP_CALL
      with Some assms pr show ?thesis
        by (auto simp: exec_instr_def op_call_def set_cp_def intro: only_proc_put)
    next
      case BEAM_OP_SEND
      with Some assms pr show ?thesis
        by (auto simp: exec_instr_def op_send_def bind_eq_Some_conv split: if_splits
            dest!: send_only intro: only_proc_same)
    next
      case BEAM_OP_LOOP_REC
      with Some assms pr show ?thesis
        by (auto simp: exec_instr_def op_loop_rec_def bind_eq_Some_conv split: if_splits
            dest!: mail intro: handler_intros)
    next
      case BEAM_OP_REMOVE_MESSAGE
      with Some assms pr show ?thesis
        by (auto simp: exec_instr_def op_remove_message_def bind_eq_Some_conv dest!: mail intro: only_proc_same)
    next
      case BEAM_OP_LOOP_REC_END
      with Some assms pr show ?thesis
        by (auto simp: exec_instr_def op_loop_rec_end_def bind_eq_Some_conv dest!: mail intro: only_proc_same)
    next
      case BEAM_OP_WAIT
      with Some assms pr show ?thesis by (auto simp: exec_instr_def dest: op_wait_only)
    next
      case BEAM_OP_TRY
      with Some assms pr show ?thesis
        by (auto simp: exec_instr_def op_try_def Let_def split: if_splits intro: handler_intros)
    next
      case BEAM_OP_CATCH
      with Some assms pr show ?thesis
        by (auto simp: exec_instr_def op_try_def Let_def split: if_splits intro: handler_intros)
    next
      case BEAM_OP_TRY_END
      with Some assms pr show ?thesis
        by (auto simp: exec_instr_def op_try_end_def Let_def split: if_splits intro: handler_intros)
    next
      case BEAM_OP_RAISE
      with Some assms pr show ?thesis
        by (auto simp: exec_instr_def dest: op_raise_only)
    next
      case BEAM_OP_GET_LIST
      with Some assms pr show ?thesis
        by (auto simp: exec_instr_def op_get_list_def bind_eq_Some_conv split: if_splits
            intro: only_proc_same only_proc_put kept_trans [OF set_x_kept set_x_kept])
    next
      case BEAM_OP_HALT
      with Some assms pr show ?thesis
        by (auto simp: exec_instr_def op_halt_def bind_eq_Some_conv dest!: set_state_only)
    next
      case BEAM_OP_MAKE_FUN2
      with Some assms pr show ?thesis by (auto simp: exec_instr_def dest: op_make_fun2_only)
    qed (use Some assms pr in \<open>auto simp: exec_instr_def bind_eq_Some_conv op_add_def op_sub_def
        op_mul_def op_return_def op_match_tuple_def op_get_tuple_element_def op_test_is_eq_exact_def
        op_test_is_ne_exact_def op_test_is_tuple_def op_test_is_list_def op_select_val_def
        op_call_ext_def split: if_splits intro: handler_intros dest: arith_only\<close>)
  qed
qed


subsection \<open>The loop\<close>

text \<open>The reductions a process has left bound the rounds of the loop.\<close>

definition red_left :: "ptr \<Rightarrow> 'a proc_machine_scheme \<Rightarrow> nat" where
  "red_left p m = (case procs m p of None \<Rightarrow> 0 | Some pr \<Rightarrow> nat (reductions pr))"

lemma emu_step_procs:
  assumes "emu_step p code ip m = Some (c, m')" "procs m p = Some pr" "p \<noteq> 0"
  shows "\<exists>pr'. procs m' = (procs m)(p \<mapsto> pr') \<and> kept c (pr\<lparr>reductions := reductions pr - 1\<rparr>) pr'"
    and "\<forall>r v. c \<noteq> Return r v \<Longrightarrow> 1 < reductions pr"
proof -
  let ?pr = "pr\<lparr>reductions := reductions pr - 1\<rparr>"
  let ?m = "put_proc p ?pr m"
  have run: "(if reductions pr - 1 \<le> 0 then do {
       m2 \<leftarrow> beam_process_set_state p BEAM_PROC_STATE_RUNNABLE ?m; Some (Return BEAM_OK None, m2) }
     else exec_instr (code ! unat ip) p code ip ?m) = Some (c, m')"
    using assms
    by (auto simp: emu_step_def beam_process_consume_reductions_def beam_process_get_reductions_def
        proc_get_def Let_def bind_eq_Some_conv split: if_splits)
  then have "only_proc p c ?m m'" using assms(3)
    by (auto simp: bind_eq_Some_conv split: if_splits dest: exec_instr_only set_state_only)
  then show "\<exists>pr'. procs m' = (procs m)(p \<mapsto> pr') \<and> kept c ?pr pr'"
    by (auto simp: only_proc_def)
  show "1 < reductions pr" if "\<forall>r v. c \<noteq> Return r v"
    using run that by (auto simp: bind_eq_Some_conv split: if_splits)
qed

lemma emu_step_null: "emu_step 0 code ip m = Some (c, m') \<Longrightarrow> \<exists>r v. c = Return r v"
  by (auto simp: emu_step_def beam_process_consume_reductions_def beam_process_get_reductions_def
      proc_get_def bind_eq_Some_conv)

lemma emu_step_dangling: "procs m p = None \<Longrightarrow> p \<noteq> 0 \<Longrightarrow> emu_step p code ip m = None"
  by (simp add: emu_step_def beam_process_consume_reductions_def)

lemma emu_step_decreases:
  assumes "emu_step p code ip m = Some (c, m')" "\<forall>r v. c \<noteq> Return r v"
  shows "red_left p m' < red_left p m"
proof -
  have p: "p \<noteq> 0" using assms emu_step_null by blast
  with assms(1) emu_step_dangling obtain pr where pr: "procs m p = Some pr" by fastforce
  then show ?thesis
    using emu_step_procs [OF assms(1) pr p] assms(2) by (auto simp: red_left_def kept_def)
qed

function emu_loop ::
    "ptr \<Rightarrow> beam_instruction list \<Rightarrow> size_t \<Rightarrow> 'a proc_machine_scheme \<Rightarrow>
     (beam_result \<times> eterm option \<times> 'a proc_machine_scheme) option" where
  "emu_loop proc code ip m =
     (if unat ip < length code then do {
        (c, m1) \<leftarrow> emu_step proc code ip m;
        case c of
          Next \<Rightarrow> emu_loop proc code (ip + 1) m1
        | Goto i \<Rightarrow> emu_loop proc code i m1
        | Return r v \<Rightarrow> Some (r, v, m1)
      } else do {
        pr \<leftarrow> procs m proc;
        v \<leftarrow> get_x 0 pr;
        Some (BEAM_OK, Some v, put_proc proc (pr\<lparr>frame := (frame pr)\<lparr>frame_ip := ip\<rparr>\<rparr>) m)
      })"
  by pat_completeness auto
termination
  by (relation "measure (\<lambda>(p, code, ip, m). red_left p m)") (auto intro: emu_step_decreases)

declare emu_loop.simps [simp del]

definition beam_emu_execute_code ::
    "ptr \<Rightarrow> beam_instruction list option \<Rightarrow> bool \<Rightarrow> 'a proc_machine_scheme \<Rightarrow>
     (beam_result \<times> eterm option \<times> 'a proc_machine_scheme) option" where
  "beam_emu_execute_code proc code out_result m =
     (if proc = 0 \<or> code = None \<or> code = Some [] then Some (BEAM_ERR_INVALID_ARG, None, m)
      else do {
        pr \<leftarrow> procs m proc;
        let cs = the code;
        let pr1 = (if cp (frame pr) = 0 \<and> frame_ip (frame pr) = 0
                   then set_cp (of_nat (length cs)) pr else pr);
        (r, v, m1) \<leftarrow> emu_loop proc cs (frame_ip (frame pr)) (put_proc proc pr1 m);
        Some (r, if out_result then v else None, m1)
      })"

lemmas emu_defs =
  opcode_of_def beam_opcodes_def reg_ok_def get_x_def set_x_def set_cp_def jump_to_label_def
  op_move_def arith_def signed64_def op_add_def op_sub_def op_mul_def op_int_div_def op_allocate_def
  pop_frame_def op_deallocate_def op_call_def op_call_last_def op_return_def op_send_def
  op_loop_rec_def op_remove_message_def op_loop_rec_end_def op_wait_def op_try_def op_try_end_def
  op_raise_def op_match_tuple_def op_get_tuple_element_def op_test_is_eq_exact_def
  op_test_is_ne_exact_def op_test_is_tuple_def op_test_is_list_def op_get_list_def op_select_val_def
  op_call_ext_def op_make_fun2_def op_halt_def exec_instr_def emu_step_def beam_emu_execute_code_def

lemma emu_loop_run:
  "unat ip < length code \<Longrightarrow> emu_step p code ip m = Some (Next, m1) \<Longrightarrow>
   emu_loop p code ip m = emu_loop p code (ip + 1) m1"
  "unat ip < length code \<Longrightarrow> emu_step p code ip m = Some (Goto i, m1) \<Longrightarrow>
   emu_loop p code ip m = emu_loop p code i m1"
  "unat ip < length code \<Longrightarrow> emu_step p code ip m = Some (Return r v, m1) \<Longrightarrow>
   emu_loop p code ip m = Some (r, v, m1)"
  "unat ip < length code \<Longrightarrow> emu_step p code ip m = None \<Longrightarrow> emu_loop p code ip m = None"
  "\<not> unat ip < length code \<Longrightarrow> procs m p = Some pr \<Longrightarrow> get_x 0 pr = Some w \<Longrightarrow>
   emu_loop p code ip m =
     Some (BEAM_OK, Some w, put_proc p (pr\<lparr>frame := (frame pr)\<lparr>frame_ip := ip\<rparr>\<rparr>) m)"
  by (subst emu_loop.simps, simp)+

lemmas [beam_defs] = emu_defs emu_loop_run

end
