(* ===== verification/Emu_Safety.thy ===== *)
theory Emu_Safety
  imports Process_Invariant Beam_Emu
begin

text \<open>
  Memory safety of the interpreter: code made of instructions that check what they use runs from
  a well-formed state without undefined behaviour and leaves a well-formed state, whatever the
  allocators return.
\<close>

subsection \<open>Instructions without undefined behaviour\<close>

text \<open>
  The instructions that cannot run into undefined behaviour in a well-formed state: those that
  check their registers, the tests when their registers exist, and sends to one of the processes
  \<open>D\<close>. Left out are the instructions that follow a term into the heap, the multiplication (its
  product may overflow) and the closure constructor (it grows the heap).
\<close>

definition safe_instr :: "ptr set \<Rightarrow> beam_instruction \<Rightarrow> bool" where
  "safe_instr D i =
     (case opcode_of (opcode i) of None \<Rightarrow> True
      | Some oc \<Rightarrow> (case oc of
          BEAM_OP_MUL \<Rightarrow> False | BEAM_OP_MATCH_TUPLE \<Rightarrow> False | BEAM_OP_GET_TUPLE_ELEMENT \<Rightarrow> False
        | BEAM_OP_TEST_IS_TUPLE \<Rightarrow> False | BEAM_OP_GET_LIST \<Rightarrow> False | BEAM_OP_MAKE_FUN2 \<Rightarrow> False
        | BEAM_OP_TEST_IS_EQ_EXACT \<Rightarrow> reg_ok (arg2 i) \<and> reg_ok (arg3 i)
        | BEAM_OP_TEST_IS_NE_EXACT \<Rightarrow> reg_ok (arg2 i) \<and> reg_ok (arg3 i)
        | BEAM_OP_TEST_IS_LIST \<Rightarrow> reg_ok (arg2 i)
        | BEAM_OP_SELECT_VAL \<Rightarrow> reg_ok (arg1 i) \<and> even (unat (extra_count i)) \<and>
            (case extra_args i of None \<Rightarrow> True | Some tab \<Rightarrow> unat (extra_count i) \<le> length tab)
        | BEAM_OP_CALL_EXT \<Rightarrow> (ucast (arg1 i) :: size_t) \<notin> {4, 5}
        | BEAM_OP_SEND \<Rightarrow> target_proc i \<in> insert 0 D
        | _ \<Rightarrow> True))"

definition safe_code :: "ptr set \<Rightarrow> beam_instruction list \<Rightarrow> bool" where
  "safe_code D code \<longleftrightarrow> list_all (safe_instr D) code"

definition keeps_inv :: "(ctl \<times> 'a proc_machine_scheme) option \<Rightarrow> bool" where
  "keeps_inv x \<longleftrightarrow> (\<exists>c m'. x = Some (c, m') \<and> proc_inv m')"

lemma only_proc_Some:
  "only_proc p c m m' \<Longrightarrow> procs m p = Some pr \<Longrightarrow> \<exists>pr'. procs m' p = Some pr'"
  by (auto simp: only_proc_def)

lemma push_zeros_inv:
  assumes "proc_inv m" "procs m p = Some pr"
  shows "\<exists>r m'. push_zeros n p m = Some (r, m') \<and> proc_inv m'"
  using assms
proof (induction n arbitrary: m pr)
  case (Suc n)
  obtain r m1 where m1: "beam_process_stack_push p 0 m = Some (r, m1)" "proc_inv m1"
    using push_inv [OF Suc.prems] by blast
  moreover obtain pr1 where "procs m1 p = Some pr1"
    using only_proc_Some [OF push_only [OF m1(1)] Suc.prems(2)] by blast
  ultimately show ?case using Suc.IH [OF m1(2)] by simp
qed simp

lemma pop_words_inv:
  assumes "proc_inv m" "procs m p = Some pr"
  shows "\<exists>r m'. pop_words n p m = Some (r, m') \<and> proc_inv m'"
  using assms
proof (induction n arbitrary: m pr)
  case (Suc n)
  obtain r v m1 where m1: "beam_process_stack_pop p True m = Some (r, v, m1)" "proc_inv m1"
    using pop_inv [OF Suc.prems] by blast
  moreover obtain pr1 where "procs m1 p = Some pr1"
    using only_proc_Some [OF pop_only [OF m1(1)] Suc.prems(2)] by blast
  ultimately show ?case using Suc.IH [OF m1(2)] by simp
qed simp

lemma frame_ok_updates:
  "frame_ok pr \<Longrightarrow> frame_ok (set_cp c pr)"
  "frame_ok pr \<Longrightarrow> set_x r v pr = Some pr' \<Longrightarrow> frame_ok pr'"
  "frame_ok pr \<Longrightarrow> frame_ok (pr\<lparr>frame := (frame pr)\<lparr>frame_ip := i\<rparr>\<rparr>)"
  "frame_ok pr \<Longrightarrow> frame_ok (pr\<lparr>proc_state := st\<rparr>)"
  "frame_ok pr \<Longrightarrow> frame_ok (pr\<lparr>reductions := n\<rparr>)"
  by (auto simp: frame_ok_def set_cp_def set_x_def split: if_splits)

lemma set_x_fields:
  "set_x r v pr = Some pr' \<Longrightarrow> mailbox pr' = mailbox pr \<and> heap pr' = heap pr \<and>
   heap_capacity pr' = heap_capacity pr \<and> proc_alloc pr' = proc_alloc pr"
  by (auto simp: set_x_def split: if_splits)

lemma regs_defined:
  assumes "frame_ok pr" "reg_ok r"
  shows "\<exists>v. get_x r pr = Some v" "\<exists>pr'. set_x r v pr = Some pr'"
  using assms by (auto simp: frame_ok_def reg_ok_def get_x_def set_x_def arg_at_def)

lemma set_x_inv:
  assumes "proc_inv m" "procs m p = Some pr" "set_x r v pr = Some pr'"
  shows "proc_inv (put_proc p pr' m)"
  using assms set_x_fields [OF assms(3)] frame_ok_updates(2) [OF proc_invD(3) [OF assms(1,2)] assms(3)]
  by (intro proc_inv_put [OF assms(1,2)]) simp_all

lemma pop_frame_inv:
  assumes "proc_inv m" "procs m p = Some pr"
  shows "\<exists>r m'. pop_frame n p m = Some (r, m') \<and> proc_inv m'"
proof -
  obtain r m1 where m1: "pop_words n p m = Some (r, m1)" "proc_inv m1"
    using pop_words_inv [OF assms] by blast
  obtain pr1 where pr1: "procs m1 p = Some pr1"
    using only_proc_Some [OF pop_words_only [OF m1(1)] assms(2)] by blast
  obtain r2 v m2 where m2: "beam_process_stack_pop p True m1 = Some (r2, v, m2)" "proc_inv m2"
    using pop_inv [OF m1(2) pr1] by blast
  obtain pr2 where pr2: "procs m2 p = Some pr2"
    using only_proc_Some [OF pop_only [OF m2(1)] pr1] by blast
  have "proc_inv (put_proc p (set_cp c pr2) m2)" for c
    using frame_ok_updates(1) [OF proc_invD(3) [OF m2(2) pr2]]
    by (intro proc_inv_put [OF m2(2) pr2]) (simp_all add: set_cp_def)
  with m1 m2 pr2 show ?thesis by (auto simp: pop_frame_def)
qed

lemma send_inv:
  assumes "proc_inv m" "procs m q = Some qr"
  shows "\<exists>r m'. beam_message_send_to_process q v m = Some (r, m') \<and> proc_inv m'"
proof -
  note D = proc_invD [OF assms]
  obtain A where A: "mail_abs m A" "proc_own m" using assms(1) by (auto simp: proc_inv_def)
  then obtain w where w: "A (mailbox qr) = Some w" using D(6) by blast
  obtain r m' where m': "beam_mailbox_enqueue (mailbox qr) v m = Some (r, m')" "\<exists>B. mail_abs m' B"
    using mail_enqueue [OF A(1) w] by blast
  have "proc_own m'"
    using A(2) enqueue_keeps [OF A(1) w m'(1)] by (rule proc_own_mail)
  with m' D(4,5) assms(2) show ?thesis
    by (auto simp: beam_message_send_to_process_def beam_process_get_mailbox_def proc_get_def proc_inv_def)
qed


lemma peek_inv:
  assumes "proc_inv m" "procs m p = Some pr"
  shows "\<exists>r v m'. beam_mailbox_peek_save (mailbox pr) True m = Some (r, v, m') \<and> proc_inv m' \<and>
    procs m' = procs m \<and> (r = BEAM_OK \<longrightarrow> v \<noteq> None)"
proof -
  note D = proc_invD [OF assms]
  obtain A where A: "mail_abs m A" "proc_own m" using assms(1) by (auto simp: proc_inv_def)
  then obtain w where w: "A (mailbox pr) = Some w" using D(6) by blast
  obtain mb where mb: "mboxes m (mailbox pr) = Some mb" using A(1) w by (rule mail_absE)
  obtain r v m' where m': "beam_mailbox_peek_save (mailbox pr) True m = Some (r, v, m')"
    "\<exists>B. mail_abs m' B" "r = BEAM_OK \<longrightarrow> v \<noteq> None"
    using mail_peek [OF A(1) w] by (auto split: if_splits)
  have "mail_keeps m m'"
    using m'(1) D(5) mb
    by (auto simp: beam_mailbox_peek_save_def Let_def bind_eq_Some_conv intro: mail_keeps_put_mbox
        split: if_splits)
  then have "proc_own m'" by (rule proc_own_mail [OF A(2)])
  then show ?thesis
    using m' procs_more [OF peek_more [OF m'(1)]] by (auto simp: proc_inv_def)
qed

lemma cursor_inv:
  assumes "proc_inv m" "procs m p = Some pr"
  shows "\<exists>m'. beam_mailbox_reset_save_cursor (mailbox pr) m = Some m' \<and> proc_inv m'"
    and "\<exists>m'. mailbox_advance_cursor (mailbox pr) m = Some m' \<and> proc_inv m'"
    and "\<exists>r m'. beam_mailbox_remove_current (mailbox pr) m = Some (r, m') \<and> proc_inv m'"
proof -
  note D = proc_invD [OF assms]
  obtain A where A: "mail_abs m A" "proc_own m" using assms(1) by (auto simp: proc_inv_def)
  then obtain w where w: "A (mailbox pr) = Some w" using D(6) by blast
  obtain mb where mb: "mboxes m (mailbox pr) = Some mb" using A(1) w by (rule mail_absE)
  obtain m1 where m1: "beam_mailbox_reset_save_cursor (mailbox pr) m = Some m1" "\<exists>B. mail_abs m1 B"
    using mail_reset [OF A(1) w] by blast
  have "mail_keeps m m1"
    using m1(1) D(5) mb
    by (auto simp: beam_mailbox_reset_save_cursor_def intro: mail_keeps_put_mbox)
  with m1 proc_own_mail [OF A(2)] show "\<exists>m'. beam_mailbox_reset_save_cursor (mailbox pr) m = Some m' \<and> proc_inv m'"
    by (auto simp: proc_inv_def)
  obtain m2 where m2: "mailbox_advance_cursor (mailbox pr) m = Some m2" "\<exists>B. mail_abs m2 B"
    using mail_advance [OF A(1) w] by blast
  have "mail_keeps m m2"
    using m2(1) mb
    by (auto simp: mailbox_advance_cursor_def bind_eq_Some_conv intro: mail_keeps_put_mbox split: if_splits)
  with m2 proc_own_mail [OF A(2)] show "\<exists>m'. mailbox_advance_cursor (mailbox pr) m = Some m' \<and> proc_inv m'"
    by (auto simp: proc_inv_def)
  obtain r m3 where m3: "beam_mailbox_remove_current (mailbox pr) m = Some (r, m3)" "\<exists>B. mail_abs m3 B"
    using mail_remove [OF A(1) w] mail_remove_none [OF A(1) w] A(1) by (cases "snd w = []") auto
  then show "\<exists>r m'. beam_mailbox_remove_current (mailbox pr) m = Some (r, m') \<and> proc_inv m'"
    using proc_own_mail [OF A(2) remove_keeps [OF A(1) w m3(1)]] by (auto simp: proc_inv_def)
qed

lemma signed64_small:
  "small_range a \<Longrightarrow> small_range b \<Longrightarrow> \<exists>v. signed64 (sint a + sint b) = Some v"
  "small_range a \<Longrightarrow> small_range b \<Longrightarrow> \<exists>v. signed64 (sint a - sint b) = Some v"
  by (auto simp: small_range_def signed64_def)

lemma arith_inv:
  assumes "proc_inv m" "procs m p = Some pr"
    "\<And>a b. small_range a \<Longrightarrow> small_range b \<Longrightarrow> \<exists>v. f a b = Some v"
  shows "keeps_inv (arith f i p pr m)"
proof (cases "reg_ok (arg1 i) \<and> reg_ok (arg2 i) \<and> reg_ok (arg3 i)")
  case True
  note fr = regs_defined [OF proc_invD(3) [OF assms(1,2)]]
  obtain a b where ab: "get_x (arg1 i) pr = Some a" "get_x (arg2 i) pr = Some b"
    using True fr(1) by blast
  obtain v where v: "f (eterm_to_small_int a) (eterm_to_small_int b) = Some v"
    using assms(3) small_range_eterm_to_small_int by blast
  obtain pr' where pr': "set_x (arg3 i) (make_small_int v) pr = Some pr'"
    using True fr(2) by blast
  with True ab v set_x_inv [OF assms(1,2) pr'] show ?thesis
    by (simp add: keeps_inv_def arith_def)
next
  case False
  with assms(1) show ?thesis by (auto simp: keeps_inv_def arith_def)
qed

lemma abs_sdiv_le: "k \<noteq> 0 \<Longrightarrow> \<bar>(l::int) sdiv k\<bar> \<le> \<bar>l\<bar>"
proof -
  assume k: "k \<noteq> 0"
  then have nonneg: "0 \<le> \<bar>l\<bar> div \<bar>k\<bar>" by (simp add: pos_imp_zdiv_nonneg_iff)
  have "\<bar>l sdiv k\<bar> \<le> \<bar>l\<bar> div \<bar>k\<bar>"
    using nonneg by (simp add: signed_divide_int_def abs_mult abs_sgn_eq)
  also have "\<dots> \<le> \<bar>l\<bar> div 1" using k by (intro zdiv_mono2) simp_all
  finally show ?thesis by simp
qed

lemma int_div_inv:
  assumes "proc_inv m" "procs m p = Some pr"
  shows "keeps_inv (op_int_div i p pr m)"
proof (cases "reg_ok (arg1 i) \<and> reg_ok (arg2 i) \<and> reg_ok (arg3 i)")
  case True
  note fr = regs_defined [OF proc_invD(3) [OF assms]]
  obtain a b where ab: "get_x (arg1 i) pr = Some a" "get_x (arg2 i) pr = Some b"
    using True fr(1) by blast
  show ?thesis
  proof (cases "eterm_to_small_int b = 0")
    case b0: False
    let ?q = "sint (eterm_to_small_int a) sdiv sint (eterm_to_small_int b)"
    have "\<bar>?q\<bar> \<le> 2 ^ 59"
      using abs_sdiv_le [of "sint (eterm_to_small_int b)" "sint (eterm_to_small_int a)"] b0
        small_range_eterm_to_small_int [of a]
      by (auto simp: small_range_def signed_eq_0_iff)
    then obtain v where v: "signed64 ?q = Some v" by (auto simp: signed64_def abs_le_iff)
    obtain pr' where pr': "set_x (arg3 i) (make_small_int v) pr = Some pr'"
      using True fr(2) by blast
    with True ab v b0 set_x_inv [OF assms pr'] show ?thesis
      by (simp add: keeps_inv_def op_int_div_def)
  qed (use True ab assms(1) in \<open>simp add: keeps_inv_def op_int_div_def\<close>)
qed (use assms(1) in \<open>auto simp: keeps_inv_def op_int_div_def\<close>)

lemma loop_rec_inv:
  assumes "proc_inv m" "procs m p = Some pr"
  shows "keeps_inv (op_loop_rec i p pr code ip m)"
proof -
  obtain r v m1 where m1: "beam_mailbox_peek_save (mailbox pr) True m = Some (r, v, m1)" "proc_inv m1"
    "procs m1 = procs m" "r = BEAM_OK \<longrightarrow> v \<noteq> None"
    using peek_inv [OF assms] by blast
  then have pr1: "procs m1 p = Some pr" using assms(2) by simp
  obtain m2 where m2: "beam_mailbox_reset_save_cursor (mailbox pr) m1 = Some m2" "proc_inv m2"
    using cursor_inv(1) [OF m1(2) pr1] by blast
  have "\<exists>pr'. set_x (arg2 i) x pr = Some pr' \<and> proc_inv (put_proc p pr' m1)" if "reg_ok (arg2 i)" for x
    using regs_defined(2) [OF proc_invD(3) [OF assms] that] set_x_inv [OF m1(2) pr1] by blast
  then obtain pr' where "reg_ok (arg2 i) \<Longrightarrow> set_x (arg2 i) (the v) pr = Some pr' \<and> proc_inv (put_proc p pr' m1)"
    by blast
  with m1 m2 show ?thesis
    by (cases "reg_ok (arg2 i)") (auto simp: keeps_inv_def op_loop_rec_def)
qed

lemma raise_inv:
  assumes "proc_inv m" "procs m p = Some pr"
  shows "keeps_inv (op_raise i p pr code ip m)"
proof -
  note D = proc_invD [OF assms]
  obtain exc where exc: "(if reg_ok (arg1 i) then get_x (arg1 i) pr else Some 0) = Some exc"
    using regs_defined(1) [OF D(3), of "arg1 i"] by (cases "reg_ok (arg1 i)") auto
  show ?thesis
  proof (cases "catch_depth (frame pr) = 0")
    case True
    have "proc_inv (put_proc p (pr\<lparr>proc_state := BEAM_PROC_STATE_EXITED\<rparr>) m)"
      using frame_ok_updates(4) [OF D(3)] by (intro proc_inv_put [OF assms]) simp_all
    with True exc D(4) assms(2) show ?thesis
      by (simp add: keeps_inv_def op_raise_def beam_process_set_state_def proc_set_def)
  next
    case False
    let ?d = "catch_depth (frame pr)" and ?cf = "catch_stack (frame pr) ! (catch_depth (frame pr) - 1)"
    let ?pr = "pr\<lparr>stack_top := catch_stack_top ?cf, frame := (frame pr)\<lparr>catch_depth := ?d - 1\<rparr>\<rparr>"
    have fr: "frame_ok ?pr" using False D(3) by (auto simp: frame_ok_def)
    have "reg_ok 0" by (simp add: reg_ok_def BEAM_NUM_X_REGISTERS_def)
    then obtain pr' where pr': "set_x 0 exc ?pr = Some pr'" using regs_defined(2) [OF fr] by blast
    have "proc_inv (put_proc p pr' m)"
      using set_x_fields [OF pr'] frame_ok_updates(2) [OF fr pr'] by (intro proc_inv_put [OF assms]) simp_all
    moreover have "?d \<le> length (catch_stack (frame pr))" using D(3) by (simp add: frame_ok_def)
    ultimately show ?thesis
      using False exc pr' by (simp add: keeps_inv_def op_raise_def)
  qed
qed

lemma try_inv:
  assumes "proc_inv m" "procs m p = Some pr"
  shows "keeps_inv (op_try i p pr m)" "keeps_inv (op_try_end p pr m)"
proof -
  note D = proc_invD [OF assms]
  let ?fr = "frame pr" and ?d = "catch_depth (frame pr)"
  let ?new = "?fr\<lparr>catch_stack := (catch_stack ?fr)[?d := \<lparr>catch_label = ucast (arg1 i),
      catch_stack_top = stack_top pr, catch_cp = cp ?fr\<rparr>],
    catch_depth := ?d + 1, catch_ip := ucast (arg1 i), catch_sp := stack_top pr\<rparr>"
  have "frame_ok (pr\<lparr>frame := ?new\<rparr>)" if "?d < BEAM_MAX_CATCH_DEPTH"
    using that D(3) by (auto simp: frame_ok_def nth_list_update less_Suc_eq)
  then have "proc_inv (put_proc p (pr\<lparr>frame := ?new\<rparr>) m)" if "?d < BEAM_MAX_CATCH_DEPTH"
    using that by (intro proc_inv_put [OF assms]) simp_all
  moreover have "length (catch_stack ?fr) = BEAM_MAX_CATCH_DEPTH" using D(3) by (simp add: frame_ok_def)
  ultimately show "keeps_inv (op_try i p pr m)"
    using assms(1) by (simp add: keeps_inv_def op_try_def Let_def)
  have "frame_ok (pr\<lparr>frame := ?fr\<lparr>catch_depth := ?d - 1, catch_ip := x, catch_sp := y\<rparr>\<rparr>)" for x y
    using D(3) by (auto simp: frame_ok_def)
  then have "proc_inv (put_proc p (pr\<lparr>frame := ?fr\<lparr>catch_depth := ?d - 1, catch_ip := x, catch_sp := y\<rparr>\<rparr>) m)" for x y
    by (intro proc_inv_put [OF assms]) simp_all
  moreover have "?d - 1 \<le> length (catch_stack ?fr)" using D(3) by (auto simp: frame_ok_def)
  ultimately show "keeps_inv (op_try_end p pr m)"
    using assms(1) by (auto simp: keeps_inv_def op_try_end_def Let_def)
qed

lemma select_scan_defined:
  assumes "frame_ok pr" "reg_ok src" "n \<le> length tab" "even n" "even k"
  shows "\<exists>r. select_scan tab n k src pr = Some r"
  using assms
proof (induction tab n k src pr rule: select_scan.induct)
  case (1 tab n k src pr)
  obtain v where v: "get_x src pr = Some v" using regs_defined(1) [OF 1(2,3)] by blast
  show ?case
  proof (cases "k < n")
    case True
    then have "k + 1 < n" using 1(5,6) by presburger
    with 1(4) have at: "arg_at tab k = Some (tab ! k)" "arg_at tab (k + 1) = Some (tab ! (k + 1))"
      by (simp_all add: arg_at_def)
    then show ?thesis
      using 1(1) [OF True v at(1) _ 1(2-5)] 1(6) True v by (subst select_scan.simps) simp
  qed (simp add: select_scan.simps)
qed

lemma safe_bifs:
  assumes "proc_inv m" "procs m p = Some pr" "n \<notin> {4, 5}"
  shows "\<exists>r v. beam_bif_dispatch n p (Some (x_regs (frame pr))) a True m = Some (r, v) \<and>
    (r = BEAM_OK \<longrightarrow> v \<noteq> None)"
proof -
  have "length (x_regs (frame pr)) = 256" "p \<noteq> 0"
    using proc_invD(3,4) [OF assms(1,2)] by (auto simp: frame_ok_def BEAM_NUM_X_REGISTERS_def)
  with assms(2,3) show ?thesis
    by (simp add: beam_bif_dispatch_def bif_self_0_def beam_process_get_pid_def proc_get_def
        bif_add_2_def bif_sub_2_def bif_is_atom_1_def arg_at_def)
qed

lemma halt_wait_inv:
  assumes "proc_inv m" "procs m p = Some pr"
  shows "keeps_inv (op_halt p pr m)" "keeps_inv (op_wait p pr ip m)"
proof -
  note D = proc_invD [OF assms]
  have "proc_inv (put_proc p (pr\<lparr>proc_state := BEAM_PROC_STATE_EXITED\<rparr>) m)"
    using frame_ok_updates(4) [OF D(3)] by (intro proc_inv_put [OF assms]) simp_all
  moreover obtain v where "get_x 0 pr = Some v"
    using regs_defined(1) [OF D(3), of 0] by (auto simp: reg_ok_def BEAM_NUM_X_REGISTERS_def)
  ultimately show "keeps_inv (op_halt p pr m)"
    using D(4) assms(2) by (simp add: keeps_inv_def op_halt_def beam_process_set_state_def proc_set_def)
  let ?pr = "pr\<lparr>frame := (frame pr)\<lparr>frame_ip := ip\<rparr>, proc_state := BEAM_PROC_STATE_WAITING\<rparr>"
  have "frame_ok ?pr" using D(3) by (simp add: frame_ok_def)
  then have "proc_inv (put_proc p ?pr m)" by (intro proc_inv_put [OF assms]) simp_all
  moreover have "put_proc p ?pr (put_proc p x m) = put_proc p ?pr m" for x by (simp add: put_proc_def)
  ultimately show "keeps_inv (op_wait p pr ip m)"
    using D(4) by (simp add: keeps_inv_def op_wait_def beam_process_set_state_def proc_set_def)
qed

lemma exec_instr_inv:
  assumes "proc_inv m" "procs m p = Some pr" "safe_instr (dom (procs m)) i"
  shows "keeps_inv (exec_instr i p code ip m)"
proof (cases "opcode_of (opcode i)")
  case None
  with assms show ?thesis by (simp add: keeps_inv_def exec_instr_def)
next
  case (Some oc)
  note D = proc_invD [OF assms(1,2)] and regs = regs_defined [OF proc_invD(3) [OF assms(1,2)]]
  note base = Some assms(1,2)
  show ?thesis
  proof (cases oc)
    case BEAM_OP_MOVE
    have "\<exists>pr'. set_x (arg2 i) (literal i) pr = Some pr' \<and> proc_inv (put_proc p pr' m)" if "reg_ok (arg2 i)"
      using regs(2) [OF that] set_x_inv [OF assms(1,2)] by blast
    with base BEAM_OP_MOVE show ?thesis
      by (cases "reg_ok (arg2 i)") (auto simp: keeps_inv_def exec_instr_def op_move_def)
  next
    case BEAM_OP_ADD
    with base arith_inv [OF assms(1,2) signed64_small(1)] show ?thesis
      by (simp add: exec_instr_def op_add_def)
  next
    case BEAM_OP_SUB
    with base arith_inv [OF assms(1,2) signed64_small(2)] show ?thesis
      by (simp add: exec_instr_def op_sub_def)
  next
    case BEAM_OP_INT_DIV
    with base int_div_inv [OF assms(1,2)] show ?thesis by (simp add: exec_instr_def)
  next
    case BEAM_OP_ALLOCATE
    obtain r m1 where m1: "beam_process_stack_push p (ucast (cp (frame pr))) m = Some (r, m1)" "proc_inv m1"
      using push_inv [OF assms(1,2)] by blast
    then obtain pr1 where "procs m1 p = Some pr1"
      using only_proc_Some [OF push_only assms(2)] by blast
    with push_zeros_inv [OF m1(2)] obtain r2 m2 where
      "push_zeros (unat (arg1 i)) p m1 = Some (r2, m2)" "proc_inv m2" by blast
    with m1 base BEAM_OP_ALLOCATE show ?thesis
      by (auto simp: keeps_inv_def exec_instr_def op_allocate_def)
  next
    case BEAM_OP_DEALLOCATE
    with base pop_frame_inv [OF assms(1,2), of "unat (arg1 i)"] show ?thesis
      by (auto simp: keeps_inv_def exec_instr_def op_deallocate_def)
  next
    case BEAM_OP_CALL
    have "proc_inv (put_proc p (set_cp (ucast (ip + 1)) pr) m)"
      using frame_ok_updates(1) [OF D(3)] by (intro proc_inv_put [OF assms(1,2)]) (simp_all add: set_cp_def)
    with base BEAM_OP_CALL show ?thesis by (simp add: keeps_inv_def exec_instr_def op_call_def)
  next
    case BEAM_OP_CALL_LAST
    with base pop_frame_inv [OF assms(1,2), of "unat (arg2 i)"] show ?thesis
      by (auto simp: keeps_inv_def exec_instr_def op_call_last_def)
  next
    case BEAM_OP_SEND
    show ?thesis
    proof (cases "reg_ok (arg1 i) \<and> target_proc i \<noteq> 0")
      case True
      then obtain v where v: "get_x (arg1 i) pr = Some v" using regs(1) by blast
      obtain qr where qr: "procs m (target_proc i) = Some qr"
        using True assms(3) Some BEAM_OP_SEND by (auto simp: safe_instr_def)
      with send_inv [OF assms(1) qr, of v] True v base BEAM_OP_SEND show ?thesis
        by (auto simp: keeps_inv_def exec_instr_def op_send_def)
    qed (use base BEAM_OP_SEND in \<open>auto simp: keeps_inv_def exec_instr_def op_send_def\<close>)
  next
    case BEAM_OP_LOOP_REC
    with base loop_rec_inv [OF assms(1,2)] show ?thesis by (simp add: exec_instr_def)
  next
    case BEAM_OP_REMOVE_MESSAGE
    with base cursor_inv(3) [OF assms(1,2)] show ?thesis
      by (auto simp: keeps_inv_def exec_instr_def op_remove_message_def)
  next
    case BEAM_OP_LOOP_REC_END
    with base cursor_inv(2) [OF assms(1,2)] show ?thesis
      by (auto simp: keeps_inv_def exec_instr_def op_loop_rec_end_def)
  next
    case BEAM_OP_WAIT
    with base halt_wait_inv(2) [OF assms(1,2)] show ?thesis by (simp add: exec_instr_def)
  next
    case BEAM_OP_HALT
    with base halt_wait_inv(1) [OF assms(1,2)] show ?thesis by (simp add: exec_instr_def)
  next
    case BEAM_OP_TRY
    with base try_inv(1) [OF assms(1,2)] show ?thesis by (simp add: exec_instr_def)
  next
    case BEAM_OP_CATCH
    with base try_inv(1) [OF assms(1,2)] show ?thesis by (simp add: exec_instr_def)
  next
    case BEAM_OP_TRY_END
    with base try_inv(2) [OF assms(1,2)] show ?thesis by (simp add: exec_instr_def)
  next
    case BEAM_OP_RAISE
    with base raise_inv [OF assms(1,2)] show ?thesis by (simp add: exec_instr_def)
  next
    case BEAM_OP_TEST_IS_EQ_EXACT
    with Some assms(3) have "reg_ok (arg2 i)" "reg_ok (arg3 i)" by (simp_all add: safe_instr_def)
    then obtain a b where "get_x (arg2 i) pr = Some a" "get_x (arg3 i) pr = Some b"
      using regs(1) by blast
    with base BEAM_OP_TEST_IS_EQ_EXACT show ?thesis
      by (simp add: keeps_inv_def exec_instr_def op_test_is_eq_exact_def)
  next
    case BEAM_OP_TEST_IS_NE_EXACT
    with Some assms(3) have "reg_ok (arg2 i)" "reg_ok (arg3 i)" by (simp_all add: safe_instr_def)
    then obtain a b where "get_x (arg2 i) pr = Some a" "get_x (arg3 i) pr = Some b"
      using regs(1) by blast
    with base BEAM_OP_TEST_IS_NE_EXACT show ?thesis
      by (simp add: keeps_inv_def exec_instr_def op_test_is_ne_exact_def)
  next
    case BEAM_OP_TEST_IS_LIST
    with Some assms(3) have "reg_ok (arg2 i)" by (simp add: safe_instr_def)
    then obtain a where "get_x (arg2 i) pr = Some a" using regs(1) by blast
    with base BEAM_OP_TEST_IS_LIST show ?thesis
      by (simp add: keeps_inv_def exec_instr_def op_test_is_list_def)
  next
    case BEAM_OP_SELECT_VAL
    with Some assms(3) have sel: "\<exists>r. select_scan tab (unat (extra_count i)) 0 (arg1 i) pr = Some r"
      if "extra_args i = Some tab" for tab
      using that by (intro select_scan_defined [OF D(3)]) (auto simp: safe_instr_def)
    show ?thesis
    proof (cases "extra_args i")
      case None
      with base BEAM_OP_SELECT_VAL show ?thesis
        by (simp add: keeps_inv_def exec_instr_def op_select_val_def)
    next
      case (Some tab)
      then obtain r where "select_scan tab (unat (extra_count i)) 0 (arg1 i) pr = Some r" using sel by blast
      with base BEAM_OP_SELECT_VAL Some show ?thesis
        by (auto simp: keeps_inv_def exec_instr_def op_select_val_def)
    qed
  next
    case BEAM_OP_CALL_EXT
    have "(ucast (arg1 i) :: size_t) \<notin> {4, 5}"
      using assms(3) Some BEAM_OP_CALL_EXT by (simp add: safe_instr_def)
    then obtain r v where rv: "beam_bif_dispatch (ucast (arg1 i)) p (Some (x_regs (frame pr)))
        (sint (arg2 i)) True m = Some (r, v)" "r = BEAM_OK \<longrightarrow> v \<noteq> None"
      using safe_bifs [OF assms(1,2)] by blast
    have "reg_ok 0" by (simp add: reg_ok_def BEAM_NUM_X_REGISTERS_def)
    then obtain pr' where "set_x 0 (the v) pr = Some pr'" "proc_inv (put_proc p pr' m)"
      using regs(2) set_x_inv [OF assms(1,2)] by blast
    with rv base BEAM_OP_CALL_EXT show ?thesis
      by (auto simp: keeps_inv_def exec_instr_def op_call_ext_def)
  qed (use base assms(3) in \<open>simp_all add: safe_instr_def keeps_inv_def exec_instr_def op_return_def\<close>)
qed


lemma emu_step_inv:
  assumes "proc_inv m" "procs m p = Some pr" "- (2 ^ 31) < reductions pr" "reductions pr < 2 ^ 31"
    "safe_code (dom (procs m)) code" "unat ip < length code"
  shows "keeps_inv (emu_step p code ip m)"
proof -
  note D = proc_invD [OF assms(1,2)]
  let ?pr = "pr\<lparr>reductions := reductions pr - 1\<rparr>"
  let ?m = "put_proc p ?pr m"
  have inv: "proc_inv ?m"
    using frame_ok_updates(5) [OF D(3)] by (intro proc_inv_put [OF assms(1,2)]) simp_all
  have cons: "beam_process_consume_reductions p 1 m = Some ?m"
    using D(4) assms(2-4) by (simp add: beam_process_consume_reductions_def Let_def)
  show ?thesis
  proof (cases "reductions pr - 1 \<le> 0")
    case True
    have "frame_ok (?pr\<lparr>proc_state := BEAM_PROC_STATE_RUNNABLE\<rparr>)"
      using D(3) by (simp add: frame_ok_def)
    then have "proc_inv (put_proc p (?pr\<lparr>proc_state := BEAM_PROC_STATE_RUNNABLE\<rparr>) ?m)"
      by (intro proc_inv_put [OF inv, of _ ?pr]) simp_all
    with True cons D(4) show ?thesis
      by (simp add: emu_step_def keeps_inv_def beam_process_get_reductions_def proc_get_def
          beam_process_set_state_def proc_set_def)
  next
    case False
    have "dom (procs ?m) = dom (procs m)" using assms(2) by auto
    then have "safe_instr (dom (procs ?m)) (code ! unat ip)"
      using assms(5,6) by (simp add: safe_code_def list_all_length)
    then have "keeps_inv (exec_instr (code ! unat ip) p code ip ?m)"
      by (intro exec_instr_inv [OF inv, of _ ?pr]) simp
    with False cons D(4) show ?thesis
      by (simp add: emu_step_def beam_process_get_reductions_def proc_get_def)
  qed
qed

lemma emu_loop_inv:
  assumes "proc_inv m" "procs m p = Some pr" "- (2 ^ 31) < reductions pr" "reductions pr < 2 ^ 31"
    "safe_code (dom (procs m)) code"
  shows "\<exists>r v m'. emu_loop p code ip m = Some (r, v, m') \<and> proc_inv m' \<and> dom (procs m') = dom (procs m)"
  using assms
proof (induction p code ip m arbitrary: pr rule: emu_loop.induct)
  case (1 p code ip m)
  note D = proc_invD [OF 1(3,4)]
  show ?case
  proof (cases "unat ip < length code")
    case True
    then obtain c m1 where m1: "emu_step p code ip m = Some (c, m1)" "proc_inv m1"
      using emu_step_inv [OF 1(3-7) True] by (auto simp: keeps_inv_def)
    obtain pr1 where pr1: "procs m1 = (procs m)(p \<mapsto> pr1)"
      "kept c (pr\<lparr>reductions := reductions pr - 1\<rparr>) pr1"
      using emu_step_procs(1) [OF m1(1) 1(4) D(4)] by blast
    have dom: "dom (procs m1) = dom (procs m)" using pr1(1) 1(4) by auto
    have pr1p: "procs m1 p = Some pr1" and safe1: "safe_code (dom (procs m1)) code"
      using pr1(1) dom 1(7) by simp_all
    have red: "reductions pr1 = reductions pr - 1" using pr1(2) by (simp add: kept_def)
    have next_red: "1 < reductions pr" if "\<forall>r v. c \<noteq> Return r v"
      using emu_step_procs(2) [OF m1(1) 1(4) D(4)] that by blast
    show ?thesis
    proof (cases c)
      case Next
      have "\<exists>r v m'. emu_loop p code (ip + 1) m1 = Some (r, v, m') \<and> proc_inv m' \<and> dom (procs m') = dom (procs m1)"
        using 1(1) [OF True m1(1) refl Next m1(2) pr1p _ _ safe1] red next_red Next 1(6) by simp
      with True m1(1) Next dom show ?thesis by (simp add: emu_loop_run(1) [OF True])
    next
      case (Goto j)
      have "\<exists>r v m'. emu_loop p code j m1 = Some (r, v, m') \<and> proc_inv m' \<and> dom (procs m') = dom (procs m1)"
        using 1(2) [OF True m1(1) refl Goto m1(2) pr1p _ _ safe1] red next_red Goto 1(6) by simp
      with True m1(1) Goto dom show ?thesis by (simp add: emu_loop_run(2) [OF True])
    next
      case (Return r v)
      with True m1 dom show ?thesis by (simp add: emu_loop_run(3) [OF True])
    qed
  next
    case False
    obtain w where w: "get_x 0 pr = Some w"
      using regs_defined(1) [OF D(3), of 0] by (auto simp: reg_ok_def BEAM_NUM_X_REGISTERS_def)
    have "proc_inv (put_proc p (pr\<lparr>frame := (frame pr)\<lparr>frame_ip := ip\<rparr>\<rparr>) m)"
      using frame_ok_updates(3) [OF D(3)] by (intro proc_inv_put [OF 1(3,4)]) simp_all
    then show ?thesis
      using emu_loop_run(5) [OF False 1(4) w] 1(4) by auto
  qed
qed

lemma execute_inv:
  assumes "proc_inv m" "procs m p = Some pr" "- (2 ^ 31) < reductions pr" "reductions pr < 2 ^ 31"
    "safe_code (dom (procs m)) code"
  shows "\<exists>r v m'. beam_emu_execute_code p (Some code) out m = Some (r, v, m') \<and> proc_inv m' \<and>
    dom (procs m') = dom (procs m)"
proof (cases "code = []")
  case True
  with assms(1) show ?thesis by (simp add: beam_emu_execute_code_def)
next
  case False
  note D = proc_invD [OF assms(1,2)]
  let ?pr = "if cp (frame pr) = 0 \<and> frame_ip (frame pr) = 0 then set_cp (of_nat (length code)) pr else pr"
  have "frame_ok ?pr" using D(3) frame_ok_updates(1) by simp
  then have "proc_inv (put_proc p ?pr m)" by (intro proc_inv_put [OF assms(1,2)]) (simp_all add: set_cp_def)
  moreover have "dom (procs (put_proc p ?pr m)) = dom (procs m)" using assms(2) by auto
  moreover have "reductions ?pr = reductions pr" by (simp add: set_cp_def)
  ultimately obtain r v m' where "emu_loop p code (frame_ip (frame pr)) (put_proc p ?pr m) = Some (r, v, m')"
    "proc_inv m'" "dom (procs m') = dom (procs m)"
    using emu_loop_inv [of "put_proc p ?pr m" p ?pr code "frame_ip (frame pr)"] assms(3-5) by auto
  with False D(4) assms(2) show ?thesis by (simp add: beam_emu_execute_code_def Let_def)
qed

end
