(* ===== verification/Process_Lifecycle.thy ===== *)
theory Process_Lifecycle
  imports Process_Invariant
begin

text \<open>
  Creating and destroying processes: both keep the invariant of the process table on every path,
  including those where an allocation fails half-way, and with the system allocator a process
  gives back exactly the objects it took.
\<close>

subsection \<open>States that differ by extra objects\<close>

definition env_ext :: "'a machine_scheme \<Rightarrow> 'a machine_scheme \<Rightarrow> bool" where
  "env_ext m m' \<longleftrightarrow> machine_ok m' \<and> (\<forall>vt. vt_ok vt m' = vt_ok vt m) \<and>
     machine.more m' = machine.more m \<and> set (live m) \<subseteq> set (live m')"

lemma env_ext_alloc:
  assumes "alloc_env vt m" "good_size n" "call_alloc vt n m = Some (p, m')"
  shows "env_ext m m'"
proof -
  have "set (live m) \<subseteq> set (live m')"
    using vt.alloc_null [OF assms(1,2), of m'] vt.alloc_objs [OF assms] assms(3) by (cases "p = 0") auto
  then show ?thesis
    using vt.alloc_ok [OF assms] vt_ok_call_alloc [OF assms(3)] call_alloc_frame(2) [OF assms(3)]
    by (simp add: env_ext_def)
qed

lemma env_ext_free:
  assumes "env_ext m m1" "vt_ok vt m1" "a \<notin> fst ` set (live m)" "a \<in> fst ` set (live m1)"
  shows "\<exists>m2. call_free vt a m1 = Some m2 \<and> env_ext m m2"
proof -
  have env: "alloc_env vt m1" using assms(1,2) by (simp add: env_ext_def)
  obtain m2 where m2: "call_free vt a m1 = Some m2" using vt.free_total [OF env assms(4)] by blast
  have "b \<in> set (live m2)" if "b \<in> set (live m)" for b
    using call_free_frame(4) [OF m2, of b] that assms(1,3) by (auto simp: env_ext_def)
  with m2 assms(1) vt.free_ok [OF env m2] vt_ok_call_free [OF m2] call_free_frame(2) [OF m2]
  show ?thesis by (auto simp: env_ext_def)
qed

lemma env_ext_trans: "env_ext m m1 \<Longrightarrow> env_ext m1 m2 \<Longrightarrow> env_ext m m2"
  by (auto simp: env_ext_def)

lemma env_ext_bases: "env_ext m m' \<Longrightarrow> fst ` set (live m) \<subseteq> fst ` set (live m')"
  by (auto simp: env_ext_def)

lemma mail_abs_ext:
  assumes "mail_abs m A" "env_ext m m'"
  shows "mail_abs m' A"
proof -
  have E: "machine_ok m'" "\<And>vt. vt_ok vt m' = vt_ok vt m" "machine.more m' = machine.more m"
    "fst ` set (live m) \<subseteq> fst ` set (live m')"
    using assms(2) by (auto simp: env_ext_def)
  have "dom (msgs m) \<union> dom (mboxes m) \<subseteq> fst ` set (live m)"
    using assms(1) by (auto simp: mail_abs_def mail_inv_def)
  then have "dom (msgs m) \<union> dom (mboxes m) \<subseteq> fst ` set (live m')" using E(4) by (rule subset_trans)
  then show ?thesis
    using mail_frame [OF E(3)] E(1,2) by (intro mail_abs_env [OF assms(1)]) simp_all
qed

lemma proc_own_ext:
  assumes "proc_own m" "env_ext m m'"
  shows "proc_own m'"
proof -
  note D = proc_ownD [OF assms(1)]
  have E: "\<And>vt. vt_ok vt m' = vt_ok vt m" "machine.more m' = machine.more m" "set (live m) \<subseteq> set (live m')"
    using assms(2) by (auto simp: env_ext_def)
  note S = mail_frame(1,2) [OF E(2)] machine_more_procs [OF E(2)]
  show ?thesis
  proof (rule proc_ownI, unfold S)
    show "dom (procs m) \<subseteq> vt.bases m'" using D(1) image_mono [OF E(3)] by (rule subset_trans)
    fix p pr assume "procs m p = Some pr"
    then have "proc_wf m pr" by (rule D(4))
    then show "proc_wf m' pr" using E(3) by (auto simp: proc_wf_def heap_ok_def S E(1))
  qed (use D(2,3,5) in blast)+
qed

lemma proc_inv_ext: "proc_inv m \<Longrightarrow> env_ext m m' \<Longrightarrow> proc_inv m'"
  using mail_abs_ext proc_own_ext unfolding proc_inv_def by blast

subsection \<open>Creation\<close>

lemma mailbox_create_frame:
  assumes "alloc_env vt m" "beam_mailbox_create (Some vt) m = Some (p, m')"
  shows "msgs m' = msgs m" "mail_machine.more m' = mail_machine.more m" "set (live m) \<subseteq> set (live m')"
    "\<And>vt'. vt_ok vt' m' = vt_ok vt' m" "machine_ok m'"
    "p \<noteq> 0 \<Longrightarrow> p \<notin> fst ` set (live m) \<and> fst ` set (live m') = insert p (fst ` set (live m))"
    "p = 0 \<Longrightarrow> env_ext m m'" "p = 0 \<Longrightarrow> live m' = live m"
proof -
  have ok: "alloc_arg_ok (Some vt)"
    using assms(1) by (auto simp: vt_ok_def alloc_arg_ok_def split: alloc_fn.splits)
  then obtain m1 where call: "call_alloc vt sizeof_beam_mailbox m = Some (p, m1)"
    and m': "m' = m1 \<or> (\<exists>mb. m' = put_mbox p mb m1)" "p = 0 \<Longrightarrow> m' = m1"
    using assms(2) by (auto simp: beam_mailbox_create_def bind_eq_Some_conv split: if_splits)
  note E = env_ext_alloc [OF assms(1) good_sizes(2) call]
  note F = mail_frame [OF call_alloc_frame(2) [OF call]]
  show "msgs m' = msgs m" "mail_machine.more m' = mail_machine.more m" "set (live m) \<subseteq> set (live m')"
    "\<And>vt'. vt_ok vt' m' = vt_ok vt' m" "machine_ok m'"
    using m'(1) F E by (auto simp: put_mbox_def env_ext_def)
  have live: "live m' = live m1" using m'(1) by (auto simp: put_mbox_def)
  show "p \<noteq> 0 \<Longrightarrow> p \<notin> fst ` set (live m) \<and> fst ` set (live m') = insert p (fst ` set (live m))"
    using vt.alloc_fresh [OF assms(1) good_sizes(2) call] unfolding live by blast
  show "p = 0 \<Longrightarrow> env_ext m m'" using m'(2) E by simp
  show "p = 0 \<Longrightarrow> live m' = live m"
    using m'(2) vt.alloc_null [OF assms(1) good_sizes(2)] call by simp
qed


lemma heap_size_ok:
  assumes "0 < w" "w \<le> 2 ^ 59"
  shows "good_size (8 * w)" "unat (ALIGN (8 * w)) = 8 * unat w"
proof -
  have w: "unat w \<le> 2 ^ 59" using assms(2) by (simp add: word_le_nat_alt)
  then have 8: "unat (8 * w) = 8 * unat w" by (intro unat_8_mult) simp
  moreover have "0 < unat w" using assms(1) by (simp add: word_less_nat_alt)
  ultimately show good: "good_size (8 * w)"
    using w by (simp add: good_size_def word_less_nat_alt word_le_nat_alt)
  have "unat (ALIGN (8 * w)) = (unat (8 * w) + 7) div 8 * 8"
    using good w 8 by (intro unat_ALIGN) (simp add: good_size_def)
  with 8 show "unat (ALIGN (8 * w)) = 8 * unat w" by simp
qed


text \<open>Adding a process whose three objects are new.\<close>

lemma proc_own_add:
  assumes own: "proc_own m"
    and same: "msgs m' = msgs m" "mail_machine.more m' = mail_machine.more m" "set (live m) \<subseteq> set (live m')"
      "\<And>vt. vt_ok vt m' = vt_ok vt m" "mboxes m' = (mboxes m)(mailbox pr \<mapsto> mb)"
    and new: "p \<notin> fst ` set (live m)" "heap pr \<notin> fst ` set (live m)" "mailbox pr \<notin> fst ` set (live m)"
      "p \<in> fst ` set (live m')" "p \<noteq> 0"
    and diff: "p \<noteq> heap pr" "p \<noteq> mailbox pr" "heap pr \<noteq> mailbox pr"
    and pr: "vt_ok (proc_alloc pr) m" "heap_ok m' pr" "frame_ok pr"
    and stores: "dom (msgs m) \<union> dom (mboxes m) \<subseteq> fst ` set (live m)"
  shows "proc_own (put_proc p pr m')"
proof -
  note D = proc_ownD [OF own]
  let ?m = "put_proc p pr m'"
  note pm [simp] = procs_more [OF same(2)]
  have S: "msgs ?m = msgs m" "mboxes ?m = (mboxes m)(mailbox pr \<mapsto> mb)" "procs ?m = (procs m)(p \<mapsto> pr)"
    "live ?m = live m'" "\<And>vt. vt_ok vt ?m = vt_ok vt m" "\<And>x. heap_ok ?m x = heap_ok m' x"
    using same
    by (simp_all add: put_proc_def heap_ok_def) (simp add: vt_ok_cong [of "m'\<lparr>procs := _\<rparr>" m'])
  have out: "q \<noteq> x" if "x \<notin> fst ` set (live m)" "procs m q = Some qr" for x q qr
    using that D(1) by blast
  have old: "proc_wf ?m x" "heap x \<noteq> heap pr" "mailbox x \<noteq> mailbox pr" if q: "procs m q = Some x" for q x
  proof -
    have wf: "proc_wf m x" using q by (rule D(4))
    then have hx: "heap x \<in> fst ` set (live m)" and mx: "mailbox x \<in> dom (mboxes m)"
      by (force simp: proc_wf_def heap_ok_def)+
    have mx': "mailbox x \<in> fst ` set (live m)" using mx stores by blast
    show "heap x \<noteq> heap pr" "mailbox x \<noteq> mailbox pr" using hx mx' new(2,3) by metis+
    moreover have "heap x \<noteq> p" "heap x \<noteq> mailbox pr" using hx new(1,3) by metis+
    moreover have "heap_ok m' x" using wf same(3) by (auto simp: proc_wf_def heap_ok_def)
    ultimately show "proc_wf ?m x" using wf by (simp add: proc_wf_def S)
  qed
  have fresh: "x \<notin> dom (msgs m) \<union> dom (mboxes m) \<union> dom (procs m)" if "x \<notin> fst ` set (live m)" for x
    using that stores D(1) by blast
  have wf: "proc_wf ?m pr"
    using fresh [OF new(2)] pr diff by (simp add: proc_wf_def S)
  show ?thesis
  proof (rule proc_ownI)
    show "dom (procs ?m) \<subseteq> fst ` set (live ?m)"
      using subset_trans [OF D(1) image_mono [OF same(3)]] new(4) by (simp add: S)
    show "dom (procs ?m) \<inter> (dom (msgs ?m) \<union> dom (mboxes ?m)) = {}"
      using fresh [OF new(1)] fresh [OF new(3)] D(3) diff by (simp add: S)
    show "0 \<notin> dom (procs ?m)" using D(2) new(5) by (simp add: S)
    show "proc_wf ?m x" if "procs ?m q = Some x" for q x
      using that old(1) wf by (auto simp: S split: if_splits)
    show "mailbox x \<noteq> mailbox y \<and> heap x \<noteq> heap y"
      if "procs ?m q = Some x" "procs ?m r = Some y" "q \<noteq> r" for q r x y
      using that D(5) [of q x r y] old(2,3) [of q x] old(2,3) [of r y] by (auto simp: S split: if_splits)
  qed
qed

lemma frame_ok_initial:
  "frame_ok \<lparr>pid = i, proc_state = st, priority = pri, reductions = n, heap = h, heap_capacity = c,
     heap_top = 0, stack_top = c, mailbox = b, frame = initial_frame, proc_alloc = vt\<rparr>"
  by (simp add: frame_ok_def initial_frame_def)

lemma process_create_inv:
  assumes inv: "proc_inv m" and vt: "vt_ok vt m" and w: "w \<le> 2 ^ 59"
  shows "\<exists>p m'. beam_process_create i w (Some vt) m = Some (p, m') \<and> proc_inv m' \<and>
    (if p = 0 then procs m' = procs m
     else \<exists>pr. procs m p = None \<and> procs m' = (procs m)(p \<mapsto> pr) \<and> pid pr = i \<and>
       proc_state pr = BEAM_PROC_STATE_RUNNABLE \<and> reductions pr = BEAM_DEFAULT_REDUCTIONS \<and>
       proc_alloc pr = vt \<and> (\<exists>A. mail_abs m' A \<and> A (mailbox pr) = Some ([], [])) \<and>
       map_option mb_alloc (mboxes m' (mailbox pr)) = Some vt \<and>
       fst ` set (live m') = fst ` set (live m) \<union> {p, heap pr, mailbox pr} \<and>
       fst ` set (live m) \<inter> {p, heap pr, mailbox pr} = {} \<and> distinct [p, heap pr, mailbox pr])"
proof -
  obtain A where A: "mail_abs m A" "proc_own m" using inv by (auto simp: proc_inv_def)
  have env: "alloc_env vt m" using vt A(1) by (auto simp: mail_abs_def mail_inv_def)
  have arg: "alloc_arg_ok (Some vt)"
    using vt by (auto simp: vt_ok_def alloc_arg_ok_def split: alloc_fn.splits)
  have gs: "good_size sizeof_beam_process" by (simp add: good_size_def sizeof_beam_process_def)
  let ?cap = "if w > 0 then w else 256"
  have cap: "0 < ?cap" "?cap \<le> 2 ^ 59" using w by (auto simp: word_gt_0)
  obtain p m1 where m1: "call_alloc vt sizeof_beam_process m = Some (p, m1)"
    using vt.alloc_total [OF env] by blast
  note E1 = env_ext_alloc [OF env gs m1]
  have env1: "alloc_env vt m1" using E1 vt by (simp add: env_ext_def)
  obtain h m2 where m2: "call_alloc vt (8 * ?cap) m1 = Some (h, m2)"
    using vt.alloc_total [OF env1] by blast
  note E2 = env_ext_alloc [OF env1 heap_size_ok(1) [OF cap] m2]
  have env2: "alloc_env vt m2" and E02: "env_ext m m2"
    using E1 E2 vt env_ext_trans by (auto simp: env_ext_def)
  obtain b m3 where m3: "beam_mailbox_create (Some vt) m2 = Some (b, m3)"
    using mail_create [OF mail_abs_ext [OF A(1) E02] conjunct2 [OF env2]] by blast
  note F3 = mailbox_create_frame [OF env2 m3]
  note run = arg m1 m2 m3
  consider "p = 0" | "p \<noteq> 0" "h = 0" | "p \<noteq> 0" "h \<noteq> 0" "b = 0" | "p \<noteq> 0" "h \<noteq> 0" "b \<noteq> 0" by blast
  then show ?thesis
  proof cases
    case 1
    with run proc_inv_ext [OF inv E1] E1 machine_more_procs [of m1 m] show ?thesis
      by (simp add: beam_process_create_def env_ext_def)
  next
    case 2
    have "p \<notin> vt.bases m" "p \<in> vt.bases m2"
      using vt.alloc_fresh [OF env gs m1 2(1)] subsetD [OF env_ext_bases [OF E2]] by simp_all
    then obtain m4 where m4: "call_free vt p m2 = Some m4" "env_ext m m4"
      using env_ext_free [OF E02 conjunct2 [OF env2]] by blast
    with 2 run proc_inv_ext [OF inv m4(2)] machine_more_procs [of m4 m] show ?thesis
      by (simp add: beam_process_create_def env_ext_def Let_def)
  next
    case 3
    have E03: "env_ext m m3" using E02 F3(7) [OF 3(3)] by (rule env_ext_trans)
    have p: "p \<notin> vt.bases m" "p \<in> vt.bases m1" "vt.bases m1 = insert p (vt.bases m)"
      using vt.alloc_fresh [OF env gs m1 3(1)] by simp_all
    have h: "h \<notin> vt.bases m1" "vt.bases m2 = insert h (vt.bases m1)"
      using vt.alloc_fresh [OF env1 heap_size_ok(1) [OF cap] m2 3(2)] by simp_all
    have "vt_ok vt m3" using F3(4) env2 by simp
    moreover have "h \<notin> vt.bases m" using h(1) p(3) by simp
    moreover have "h \<in> vt.bases m3" using h(2) F3(8) [OF 3(3)] by simp
    ultimately obtain m4 where m4: "call_free vt h m3 = Some m4" "env_ext m m4"
      using env_ext_free [OF E03] by blast
    have "vt_ok vt m4" using m4(2) vt by (simp add: env_ext_def)
    moreover have "p \<in> vt.bases m4"
      using vt.free_bases(1) [OF m4(1)] F3(8) [OF 3(3)] h p(2) by auto
    ultimately obtain m5 where m5: "call_free vt p m4 = Some m5" "env_ext m m5"
      using env_ext_free [OF m4(2) _ p(1)] by blast
    with 3 run m4(1) proc_inv_ext [OF inv m5(2)] machine_more_procs [of m5 m] show ?thesis
      by (simp add: beam_process_create_def env_ext_def Let_def)
  next
    case 4
    let ?pr = "\<lparr>pid = i, proc_state = BEAM_PROC_STATE_RUNNABLE, priority = BEAM_PRIO_NORMAL,
      reductions = BEAM_DEFAULT_REDUCTIONS, heap = h, heap_capacity = ?cap, heap_top = 0,
      stack_top = ?cap, mailbox = b, frame = initial_frame, proc_alloc = vt\<rparr>"
    obtain mb where mb: "mboxes m3 = (mboxes m2)(b \<mapsto> mb)" "mail_abs m3 (A(b \<mapsto> ([], [])))" "mb_alloc mb = vt"
      using mail_create [OF mail_abs_ext [OF A(1) E02] conjunct2 [OF env2]] m3 4(3) by auto
    have p: "p \<notin> vt.bases m" "vt.bases m1 = insert p (vt.bases m)"
      using vt.alloc_fresh [OF env gs m1 4(1)] by simp_all
    have h: "h \<notin> vt.bases m1" "vt.bases m2 = insert h (vt.bases m1)"
      using vt.alloc_fresh [OF env1 heap_size_ok(1) [OF cap] m2 4(2)] by simp_all
    have b: "b \<notin> vt.bases m2" "vt.bases m3 = insert b (vt.bases m2)" using F3(6) [OF 4(3)] by simp_all
    have more: "machine.more m2 = machine.more m" using E02 by (simp add: env_ext_def)
    have "(h, ALIGN (8 * ?cap)) \<in> set (live m3)"
      using vt.alloc_objs [OF env1 heap_size_ok(1) [OF cap] m2 4(2)] F3(3) by auto
    then have heap: "heap_ok m3 ?pr" using 4(2) heap_size_ok(2) [OF cap] by (auto simp: heap_ok_def)
    have "proc_own (put_proc p ?pr m3)"
    proof (rule proc_own_add [OF A(2)])
      show "msgs m3 = msgs m" "mail_machine.more m3 = mail_machine.more m"
        "mboxes m3 = (mboxes m)(mailbox ?pr \<mapsto> mb)"
        using F3(1,2) mail_frame [OF more] mb(1) by simp_all
      show "set (live m) \<subseteq> set (live m3)" "vt_ok vt' m3 = vt_ok vt' m" for vt'
        using F3(3,4) E02 by (auto simp: env_ext_def)
      show "dom (msgs m) \<union> dom (mboxes m) \<subseteq> vt.bases m"
        using A(1) by (auto simp: mail_abs_def mail_inv_def)
    qed (use p h b heap vt 4 frame_ok_initial in auto)
    then have inv': "proc_inv (put_proc p ?pr m3)" using mb(2) by (auto simp: proc_inv_def)
    have procs: "procs m3 = procs m" using F3(2) mail_frame(3) [OF more] procs_more by metis
    have new: "procs m p = None" using p(1) proc_ownD(1) [OF A(2)] by blast
    have run': "beam_process_create i w (Some vt) m = Some (p, put_proc p ?pr m3)"
      using 4 run by (simp add: beam_process_create_def Let_def)
    have bases: "fst ` set (live (put_proc p ?pr m3)) = vt.bases m \<union> {p, h, b}"
      using p(2) h(2) b(2) by (simp add: put_proc_def insert_commute)
    have dist: "vt.bases m \<inter> {p, h, b} = {}" "distinct [p, h, b]" using p h(1) b(1) h(2) by auto
    have mail: "mail_abs (put_proc p ?pr m3) (A(b \<mapsto> ([], [])))" using mb(2) by simp
    have fields: "procs (put_proc p ?pr m3) = (procs m)(p \<mapsto> ?pr)" "pid ?pr = i"
      "proc_state ?pr = BEAM_PROC_STATE_RUNNABLE" "reductions ?pr = BEAM_DEFAULT_REDUCTIONS"
      "proc_alloc ?pr = vt" "heap ?pr = h" "mailbox ?pr = b"
      "map_option mb_alloc (mboxes (put_proc p ?pr m3) b) = Some vt"
      using procs mb(1,3) by (simp_all add: put_proc_def)
    show ?thesis
      using run' inv' 4(1) new fields mail bases dist
      by (intro exI [of _ p] exI [of _ "put_proc p ?pr m3"] conjI)
        (simp_all only: if_False, intro exI [of _ ?pr] conjI exI [of _ "A(b \<mapsto> ([], []))"],
         simp_all only: fields fun_upd_same)
  qed
qed


subsection \<open>Destruction\<close>

text \<open>Removing a process together with its mailbox and its heap.\<close>

lemma proc_own_remove:
  assumes own: "proc_own m" and p: "procs m p = Some pr"
    and procs: "procs m' = (procs m)(p := None)"
    and same: "dom (msgs m') \<subseteq> dom (msgs m)" "mboxes m' = (mboxes m)(mailbox pr := None)"
      "\<And>vt. vt_ok vt m' = vt_ok vt m"
    and blocks: "\<And>b. b \<in> set (live m) \<Longrightarrow> fst b \<notin> {p, heap pr, mailbox pr} \<union> dom (msgs m) \<Longrightarrow> b \<in> set (live m')"
  shows "proc_own m'"
proof -
  note D = proc_ownD [OF own]
  have pr: "proc_wf m pr" using p by (rule D(4))
  have keep: "q \<in> fst ` set (live m')" if "q \<in> fst ` set (live m)" "q \<notin> {p, heap pr, mailbox pr} \<union> dom (msgs m)" for q
    using that blocks by (metis (no_types, lifting) imageE imageI)
  show ?thesis
  proof (rule proc_ownI)
    have "q \<in> fst ` set (live m')" if q: "q \<in> dom (procs m)" "q \<noteq> p" for q
    proof (rule keep [OF subsetD [OF D(1) q(1)]])
      show "q \<notin> {p, heap pr, mailbox pr} \<union> dom (msgs m)"
        using q pr D(3) by (auto simp: proc_wf_def)
    qed
    then show "dom (procs m') \<subseteq> fst ` set (live m')" by (auto simp: procs split: if_splits)
    show "0 \<notin> dom (procs m')" using D(2) by (simp add: procs)
    show "dom (procs m') \<inter> (dom (msgs m') \<union> dom (mboxes m')) = {}"
    proof -
      have "dom (procs m') \<subseteq> dom (procs m)" "dom (mboxes m') \<subseteq> dom (mboxes m)"
        by (auto simp: procs same(2) split: if_splits)
      with D(3) same(1) show ?thesis by blast
    qed
  next
    fix q x assume "procs m' q = Some x"
    then have q: "procs m q = Some x" "q \<noteq> p" by (auto simp: procs split: if_splits)
    have wf: "proc_wf m x" using q(1) by (rule D(4))
    have diff: "mailbox x \<noteq> mailbox pr" "heap x \<noteq> heap pr" using D(5) [OF q(1) p q(2)] by simp_all
    have "heap x \<notin> {p, heap pr, mailbox pr} \<union> dom (msgs m)"
      using wf pr diff p by (auto simp: proc_wf_def)
    moreover obtain n where n: "(heap x, n) \<in> set (live m)" "8 * unat (heap_capacity x) \<le> unat n" "heap x \<noteq> 0"
      using wf by (auto simp: proc_wf_def heap_ok_def)
    ultimately have "heap_ok m' x" using blocks [OF n(1)] by (auto simp: heap_ok_def)
    then show "proc_wf m' x"
      using wf same diff by (auto simp: proc_wf_def procs)
  next
    show "mailbox x \<noteq> mailbox y \<and> heap x \<noteq> heap y"
      if "procs m' q = Some x" "procs m' r = Some y" "q \<noteq> r" for q r x y
      using that D(5) [of q x r y] by (auto simp: procs split: if_splits)
  qed
qed

lemma process_destroy_run:
  assumes inv: "mail_inv m Q" "proc_own m" and p: "procs m p = Some pr" and mb: "mboxes m (mailbox pr) = Some mb"
  shows "\<exists>m'. beam_process_destroy p m = Some m' \<and> proc_inv m' \<and> procs m' = (procs m)(p := None) \<and>
    (vt_free (proc_alloc pr) = FN_SYS \<longrightarrow> vt_free (mb_alloc mb) = FN_SYS \<longrightarrow>
      fst ` set (live m') = fst ` set (live m) - ({p, heap pr, mailbox pr} \<union> set (nodes (Q (mailbox pr)))))"
proof -
  let ?ns = "set (nodes (Q (mailbox pr)))"
  note D = proc_ownD [OF inv(2)]
  have wf: "proc_wf m pr" using p by (rule D(4))
  have ns: "?ns \<subseteq> dom (msgs m)" using mail_invD(2) [OF inv(1) mb] by (rule queue_rep_dom)
  have mbx: "mailbox pr \<noteq> 0" using mail_invD(4) [OF inv(1) mb] .
  have pdom: "p \<in> dom (procs m)" "p \<noteq> 0" using p D(2) by auto
  have hp: "heap pr \<in> vt.bases m" "heap pr \<noteq> 0" using wf by (force simp: proc_wf_def heap_ok_def)+
  have hp': "heap pr \<notin> insert (mailbox pr) ?ns" using wf ns mb by (auto simp: proc_wf_def)
  have p': "p \<notin> insert (mailbox pr) ?ns" "p \<noteq> heap pr" "p \<in> vt.bases m"
    using pdom D(1,3) ns mb wf by (auto simp: proc_wf_def)
  obtain m1 where m1: "beam_mailbox_destroy (mailbox pr) m = Some m1" "mail_inv m1 Q"
    "mboxes m1 = (mboxes m)(mailbox pr := None)" "msgs m1 = msgs m |` (- ?ns)"
    "mail_machine.more m1 = mail_machine.more m" "\<forall>vt. vt_ok vt m1 = vt_ok vt m"
    "vt.bases m - insert (mailbox pr) ?ns \<subseteq> vt.bases m1"
    "\<forall>b \<in> set (live m). fst b \<notin> insert (mailbox pr) ?ns \<longrightarrow> b \<in> set (live m1)"
    "vt_free (mb_alloc mb) = FN_SYS \<longrightarrow> vt.bases m1 = vt.bases m - insert (mailbox pr) ?ns"
    using mail_destroy [OF inv(1) mb] by auto
  have abs1: "mail_abs m1 (abs_of m1 Q)" using m1(2) by (auto simp: mail_abs_def)
  have env1: "alloc_env (proc_alloc pr) m1" using m1(2,6) wf by (auto simp: mail_inv_def proc_wf_def)
  have h1: "heap pr \<in> vt.bases m1" and p1: "p \<in> vt.bases m1"
    using m1(7) hp(1) hp' p' by blast+
  obtain m2 where m2: "call_free (proc_alloc pr) (heap pr) m1 = Some m2"
    using vt.free_total [OF env1 h1] by blast
  have env2: "alloc_env (proc_alloc pr) m2" using vt.free_ok [OF env1 m2] .
  have p2: "p \<in> vt.bases m2" using vt.free_bases(1) [OF m2] p1 p'(2) by blast
  obtain m3 where m3: "call_free (proc_alloc pr) p m2 = Some m3"
    using vt.free_total [OF env2 p2] by blast
  let ?m = "m3\<lparr>procs := (procs m3)(p := None)\<rparr>"
  have more: "machine.more m3 = machine.more m1"
    using call_free_frame(2) [OF m2] call_free_frame(2) [OF m3] by simp
  note F = mail_frame [OF more] machine_more_procs [OF more]
  have run: "beam_process_destroy p m = Some ?m"
    using pdom(2) p mbx hp(2) m1(1) m2 m3 by (simp add: beam_process_destroy_def)
  have procs: "procs ?m = (procs m)(p := None)" using F(4) procs_more [OF m1(5)] by simp
  have vt3: "vt_ok vt m3 = vt_ok vt m" for vt
    using vt_ok_call_free [OF m2] vt_ok_call_free [OF m3] m1(6) by simp
  have mail: "mail_abs m3 (abs_of m1 Q)"
  proof (rule mail_abs_env [OF abs1])
    show "vt_ok vt m3 = vt_ok vt m1" for vt using vt3 m1(6) by simp
    have "dom (msgs m1) \<union> dom (mboxes m1) \<subseteq> vt.bases m1 - {heap pr, p}"
    proof -
      have "dom (msgs m1) \<union> dom (mboxes m1) \<subseteq> vt.bases m1" using m1(2) by (auto simp: mail_inv_def)
      moreover have "dom (msgs m1) \<union> dom (mboxes m1) \<subseteq> dom (msgs m) \<union> dom (mboxes m)"
        by (auto simp: m1(3,4) split: if_splits)
      ultimately show ?thesis using wf D(3) pdom(1) unfolding proc_wf_def by blast
    qed
    moreover have "vt.bases m1 - {heap pr, p} \<subseteq> vt.bases m3"
      using vt.free_bases(1) [OF m2] vt.free_bases(1) [OF m3] by blast
    ultimately show "dom (msgs m1) \<union> dom (mboxes m1) \<subseteq> vt.bases m3" by (rule subset_trans)
    show "machine_ok m3" using vt.free_ok [OF env2 m3] by simp
  qed (simp_all add: F)
  have "proc_own ?m"
  proof (rule proc_own_remove [OF inv(2) p procs])
    show "dom (msgs ?m) \<subseteq> dom (msgs m)" using F(1) m1(4) by auto
    show "mboxes ?m = (mboxes m)(mailbox pr := None)" using F(2) m1(3) by simp
    show "vt_ok vt ?m = vt_ok vt m" for vt
      using vt3 [of vt] vt_ok_cong [of ?m m3 vt] by simp
    fix b assume b: "b \<in> set (live m)" "fst b \<notin> {p, heap pr, mailbox pr} \<union> dom (msgs m)"
    then have "fst b \<notin> insert (mailbox pr) ?ns" using ns by blast
    then have "b \<in> set (live m1)" using m1(8) b(1) by simp
    then show "b \<in> set (live ?m)"
      using call_free_frame(4) [OF m2] call_free_frame(4) [OF m3] b(2) by simp
  qed
  with mail have "proc_inv ?m" by (auto simp: proc_inv_def)
  moreover have "vt.bases ?m = vt.bases m - ({p, heap pr, mailbox pr} \<union> ?ns)"
    if "vt_free (proc_alloc pr) = FN_SYS" "vt_free (mb_alloc mb) = FN_SYS"
  proof -
    have "vt.bases ?m = vt.bases m3" by simp
    also have "\<dots> = vt.bases m - insert (mailbox pr) ?ns - {heap pr} - {p}"
      using call_free_sys [OF that(1) hp(2) m2] call_free_sys [OF that(1) pdom(2) m3] m1(9) that(2) by simp
    finally show ?thesis by blast
  qed
  ultimately show ?thesis using run procs by blast
qed


subsection \<open>A process for examples\<close>

definition proc_start :: "ptr list \<Rightarrow> proc_machine" where
  "proc_start rs = \<lparr>words = (\<lambda>_. 0), live = [], raw = [], malloc_results = rs, sys_states = Map.empty,
     arenas = Map.empty, msgs = Map.empty, mboxes = Map.empty, procs = Map.empty\<rparr>"

definition proc_demo :: proc_machine where
  "proc_demo = snd (the (beam_process_create 7 64 (Some sys_vt)
     (proc_start [0x10000, 0x20000, 0x30000, 0x40000, 0x50000])))"

lemma proc_inv_start: "proc_inv (proc_start rs)"
proof -
  have "mail_abs (proc_start rs) Map.empty"
    by (auto simp: mail_abs_def abs_of_def mail_inv_def proc_start_def machine_ok_def arenas_apart_def)
  moreover have "proc_own (proc_start rs)" by (rule proc_ownI) (simp_all add: proc_start_def)
  ultimately show ?thesis by (auto simp: proc_inv_def)
qed

definition demo_pr :: beam_process where
  "demo_pr = \<lparr>pid = 7, proc_state = BEAM_PROC_STATE_RUNNABLE, priority = 2,
     reductions = 4000, heap = 0x20000, heap_capacity = 64, heap_top = 0, stack_top = 64,
     mailbox = 0x30000, frame = initial_frame, proc_alloc = sys_vt\<rparr>"

lemma proc_demo_run:
  "beam_process_create 7 64 (Some sys_vt) (proc_start [0x10000, 0x20000, 0x30000, 0x40000, 0x50000]) =
   Some (0x10000, proc_demo)"
  "procs proc_demo = [0x10000 \<mapsto> demo_pr]"
  by (simp_all add: proc_demo_def proc_start_def sys_vt_def demo_pr_def beam_defs Let_def)

lemma proc_demo_at: "procs proc_demo 0x10000 = Some demo_pr"
  by (simp add: proc_demo_run(2))

lemma demo_pr_sel [simp]:
  "pid demo_pr = 7" "proc_state demo_pr = BEAM_PROC_STATE_RUNNABLE" "reductions demo_pr = 4000"
  "heap demo_pr = 0x20000" "heap_capacity demo_pr = 64" "heap_top demo_pr = 0" "stack_top demo_pr = 64"
  "mailbox demo_pr = 0x30000" "frame demo_pr = initial_frame" "proc_alloc demo_pr = sys_vt"
  by (simp_all add: demo_pr_def)

lemma proc_inv_demo: "proc_inv proc_demo"
  using process_create_inv [OF proc_inv_start vt_ok_sys_vt, of 64 7 "[0x10000, 0x20000, 0x30000, 0x40000, 0x50000]"]
  by (simp add: proc_demo_run(1))

subsection \<open>Properties\<close>

text \<open>
  C21: creating a process never runs into undefined behaviour, whatever the allocator returns. Either
  it returns null and no process was added, or it returns a fresh process that is runnable, has its
  full reductions, an empty mailbox and three new blocks of its own. The invariant of the state
  holds on both paths.
\<close>

theorem process_create_contract:
  assumes "proc_inv m" "vt_ok vt m" "w \<le> 2 ^ 59"
  shows "\<exists>p m'. beam_process_create i w (Some vt) m = Some (p, m') \<and> proc_inv m' \<and>
    (if p = 0 then procs m' = procs m
     else \<exists>pr. procs m p = None \<and> procs m' = (procs m)(p \<mapsto> pr) \<and> pid pr = i \<and>
       proc_state pr = BEAM_PROC_STATE_RUNNABLE \<and> reductions pr = BEAM_DEFAULT_REDUCTIONS \<and>
       (\<exists>A. mail_abs m' A \<and> A (mailbox pr) = Some ([], [])) \<and>
       fst ` set (live m') = fst ` set (live m) \<union> {p, heap pr, mailbox pr} \<and>
       fst ` set (live m) \<inter> {p, heap pr, mailbox pr} = {} \<and> distinct [p, heap pr, mailbox pr])"
  using process_create_inv [OF assms, of i] by (auto split: if_splits)

theorem process_create_contract_witness:
  "\<exists>p m'. beam_process_create 8 32 (Some sys_vt) proc_demo = Some (p, m') \<and> proc_inv m' \<and>
    (p = 0 \<or> procs proc_demo p = None)"
  using process_create_contract [OF proc_inv_demo vt_ok_sys_vt, of 32 8] by (auto split: if_splits)

text \<open>
  C22: destroying a process that was just created with the system allocator gives back exactly what
  its creation allocated: no block leaks, none is freed twice, and the other processes and their
  mailboxes are as before.
\<close>

theorem process_create_destroy:
  assumes inv: "proc_inv m" and vt: "vt_ok vt m" "vt_free vt = FN_SYS" and w: "w \<le> 2 ^ 59"
    and run: "beam_process_create i w (Some vt) m = Some (p, m1)" "p \<noteq> 0"
  shows "\<exists>m2. beam_process_destroy p m1 = Some m2 \<and> proc_inv m2 \<and> procs m2 = procs m \<and>
    fst ` set (live m2) = fst ` set (live m)"
proof -
  obtain pr A where pr: "proc_inv m1" "procs m p = None" "procs m1 = (procs m)(p \<mapsto> pr)" "proc_alloc pr = vt"
    "mail_abs m1 A" "A (mailbox pr) = Some ([], [])" "map_option mb_alloc (mboxes m1 (mailbox pr)) = Some vt"
    "fst ` set (live m1) = fst ` set (live m) \<union> {p, heap pr, mailbox pr}"
    "fst ` set (live m) \<inter> {p, heap pr, mailbox pr} = {}"
    using process_create_inv [OF inv vt(1) w, of i] run by auto
  obtain Q where Q: "mail_inv m1 Q" "A = abs_of m1 Q" using pr(5) by (auto simp: mail_abs_def)
  obtain mb where mb: "mboxes m1 (mailbox pr) = Some mb" "mb_alloc mb = vt" using pr(7) by auto
  have nodes: "nodes (Q (mailbox pr)) = []"
    using pr(6) mb(1) by (simp add: Q(2) abs_of_def mail_view_def contents_def)
  have p: "procs m1 p = Some pr" using pr(3) by simp
  have own: "proc_own m1" using pr(1) by (simp add: proc_inv_def)
  obtain m2 where m2: "beam_process_destroy p m1 = Some m2" "proc_inv m2" "procs m2 = (procs m1)(p := None)"
    "fst ` set (live m2) = fst ` set (live m1) - {p, heap pr, mailbox pr}"
    using process_destroy_run [OF Q(1) own p mb(1)] mb(2) pr(4) vt(2) nodes by auto
  have "procs m2 = procs m" using m2(3) pr(2,3) by (auto simp: fun_eq_iff)
  moreover have "fst ` set (live m2) = fst ` set (live m)"
    unfolding m2(4) pr(8) using pr(9) by (simp only: Un_Diff Diff_cancel Un_empty_right Diff_triv)
  ultimately show ?thesis using m2 by blast
qed


theorem process_create_destroy_witness:
  "\<exists>m2. beam_process_destroy 0x10000 proc_demo = Some m2 \<and> proc_inv m2 \<and> procs m2 = Map.empty \<and>
    fst ` set (live m2) = {}"
  using process_create_destroy [OF proc_inv_start vt_ok_sys_vt _ _ proc_demo_run(1)]
  by (simp add: proc_start_def sys_vt_def)

end
