(* ===== verification/Process_Terms.thy ===== *)
theory Process_Terms
  imports Process_Lifecycle
begin

text \<open>
  Terms built on a process heap read back as they were built, as long as the heap does not have to
  grow, and the stack returns what was pushed.
\<close>

subsection \<open>Terms on the heap\<close>

lemma alloc_heap_fits:
  assumes "proc_inv m" "procs m p = Some pr"
    "unat (heap_top pr) + unat n \<le> unat (heap_capacity pr)"
  shows "beam_process_alloc_heap p n m =
    Some (heap pr + 8 * heap_top pr, put_proc p (pr\<lparr>heap_top := heap_top pr + n\<rparr>) m)"
proof -
  have "unat (heap_top pr + n) = unat (heap_top pr) + unat n"
    using assms(3) by (rule unat_add_le)
  then have "\<not> heap_capacity pr < heap_top pr + n"
    using assms(3) by (simp add: word_less_nat_alt)
  with proc_invD(4) [OF assms(1,2)] assms(2) show ?thesis
    by (simp add: beam_process_alloc_heap_def)
qed

lemma slot_inj:
  assumes "machine_ok m" "heap_ok m pr" "j < heap_capacity pr" "k < heap_capacity pr"
  shows "heap pr + 8 * j = heap pr + 8 * k \<longleftrightarrow> j = k"
  using heap_slot(2) [OF assms(1,2,3)] heap_slot(2) [OF assms(1,2,4)]
  by (metis add_left_cancel mult_left_cancel unsigned_word_eqI zero_neq_numeral)

lemma wr_list_slots:
  assumes "machine_ok m" "heap_ok m pr" "unat k + length vs \<le> unat (heap_capacity pr)"
  shows "\<exists>w'. wr_list (heap pr + 8 * k) vs m = Some (m\<lparr>words := w'\<rparr>) \<and>
    (\<forall>j < length vs. w' (heap pr + 8 * (k + of_nat j)) = vs ! j) \<and>
    (\<forall>i < heap_capacity pr. i < k \<or> unat k + length vs \<le> unat i \<longrightarrow> w' (heap pr + 8 * i) = words m (heap pr + 8 * i))"
  using assms
proof (induction vs arbitrary: k m)
  case Nil
  then show ?case by (auto intro: exI [of _ "words m"])
next
  case (Cons v vs)
  have k: "k < heap_capacity pr" using Cons.prems(3) by (simp add: word_less_nat_alt)
  have k1: "unat (k + 1) = unat k + 1"
    using Cons.prems(3) by (intro unat_add_1 [of _ "heap_capacity pr"]) simp
  let ?m = "m\<lparr>words := (words m)(heap pr + 8 * k := v)\<rparr>"
  have wr: "wr (heap pr + 8 * k) v m = Some ?m"
    using heap_slot(1) [OF Cons.prems(1,2) k] by (simp add: wr_def)
  have ok: "machine_ok ?m" "heap_ok ?m pr"
    using Cons.prems(1,2) by (simp_all add: heap_ok_def machine_ok_cong [of ?m m])
  have len: "unat (k + 1) + length vs \<le> unat (heap_capacity pr)" using Cons.prems(3) k1 by simp
  obtain w' where w': "wr_list (heap pr + 8 * (k + 1)) vs ?m = Some (?m\<lparr>words := w'\<rparr>)"
    "\<forall>j < length vs. w' (heap pr + 8 * (k + 1 + of_nat j)) = vs ! j"
    "\<forall>i < heap_capacity pr. i < k + 1 \<or> unat (k + 1) + length vs \<le> unat i \<longrightarrow>
      w' (heap pr + 8 * i) = words ?m (heap pr + 8 * i)"
    using Cons.IH [OF ok len] by blast
  have "k < k + 1" using k1 by (simp add: word_less_nat_alt)
  then have wk: "w' (heap pr + 8 * k) = v" using w'(3) k by simp
  have other: "w' (heap pr + 8 * i) = words m (heap pr + 8 * i)"
    if "i < heap_capacity pr" "i < k \<or> unat k + length (v # vs) \<le> unat i" for i
  proof -
    have "i \<noteq> k" using that(2) by auto
    moreover have "i < k + 1 \<or> unat (k + 1) + length vs \<le> unat i"
      using that(2) k1 by (auto simp: word_less_nat_alt)
    ultimately show ?thesis
      using w'(3) [rule_format, OF that(1)] slot_inj [OF Cons.prems(1,2) that(1) k] by auto
  qed
  have "\<forall>j < length (v # vs). w' (heap pr + 8 * (k + of_nat j)) = (v # vs) ! j"
  proof (intro allI impI)
    fix j assume "j < length (v # vs)"
    with wk w'(2) show "w' (heap pr + 8 * (k + of_nat j)) = (v # vs) ! j"
      by (cases j) (auto simp: algebra_simps)
  qed
  with w'(1) wr other show ?case
    by (intro exI [of _ w']) (simp add: algebra_simps)
qed


lemma proc_inv_heap_top:
  assumes "proc_inv m" "procs m p = Some pr"
  shows "proc_inv (put_proc p (pr\<lparr>heap_top := k\<rparr>) m)"
  using proc_invD(3) [OF assms] by (intro proc_inv_put [OF assms]) (simp_all add: frame_ok_def)

lemma heap_aligned: "machine_ok m \<Longrightarrow> heap_ok m pr \<Longrightarrow> aligned8 (heap pr + 8 * k)"
  by (auto simp: heap_ok_def machine_ok_def block_ok_def intro!: aligned8_add)

text \<open>A term cell: consecutive words written at the heap top.\<close>

lemma write_cell:
  assumes inv: "proc_inv m" and pr: "procs m p = Some pr"
    and fits: "unat (heap_top pr) + length vs \<le> unat (heap_capacity pr)" and ne: "vs \<noteq> []"
  defines "hp \<equiv> heap pr + 8 * heap_top pr"
  defines "m1 \<equiv> put_proc p (pr\<lparr>heap_top := heap_top pr + of_nat (length vs)\<rparr>) m"
  shows "beam_process_alloc_heap p (of_nat (length vs)) m = Some (hp, m1)" "hp \<noteq> 0" "aligned8 hp"
    and "\<exists>m'. wr_list hp vs m1 = Some m' \<and> proc_inv m' \<and>
      (\<forall>j < length vs. rd m' (hp + 8 * of_nat j) = Some (vs ! j))"
proof -
  note D = proc_invD [OF inv pr]
  have len: "unat (of_nat (length vs) :: size_t) = length vs"
    using order_le_less_trans [OF fits unsigned_less] by (intro unat_of_nat_small) simp
  show "beam_process_alloc_heap p (of_nat (length vs)) m = Some (hp, m1)"
    using alloc_heap_fits [OF inv pr, of "of_nat (length vs)"] fits len by (simp add: hp_def m1_def)
  have top: "heap_top pr < heap_capacity pr"
    using fits ne by (cases vs) (simp_all add: word_less_nat_alt)
  have "0 < unat (heap pr)" using D(2) by (simp add: heap_ok_def unat_gt_0)
  then have "unat hp \<noteq> 0" using heap_slot(2) [OF D(7,2) top] by (simp add: hp_def)
  then show "hp \<noteq> 0" by auto
  show "aligned8 hp" using heap_aligned [OF D(7,2)] by (simp add: hp_def)
  have m1: "machine_ok m1" "heap_ok m1 pr" "proc_inv m1"
    using D(7,2) proc_inv_heap_top [OF inv pr]
    by (simp_all add: m1_def put_proc_def heap_ok_def machine_ok_cong [of "m\<lparr>procs := _\<rparr>" m])
  obtain w where w: "wr_list hp vs m1 = Some (m1\<lparr>words := w\<rparr>)"
    "\<forall>j < length vs. w (heap pr + 8 * (heap_top pr + of_nat j)) = vs ! j"
    using wr_list_slots [OF m1(1,2) fits] by (auto simp: hp_def)
  have "accessible m1 (heap pr + 8 * (heap_top pr + of_nat j))" if "j < length vs" for j
  proof (rule heap_slot(1) [OF m1(1,2)])
    have j: "unat (of_nat j :: size_t) = j"
      using that order_le_less_trans [OF fits unsigned_less] by (intro unat_of_nat_small) simp
    then have "unat (heap_top pr + of_nat j) = unat (heap_top pr) + j"
      using that fits by (subst unat_add_le [of _ _ "heap_capacity pr"]) simp_all
    then show "heap_top pr + of_nat j < heap_capacity pr"
      using that fits by (simp add: word_less_nat_alt)
  qed
  with w m1(3) show "\<exists>m'. wr_list hp vs m1 = Some m' \<and> proc_inv m' \<and>
      (\<forall>j < length vs. rd m' (hp + 8 * of_nat j) = Some (vs ! j))"
    by (auto simp: hp_def algebra_simps)
qed

text \<open>
  A list cell built by \<^verbatim>\<open>beam_make_list\<close> on a heap with room for it is a list, and its head
  and tail read back as the two terms it was built from.
\<close>

theorem list_cell_roundtrip:
  assumes "proc_inv m" "procs m p = Some pr" "unat (heap_top pr) + 2 \<le> unat (heap_capacity pr)"
  shows "\<exists>c m'. beam_make_list p h t m = Some (c, m') \<and> proc_inv m' \<and> beam_is_list c \<and>
    beam_list_head m' c = Some h \<and> beam_list_tail m' c = Some t"
proof -
  let ?hp = "heap pr + 8 * heap_top pr"
  note C = write_cell [OF assms(1,2), of "[h, t]"]
  obtain m' where m': "wr_list ?hp [h, t] (put_proc p (pr\<lparr>heap_top := heap_top pr + 2\<rparr>) m) = Some m'"
    "proc_inv m'" "\<forall>j < 2. rd m' (?hp + 8 * of_nat j) = Some ([h, t] ! j)"
    using C(4) assms(3) by auto
  have "beam_make_list p h t m = Some (?hp OR TAG_PRIMARY_LIST, m')"
    using C(1,2) assms(3) m'(1) proc_invD(4) [OF assms(1,2)] by (simp add: beam_make_list_def bind_eq_Some_conv)
  moreover have "rd m' ?hp = Some h" "rd m' (?hp + 8) = Some t"
    using m'(3) [rule_format, of 0] m'(3) [rule_format, of 1] by simp_all
  moreover have hp: "aligned8 ?hp" using C(3) assms(3) by simp
  ultimately show ?thesis
    using m'(2) list_reads(1) [OF hp] list_reads(2,3) [OF hp, of m'] by (simp add: rd_def)
qed

theorem list_cell_roundtrip_witness:
  "\<exists>c m'. beam_make_list 0x10000 47 ETERM_NIL proc_demo = Some (c, m') \<and> proc_inv m' \<and> beam_is_list c \<and>
    beam_list_head m' c = Some 47 \<and> beam_list_tail m' c = Some ETERM_NIL"
  by (rule list_cell_roundtrip [OF proc_inv_demo proc_demo_at]) simp

lemma tuple_header:
  assumes "n < 2 ^ 58"
  shows "(push_bit 6 n OR SUBTAG_TUPLE) AND 0x3F = 0" "drop_bit 6 (push_bit 6 n OR SUBTAG_TUPLE) = (n :: eterm)"
proof -
  have "(push_bit 6 n) AND mask 6 = 0" by (rule bit_word_eqI) (auto simp: bit_simps)
  then show "(push_bit 6 n OR SUBTAG_TUPLE) AND 0x3F = 0" by (simp add: SUBTAG_TUPLE_def masks64)
  have "unat (take_bit 58 n) = unat n"
    using assms by (simp only: unsigned_take_bit_eq) (simp add: take_bit_nat_eq_self word_less_nat_alt)
  then have n: "take_bit 58 n = n" by (rule unsigned_word_eqI)
  have "drop_bit 6 (push_bit 6 n) = take_bit 58 n" by (rule bit_word_eqI) (auto simp: bit_simps)
  with n show "drop_bit 6 (push_bit 6 n OR SUBTAG_TUPLE) = n" by (simp add: SUBTAG_TUPLE_def)
qed

text \<open>
  C31: a tuple built by \<^verbatim>\<open>beam_make_tuple\<close> on a heap with room for it is recognised as a tuple,
  has the arity it was built with, and every element reads back as given.
\<close>

theorem tuple_roundtrip:
  assumes "proc_inv m" "procs m p = Some pr" "length es < 2 ^ 58"
    "unat (heap_top pr) + length es + 1 \<le> unat (heap_capacity pr)"
  shows "\<exists>t m'. beam_make_tuple p (of_nat (length es)) (Some es) m = Some (t, m') \<and> proc_inv m' \<and>
    beam_is_tuple m' t = Some True \<and> beam_tuple_arity m' t = Some (of_nat (length es)) \<and>
    (\<forall>i < length es. beam_tuple_element m' t (of_nat i) = Some (es ! i))"
proof -
  let ?n = "of_nat (length es) :: size_t" and ?hp = "heap pr + 8 * heap_top pr"
  let ?vs = "(push_bit 6 ?n OR SUBTAG_TUPLE) # es"
  have n: "unat ?n = length es" using assms(3) by (intro unat_of_nat_small) simp
  then have hdr: "?n < 2 ^ 58" using assms(3) by (simp add: word_less_nat_alt)
  note C = write_cell [OF assms(1,2), of ?vs]
  obtain m' where m': "wr_list ?hp ?vs (put_proc p (pr\<lparr>heap_top := heap_top pr + (?n + 1)\<rparr>) m) = Some m'"
    "proc_inv m'" "\<forall>j < length ?vs. rd m' (?hp + 8 * of_nat j) = Some (?vs ! j)"
    using C(4) assms(4) by (auto simp: algebra_simps)
  have words: "tuple_words ?n (Some es) = Some es"
    using n by (cases es) (simp_all add: tuple_words_def word_less_nat_alt)
  have run: "beam_make_tuple p ?n (Some es) m = Some (?hp OR TAG_PRIMARY_BOXED, m')"
    using C(1,2) assms(4) m'(1) words proc_invD(4) [OF assms(1,2)]
    by (simp add: beam_make_tuple_def bind_eq_Some_conv algebra_simps)
  have hd: "accessible m' ?hp" "words m' ?hp = push_bit 6 ?n OR SUBTAG_TUPLE"
    using m'(3) [rule_format, of 0] by simp_all
  have hp: "?hp \<noteq> 0" "aligned8 ?hp" using C(2,3) assms(4) by simp_all
  note R = tuple_reads [OF hp(2,1) hd(1), unfolded hd(2)]
  have "rd m' (?hp + 8 * (of_nat i + 1)) = Some (es ! i)" if "i < length es" for i
    using m'(3) [rule_format, of "Suc i"] that by (simp add: algebra_simps)
  with run m'(2) R tuple_header [OF hdr] show ?thesis by simp
qed

theorem tuple_roundtrip_witness:
  "\<exists>t m'. beam_make_tuple 0x10000 2 (Some [31, 47]) proc_demo = Some (t, m') \<and> proc_inv m' \<and>
    beam_is_tuple m' t = Some True \<and> beam_tuple_arity m' t = Some 2 \<and>
    beam_tuple_element m' t 0 = Some 31 \<and> beam_tuple_element m' t 1 = Some 47"
  using tuple_roundtrip [OF proc_inv_demo proc_demo_at, of "[31, 47]"] by (auto simp: All_less_Suc)

text \<open>
  A push followed by a pop returns the pushed term and restores the control block, as long as
  the stack has not met the heap.
\<close>

theorem stack_push_pop:
  assumes "proc_inv m" "procs m p = Some pr" "heap_top pr < stack_top pr"
  shows "\<exists>m1 m2. beam_process_stack_push p t m = Some (BEAM_OK, m1) \<and>
    beam_process_stack_pop p True m1 = Some (BEAM_OK, Some t, m2) \<and> procs m2 = procs m"
proof -
  note D = proc_invD [OF assms(1,2)]
  let ?pr = "pr\<lparr>stack_top := stack_top pr - 1\<rparr>"
  let ?m = "(put_proc p ?pr m)\<lparr>words := (words m)(heap pr + 8 * (stack_top pr - 1) := t)\<rparr>"
  have pred: "stack_top pr - 1 < heap_capacity pr"
    using word_pred_le [OF assms(3)] D(3) by (simp add: frame_ok_def)
  have push: "beam_process_stack_push p t m = Some (BEAM_OK, ?m)"
    using push_run [OF assms(1,2)] assms(3) by (simp add: not_le)
  then have "proc_inv ?m" using push_inv [OF assms(1,2), of t] by simp
  moreover have "procs ?m p = Some ?pr" by simp
  ultimately have "beam_process_stack_pop p True ?m =
      Some (BEAM_OK, Some t, put_proc p (?pr\<lparr>stack_top := stack_top pr\<rparr>) ?m)"
    using pop_run [of ?m p ?pr] pred by (simp add: not_le)
  with push assms(2) show ?thesis by (auto simp: fun_upd_idem)
qed

theorem stack_push_pop_witness:
  "\<exists>m1 m2. beam_process_stack_push 0x10000 47 proc_demo = Some (BEAM_OK, m1) \<and>
    beam_process_stack_pop 0x10000 True m1 = Some (BEAM_OK, Some 47, m2) \<and> procs m2 = procs proc_demo"
  by (rule stack_push_pop [OF proc_inv_demo proc_demo_at]) simp

text \<open>
  The heap allocator compares the heap top with the capacity and not with the stack top. In a
  process of 64 words with one word on the stack, 62 words and a list cell of two more are allocated
  without complaint, and the tail of the cell replaces the word on the stack.
\<close>

theorem heap_overwrites_stack:
  "(do { (r1, m1) \<leftarrow> beam_process_stack_push 0x10000 47 proc_demo;
         (hp1, m2) \<leftarrow> beam_process_alloc_heap 0x10000 62 m1;
         (c, m3) \<leftarrow> beam_make_list 0x10000 31 63 m2;
         (r2, v, m4) \<leftarrow> beam_process_stack_pop 0x10000 True m3;
         Some (r1, hp1, r2, v) }) = Some (BEAM_OK, 0x20000, BEAM_OK, Some 63)"
  by (simp add: proc_demo_def proc_start_def sys_vt_def beam_defs Let_def)

end
