(* ===== verification/Emu_Properties.thy ===== *)
theory Emu_Properties
  imports Emu_Safety Process_Terms
begin

text \<open>
  What running bytecode means for the process that runs it: where the interpreter leaves the saved
  instruction pointer, that stack frames and exception handlers nest, and that integer addition is
  exact up to the width of a small integer.
\<close>

subsection \<open>Code for examples\<close>

definition instr :: "u32 \<Rightarrow> u32 \<Rightarrow> u32 \<Rightarrow> u32 \<Rightarrow> eterm \<Rightarrow> beam_instruction" where
  "instr oc a b c l = \<lparr>opcode = oc, arg1 = a, arg2 = b, arg3 = c, literal = l, target_proc = 0,
     extra_args = None, extra_count = 0\<rparr>"

text \<open>Move 40 and 2 into registers, add them, halt.\<close>

definition add_code :: "beam_instruction list" where
  "add_code = [instr 2 0 0 0 (make_small_int 40), instr 2 0 1 0 (make_small_int 2), instr 3 0 1 0 0, instr 34 0 0 0 0]"

subsection \<open>The saved instruction pointer\<close>

lemma emu_loop_ip:
  assumes "emu_loop p code ip m = Some (r, v, m')" "procs m p = Some pr" "p \<noteq> 0"
  shows "\<exists>pr'. procs m' = (procs m)(p \<mapsto> pr') \<and> pid pr' = pid pr \<and> priority pr' = priority pr \<and>
    mailbox pr' = mailbox pr \<and> proc_alloc pr' = proc_alloc pr \<and>
    (frame_ip (frame pr') = frame_ip (frame pr) \<or> proc_state pr' = BEAM_PROC_STATE_WAITING \<or>
     proc_state pr' = proc_state pr \<and> length code \<le> unat (frame_ip (frame pr')))"
  using assms
proof (induction p code ip m arbitrary: pr rule: emu_loop.induct)
  case (1 p code ip m)
  show ?case
  proof (cases "unat ip < length code")
    case True
    then obtain c m1 where m1: "emu_step p code ip m = Some (c, m1)"
      using 1(3) by (cases "emu_step p code ip m") (auto simp: emu_loop_run(4))
    obtain pr1 where pr1: "procs m1 = (procs m)(p \<mapsto> pr1)" "kept c (pr\<lparr>reductions := reductions pr - 1\<rparr>) pr1"
      using emu_step_procs(1) [OF m1 1(4,5)] by blast
    have p1: "procs m1 p = Some pr1" using pr1(1) by simp
    show ?thesis
    proof (cases c)
      case Next
      have "emu_loop p code (ip + 1) m1 = Some (r, v, m')"
        using 1(3) emu_loop_run(1) [OF True m1 [unfolded Next]] by simp
      then obtain pr' where pr': "procs m' = (procs m1)(p \<mapsto> pr')" "pid pr' = pid pr1"
        "priority pr' = priority pr1" "mailbox pr' = mailbox pr1" "proc_alloc pr' = proc_alloc pr1"
        "frame_ip (frame pr') = frame_ip (frame pr1) \<or> proc_state pr' = BEAM_PROC_STATE_WAITING \<or>
         proc_state pr' = proc_state pr1 \<and> length code \<le> unat (frame_ip (frame pr'))"
        using 1(1) [OF True m1 refl Next _ p1 1(5)] by blast
      have "procs m' = (procs m)(p \<mapsto> pr')" using pr'(1) pr1(1) by simp
      with pr'(2-6) pr1(2) Next show ?thesis by (intro exI [of _ pr']) (simp add: kept_def)
    next
      case (Goto j)
      have "emu_loop p code j m1 = Some (r, v, m')"
        using 1(3) emu_loop_run(2) [OF True m1 [unfolded Goto]] by simp
      then obtain pr' where pr': "procs m' = (procs m1)(p \<mapsto> pr')" "pid pr' = pid pr1"
        "priority pr' = priority pr1" "mailbox pr' = mailbox pr1" "proc_alloc pr' = proc_alloc pr1"
        "frame_ip (frame pr') = frame_ip (frame pr1) \<or> proc_state pr' = BEAM_PROC_STATE_WAITING \<or>
         proc_state pr' = proc_state pr1 \<and> length code \<le> unat (frame_ip (frame pr'))"
        using 1(2) [OF True m1 refl Goto _ p1 1(5)] by blast
      have "procs m' = (procs m)(p \<mapsto> pr')" using pr'(1) pr1(1) by simp
      with pr'(2-6) pr1(2) Goto show ?thesis by (intro exI [of _ pr']) (simp add: kept_def)
    next
      case (Return r' v')
      have "m' = m1" using 1(3) emu_loop_run(3) [OF True m1 [unfolded Return]] by simp
      with pr1 Return show ?thesis by (auto simp: kept_def)
    qed
  next
    case False
    then have "\<exists>w. get_x 0 pr = Some w \<and> m' = put_proc p (pr\<lparr>frame := (frame pr)\<lparr>frame_ip := ip\<rparr>\<rparr>) m"
      using 1(3,4) by (subst (asm) emu_loop.simps) (auto simp: bind_eq_Some_conv)
    with False show ?thesis by auto
  qed
qed

lemma execute_ip:
  assumes "beam_emu_execute_code p (Some code) out m = Some (r, v, m')" "procs m p = Some pr" "code \<noteq> []" "p \<noteq> 0"
  shows "\<exists>pr'. procs m' = (procs m)(p \<mapsto> pr') \<and> pid pr' = pid pr \<and> priority pr' = priority pr \<and>
    mailbox pr' = mailbox pr \<and> proc_alloc pr' = proc_alloc pr \<and>
    (frame_ip (frame pr') = frame_ip (frame pr) \<or> proc_state pr' = BEAM_PROC_STATE_WAITING \<or>
     proc_state pr' = proc_state pr \<and> length code \<le> unat (frame_ip (frame pr')))"
proof -
  let ?pr = "if cp (frame pr) = 0 \<and> frame_ip (frame pr) = 0 then set_cp (of_nat (length code)) pr else pr"
  obtain w where run: "emu_loop p code (frame_ip (frame pr)) (put_proc p ?pr m) = Some (r, w, m')"
    using assms by (auto simp: beam_emu_execute_code_def Let_def bind_eq_Some_conv)
  have "pid ?pr = pid pr \<and> priority ?pr = priority pr \<and> mailbox ?pr = mailbox pr \<and>
      proc_alloc ?pr = proc_alloc pr \<and> frame_ip (frame ?pr) = frame_ip (frame pr) \<and> proc_state ?pr = proc_state pr"
    by (simp add: set_cp_def)
  with emu_loop_ip [OF run, of ?pr] assms(4) show ?thesis by (simp del: if_split)
qed

subsection \<open>Frames\<close>

lemma push_zeros_run:
  assumes "proc_inv m" "procs m p = Some pr" "unat (heap_top pr) + n \<le> unat (stack_top pr)"
  shows "\<exists>w. push_zeros n p m = Some (BEAM_OK, (put_proc p (pr\<lparr>stack_top := stack_top pr - of_nat n\<rparr>) m)\<lparr>words := w\<rparr>) \<and>
    (\<forall>i < heap_capacity pr. stack_top pr \<le> i \<longrightarrow> w (heap pr + 8 * i) = words m (heap pr + 8 * i))"
  using assms
proof (induction n arbitrary: m pr)
  case 0
  then show ?case by (auto simp: put_proc_def fun_upd_idem intro!: exI [of _ "words m"])
next
  case (Suc n)
  note D = proc_invD [OF Suc.prems(1,2)]
  have lt: "heap_top pr < stack_top pr" using Suc.prems(3) by (simp add: word_less_nat_alt)
  have cap: "stack_top pr - 1 < heap_capacity pr" "stack_top pr - 1 < stack_top pr"
    using word_pred_le [OF lt, of "heap_capacity pr"] D(3) by (simp_all add: frame_ok_def)
  let ?pr = "pr\<lparr>stack_top := stack_top pr - 1\<rparr>"
  let ?m = "(put_proc p ?pr m)\<lparr>words := (words m)(heap pr + 8 * (stack_top pr - 1) := 0)\<rparr>"
  have push: "beam_process_stack_push p 0 m = Some (BEAM_OK, ?m)"
    using push_run [OF Suc.prems(1,2)] lt by (simp add: not_le)
  have inv: "proc_inv ?m" using push_inv [OF Suc.prems(1,2), of 0] push by simp
  have "unat (stack_top pr - 1) = unat (stack_top pr) - 1"
    using lt by (metis unat_minus_one word_not_simps(1))
  then have pre: "unat (heap_top ?pr) + n \<le> unat (stack_top ?pr)" using Suc.prems(3) by simp
  obtain w where w: "push_zeros n p ?m = Some (BEAM_OK, (put_proc p (?pr\<lparr>stack_top := stack_top ?pr - of_nat n\<rparr>) ?m)\<lparr>words := w\<rparr>)"
    "\<forall>i < heap_capacity ?pr. stack_top ?pr \<le> i \<longrightarrow> w (heap ?pr + 8 * i) = words ?m (heap ?pr + 8 * i)"
    using Suc.IH [OF inv _ pre] by auto
  have "w (heap pr + 8 * i) = words m (heap pr + 8 * i)" if i: "i < heap_capacity pr" "stack_top pr \<le> i" for i
  proof -
    have "stack_top pr - 1 \<le> i" "i \<noteq> stack_top pr - 1" using cap(2) i(2) by auto
    then show ?thesis using w(2) i(1) slot_inj [OF D(7,2) i(1) cap(1)] by simp
  qed
  with push w(1) show ?case
    by (intro exI [of _ w]) (simp add: put_proc_def algebra_simps)
qed

lemma pop_words_run:
  assumes "proc_inv m" "procs m p = Some pr" "unat (stack_top pr) + n \<le> unat (heap_capacity pr)"
  shows "pop_words n p m = Some (BEAM_OK, put_proc p (pr\<lparr>stack_top := stack_top pr + of_nat n\<rparr>) m)"
  using assms
proof (induction n arbitrary: m pr)
  case 0
  then show ?case by (simp add: put_proc_def fun_upd_idem)
next
  case (Suc n)
  let ?pr = "pr\<lparr>stack_top := stack_top pr + 1\<rparr>"
  have lt: "\<not> heap_capacity pr \<le> stack_top pr" using Suc.prems(3) by (simp add: word_le_nat_alt)
  have pop: "beam_process_stack_pop p True m =
      Some (BEAM_OK, Some (words m (heap pr + 8 * stack_top pr)), put_proc p ?pr m)"
    using pop_run [OF Suc.prems(1,2)] lt by simp
  have inv: "proc_inv (put_proc p ?pr m)" using pop_inv [OF Suc.prems(1,2)] pop by simp
  have "unat (stack_top pr + 1) = unat (stack_top pr) + 1"
    using Suc.prems(3) by (intro unat_add_1 [of _ "heap_capacity pr"]) simp
  then have pre: "unat (stack_top ?pr) + n \<le> unat (heap_capacity ?pr)" using Suc.prems(3) by simp
  have "pop_words n p (put_proc p ?pr m) = Some (BEAM_OK, put_proc p (?pr\<lparr>stack_top := stack_top ?pr + of_nat n\<rparr>) (put_proc p ?pr m))"
    using Suc.IH [OF inv _ pre] by simp
  with pop show ?case by (simp add: put_proc_def algebra_simps)
qed

lemma allocate_deallocate_run:
  assumes inv: "proc_inv m" and pr: "procs m p = Some pr"
    and room: "unat (heap_top pr) + unat (arg1 i) < unat (stack_top pr)" and same: "arg1 j = arg1 i"
  shows "\<exists>m1 m2. op_allocate i p pr m = Some (Next, m1) \<and> op_deallocate j p m1 = Some (Next, m2) \<and>
    procs m2 = procs m \<and> proc_inv m2"
proof -
  note D = proc_invD [OF inv pr]
  let ?n = "unat (arg1 i)" and ?top = "stack_top pr - 1" and ?c = "ucast (cp (frame pr)) :: eterm"
  have lt: "heap_top pr < stack_top pr" using room by (simp add: word_less_nat_alt)
  then have ne: "stack_top pr \<noteq> 0" by auto
  have cap: "?top < heap_capacity pr" "unat ?top = unat (stack_top pr) - 1"
    using word_pred_le [OF lt, of "heap_capacity pr"] D(3) unat_minus_one [OF ne]
    by (simp_all add: frame_ok_def)
  let ?pr1 = "pr\<lparr>stack_top := ?top\<rparr>"
  let ?m1 = "(put_proc p ?pr1 m)\<lparr>words := (words m)(heap pr + 8 * ?top := ?c)\<rparr>"
  have push: "beam_process_stack_push p ?c m = Some (BEAM_OK, ?m1)"
    using push_run [OF inv pr] lt by (simp add: not_le)
  have inv1: "proc_inv ?m1" using push_inv [OF inv pr, of ?c] push by simp
  have pre: "unat (heap_top ?pr1) + ?n \<le> unat (stack_top ?pr1)" using room cap(2) by simp
  have p1: "procs ?m1 p = Some ?pr1" by simp
  let ?pr2 = "pr\<lparr>stack_top := ?top - of_nat ?n\<rparr>"
  obtain w where w: "push_zeros ?n p ?m1 = Some (BEAM_OK, (put_proc p ?pr2 ?m1)\<lparr>words := w\<rparr>)"
    "w (heap pr + 8 * ?top) = ?c"
    using push_zeros_run [OF inv1 p1 pre] cap(1) by auto
  define m2 where "m2 = (put_proc p ?pr2 ?m1)\<lparr>words := w\<rparr>"
  have inv2: "proc_inv m2" using push_zeros_inv [OF inv1, of p ?pr1 ?n] w(1) by (simp add: m2_def)
  have pr2: "procs m2 p = Some ?pr2" by (simp add: m2_def)
  have alloc: "op_allocate i p pr m = Some (Next, m2)"
    using push w(1) by (simp add: op_allocate_def m2_def)
  have small: "unat (ucast (arg1 i) :: 64 word) = ?n" by (simp only: nat_uint_eq [symmetric] uint_up_ucast is_up) (simp add: uint_up_ucast is_up)
  have top2: "unat (stack_top ?pr2) = unat ?top - ?n" "stack_top ?pr2 + of_nat ?n = ?top"
    using pre cap(2) small by (simp_all add: unat_sub word_le_nat_alt)
  have pre2: "unat (stack_top ?pr2) + ?n \<le> unat (heap_capacity ?pr2)"
    using top2(1) pre cap(1) by (simp add: word_less_nat_alt)
  have pop: "pop_words ?n p m2 = Some (BEAM_OK, put_proc p ?pr1 m2)"
    using pop_words_run [OF inv2 pr2 pre2] top2(2) by simp
  have inv3: "proc_inv (put_proc p ?pr1 m2)" using pop_words_inv [OF inv2 pr2, of ?n] pop by simp
  have "beam_process_stack_pop p True (put_proc p ?pr1 m2) =
      Some (BEAM_OK, Some ?c, put_proc p pr (put_proc p ?pr1 m2))"
    using pop_run [OF inv3, of p ?pr1] cap(1) w(2) by (simp add: not_le m2_def put_proc_def)
  moreover have "(ucast ?c :: u32) = cp (frame pr)" by (rule bit_word_eqI) (auto simp: bit_simps)
  then have "set_cp (ucast ?c) pr = pr" by (simp add: set_cp_def)
  ultimately have "pop_frame ?n p m2 = Some (BEAM_OK, put_proc p pr (put_proc p ?pr1 m2))"
    using pop by (simp add: pop_frame_def put_proc_def)
  moreover have "procs (put_proc p pr (put_proc p ?pr1 m2)) = procs m"
    using pr by (simp add: m2_def fun_upd_idem)
  moreover from calculation pop_frame_inv [OF inv2 pr2, of ?n] have "proc_inv (put_proc p pr (put_proc p ?pr1 m2))" by simp
  ultimately show ?thesis using alloc same by (simp add: op_deallocate_def)
qed

lemma try_raise_run:
  fixes m :: "'a proc_machine_scheme"
  assumes "proc_inv m" "procs m p = Some pr" "catch_depth (frame pr) < BEAM_MAX_CATCH_DEPTH"
    "reg_ok (arg1 j)"
  shows "\<exists>m1 pr1. op_try i p pr m = Some (Next, m1) \<and> procs m1 p = Some pr1 \<and>
    (\<forall>(m2 :: 'a proc_machine_scheme) pr2. procs m2 p = Some pr2 \<longrightarrow> catch_stack (frame pr2) = catch_stack (frame pr1) \<longrightarrow>
      catch_depth (frame pr2) = catch_depth (frame pr1) \<longrightarrow> length (x_regs (frame pr2)) = BEAM_NUM_X_REGISTERS \<longrightarrow>
      (\<exists>pr3. op_raise j p pr2 code ip m2 = Some (Goto (jump_to_label code (ucast (arg1 i)) ip), put_proc p pr3 m2) \<and>
        stack_top pr3 = stack_top pr \<and> catch_depth (frame pr3) = catch_depth (frame pr) \<and>
        get_x 0 pr3 = get_x (arg1 j) pr2))"
proof -
  note D = proc_invD [OF assms(1,2)]
  have len: "length (catch_stack (frame pr)) = BEAM_MAX_CATCH_DEPTH" using D(3) by (simp add: frame_ok_def)
  show ?thesis
    using assms(3,4) len
    by (auto simp: op_try_def op_raise_def Let_def set_x_def get_x_def arg_at_def reg_ok_def
        BEAM_NUM_X_REGISTERS_def)
qed
subsection \<open>Arithmetic\<close>

lemma sum_of_smalls:
  assumes "small_range a" "small_range b"
  shows "signed64 (sint a + sint b) = Some (a + b)" "sint (a + b) = sint a + sint b"
proof -
  have "- (2 ^ 63) \<le> sint a + sint b \<and> sint a + sint b < 2 ^ 63"
    using assms by (auto simp: small_range_def)
  then show "signed64 (sint a + sint b) = Some (a + b)" by (simp add: signed64_def)
  show "sint (a + b) = sint a + sint b"
    using assms by (simp add: sint_word_add small_range_def signed_take_bit_int_eq_self)
qed

lemma add_run_eq:
  assumes "procs m p = Some pr" "frame_ok pr" "opcode i = 3"
    "reg_ok (arg1 i)" "reg_ok (arg2 i)" "reg_ok (arg3 i)" "get_x (arg1 i) pr = Some a" "get_x (arg2 i) pr = Some b"
  shows "\<exists>pr' c. exec_instr i p code ip m = Some (Next, put_proc p pr' m) \<and> get_x (arg3 i) pr' = Some c \<and>
    beam_is_small_int c \<and>
    sint (eterm_to_small_int c) = signed_take_bit 59 (sint (eterm_to_small_int a) + sint (eterm_to_small_int b))"
proof -
  let ?a = "eterm_to_small_int a" and ?b = "eterm_to_small_int b"
  note S = sum_of_smalls [OF small_range_eterm_to_small_int small_range_eterm_to_small_int]
  have len: "length (x_regs (frame pr)) = BEAM_NUM_X_REGISTERS" using assms(2) by (simp add: frame_ok_def)
  have reg: "unat (arg3 i) < length (x_regs (frame pr))" using assms(6) len by (simp add: reg_ok_def)
  have oc: "opcode_of (opcode i) = Some BEAM_OP_ADD"
    by (simp add: assms(3) opcode_of_def beam_opcodes_def)
  have "sint (eterm_to_small_int (make_small_int (?a + ?b))) = signed_take_bit 59 (sint ?a + sint ?b)"
    by (simp add: small_int_wraps sint_signed_take_bit_59 S(2))
  moreover have "exec_instr i p code ip m = Some (Next, put_proc p (pr\<lparr>frame := (frame pr)\<lparr>x_regs :=
      (x_regs (frame pr))[unat (arg3 i) := make_small_int (?a + ?b)]\<rparr>\<rparr>) m)"
    using assms(1,4-8) reg by (simp add: exec_instr_def oc op_add_def arith_def S(1) set_x_def)
  ultimately show ?thesis using reg
    by (intro exI [of _ "pr\<lparr>frame := (frame pr)\<lparr>x_regs :=
      (x_regs (frame pr))[unat (arg3 i) := make_small_int (?a + ?b)]\<rparr>\<rparr>"] exI [of _ "make_small_int (?a + ?b)"])
      (simp add: get_x_def arg_at_def)
qed

subsection \<open>Properties\<close>

text \<open>
  C1: memory safety of the interpreter. Code made of the instructions that check what they use runs
  on a well-formed process until it returns, without undefined behaviour, whatever the allocators
  answer, and leaves a well-formed state with the same processes.
\<close>

theorem emulator_safe:
  assumes "proc_inv m" "procs m p = Some pr" "- (2 ^ 31) < reductions pr" "reductions pr < 2 ^ 31"
    "safe_code (dom (procs m)) code"
  shows "\<exists>r v m'. beam_emu_execute_code p (Some code) out m = Some (r, v, m') \<and> proc_inv m' \<and>
    dom (procs m') = dom (procs m)"
  using assms by (rule execute_inv)

theorem emulator_safe_witness:
  "\<exists>r v m'. beam_emu_execute_code 0x10000 (Some add_code) True proc_demo = Some (r, v, m') \<and> proc_inv m' \<and>
    dom (procs m') = {0x10000}"
proof -
  have "safe_code (dom (procs proc_demo)) add_code"
    by (simp add: safe_code_def safe_instr_def add_code_def instr_def opcode_of_def beam_opcodes_def)
  from emulator_safe [OF proc_inv_demo proc_demo_at _ _ this, of True] show ?thesis
    by (simp add: proc_demo_run(2))
qed

text \<open>
  C36: a process that is preempted because its reductions are used up keeps the instruction pointer
  it was started with. The interpreter saves its position only when it waits for a message or runs
  off the end of the code, so the next run starts over.
\<close>

theorem preemption_loses_position:
  assumes "beam_emu_execute_code p (Some code) out m = Some (r, v, m')" "procs m p = Some pr"
    "code \<noteq> []" "p \<noteq> 0" "proc_state pr = BEAM_PROC_STATE_RUNNING"
    "procs m' p = Some pr'" "proc_state pr' = BEAM_PROC_STATE_RUNNABLE"
  shows "frame_ip (frame pr') = frame_ip (frame pr)"
  using execute_ip [OF assms(1-4)] assms(5-7) by auto

theorem preemption_loses_position_witness:
  "\<exists>r v m' pr'. beam_emu_execute_code 0x10000 (Some add_code) True
      (put_proc 0x10000 (demo_pr\<lparr>reductions := 3, proc_state := BEAM_PROC_STATE_RUNNING\<rparr>) proc_demo) =
      Some (r, v, m') \<and> procs m' 0x10000 = Some pr' \<and> reductions pr' = 0 \<and>
      x_regs (frame pr') ! 1 = make_small_int 2 \<and> frame_ip (frame pr') = 0"
proof -
  let ?pr = "demo_pr\<lparr>reductions := 3, proc_state := BEAM_PROC_STATE_RUNNING\<rparr>"
  obtain r v m' pr' where run: "beam_emu_execute_code 0x10000 (Some add_code) True (put_proc 0x10000 ?pr proc_demo) =
      Some (r, v, m')" "procs m' 0x10000 = Some pr'" "reductions pr' = 0"
      "x_regs (frame pr') ! 1 = make_small_int 2" "proc_state pr' = BEAM_PROC_STATE_RUNNABLE"
    by (simp add: add_code_def instr_def proc_demo_def proc_start_def demo_pr_def sys_vt_def beam_defs Let_def)
  have "frame_ip (frame pr') = frame_ip (frame ?pr)"
    by (rule preemption_loses_position [OF run(1) _ _ _ _ run(2,5)]) (simp_all add: add_code_def)
  with run show ?thesis by (auto simp: initial_frame_def)
qed

text \<open>
  C34: the ADD instruction never overflows. On any two register contents it stores a small integer,
  the sum of the two values reduced to 60 bits with sign, so the sum itself when it fits.
\<close>

theorem add_wraps_at_60_bits:
  assumes "procs m p = Some pr" "frame_ok pr" "opcode i = 3"
    "reg_ok (arg1 i)" "reg_ok (arg2 i)" "reg_ok (arg3 i)" "get_x (arg1 i) pr = Some a" "get_x (arg2 i) pr = Some b"
  shows "\<exists>pr' c. exec_instr i p code ip m = Some (Next, put_proc p pr' m) \<and> get_x (arg3 i) pr' = Some c \<and>
    beam_is_small_int c \<and>
    sint (eterm_to_small_int c) = signed_take_bit 59 (sint (eterm_to_small_int a) + sint (eterm_to_small_int b))"
  using assms by (rule add_run_eq)

theorem add_wraps_at_60_bits_witness:
  "\<exists>pr' c. exec_instr (instr 3 0 1 0 0) 0x10000 add_code 2 proc_demo = Some (Next, put_proc 0x10000 pr' proc_demo) \<and>
    get_x 0 pr' = Some c \<and> beam_is_small_int c \<and> sint (eterm_to_small_int c) = 0"
proof -
  have "frame_ok demo_pr" using proc_invD(3) [OF proc_inv_demo proc_demo_at] .
  from add_wraps_at_60_bits [OF proc_demo_at this, of "instr 3 0 1 0 0" 0 0 add_code 2] show ?thesis
    by (simp add: instr_def reg_ok_def get_x_def arg_at_def initial_frame_def BEAM_NUM_X_REGISTERS_def
        eterm_to_small_int_def)
qed

text \<open>
  C32: stack frames nest. ALLOCATE followed by DEALLOCATE of the same size restores the process,
  continuation pointer and stack included, when the frame fits between heap and stack.
\<close>

theorem allocate_deallocate:
  assumes "proc_inv m" "procs m p = Some pr"
    "unat (heap_top pr) + unat (arg1 i) < unat (stack_top pr)" "arg1 j = arg1 i"
  shows "\<exists>m1 m2. op_allocate i p pr m = Some (Next, m1) \<and> op_deallocate j p m1 = Some (Next, m2) \<and>
    procs m2 = procs m \<and> proc_inv m2"
  using assms by (rule allocate_deallocate_run)

theorem allocate_deallocate_witness:
  "\<exists>m1 m2. op_allocate (instr 7 3 0 0 0) 0x10000 demo_pr proc_demo = Some (Next, m1) \<and>
    op_deallocate (instr 8 3 0 0 0) 0x10000 m1 = Some (Next, m2) \<and> procs m2 = procs proc_demo \<and> proc_inv m2"
  by (rule allocate_deallocate [OF proc_inv_demo proc_demo_at]) (simp_all add: instr_def)

text \<open>
  C33: exceptions unwind to their handler. After TRY, as long as the code in between leaves the
  handler stack as TRY left it, RAISE jumps to the label of the handler, restores the stack top of
  the moment of TRY, drops the handler and hands the exception over in register 0.
\<close>

theorem try_raise:
  fixes m :: "'a proc_machine_scheme"
  assumes "proc_inv m" "procs m p = Some pr" "catch_depth (frame pr) < BEAM_MAX_CATCH_DEPTH"
    "reg_ok (arg1 j)"
  shows "\<exists>m1 pr1. op_try i p pr m = Some (Next, m1) \<and> procs m1 p = Some pr1 \<and>
    (\<forall>(m2 :: 'a proc_machine_scheme) pr2. procs m2 p = Some pr2 \<longrightarrow> catch_stack (frame pr2) = catch_stack (frame pr1) \<longrightarrow>
      catch_depth (frame pr2) = catch_depth (frame pr1) \<longrightarrow> length (x_regs (frame pr2)) = BEAM_NUM_X_REGISTERS \<longrightarrow>
      (\<exists>pr3. op_raise j p pr2 code ip m2 = Some (Goto (jump_to_label code (ucast (arg1 i)) ip), put_proc p pr3 m2) \<and>
        stack_top pr3 = stack_top pr \<and> catch_depth (frame pr3) = catch_depth (frame pr) \<and>
        get_x 0 pr3 = get_x (arg1 j) pr2))"
  using assms by (rule try_raise_run)

theorem try_raise_witness:
  "\<exists>m1 pr1 pr3. op_try (instr 28 5 0 0 0) 0x10000 demo_pr proc_demo = Some (Next, m1) \<and> procs m1 0x10000 = Some pr1 \<and>
    op_raise (instr 32 1 0 0 0) 0x10000 pr1 [instr 34 0 0 0 0, instr 1 5 0 0 0] 0 m1 = Some (Goto 1, put_proc 0x10000 pr3 m1) \<and>
    stack_top pr3 = 64"
proof -
  have fr: "frame_ok demo_pr" using proc_invD(3) [OF proc_inv_demo proc_demo_at] .
  let ?code = "[instr 34 0 0 0 0, instr 1 5 0 0 0]"
  have d: "catch_depth (frame demo_pr) < BEAM_MAX_CATCH_DEPTH" "reg_ok (arg1 (instr 32 1 0 0 0))"
    by (simp_all add: initial_frame_def BEAM_MAX_CATCH_DEPTH_def reg_ok_def instr_def BEAM_NUM_X_REGISTERS_def)
  let ?to = "jump_to_label ?code (ucast (arg1 (instr 28 5 0 0 0))) 0"
  obtain m1 pr1 where m1: "op_try (instr 28 5 0 0 0) 0x10000 demo_pr proc_demo = Some (Next, m1)"
    "procs m1 0x10000 = Some pr1" "\<And>(m2 :: proc_machine) pr2. procs m2 0x10000 = Some pr2 \<Longrightarrow>
      catch_stack (frame pr2) = catch_stack (frame pr1) \<Longrightarrow> catch_depth (frame pr2) = catch_depth (frame pr1) \<Longrightarrow>
      length (x_regs (frame pr2)) = BEAM_NUM_X_REGISTERS \<Longrightarrow>
      \<exists>pr3. op_raise (instr 32 1 0 0 0) 0x10000 pr2 ?code 0 m2 = Some (Goto ?to, put_proc 0x10000 pr3 m2) \<and>
        stack_top pr3 = stack_top demo_pr"
    using try_raise [OF proc_inv_demo proc_demo_at d, of "instr 28 5 0 0 0" ?code 0] by blast
  have "length (x_regs (frame pr1)) = BEAM_NUM_X_REGISTERS"
    using m1(1,2) fr by (auto simp: op_try_def Let_def frame_ok_def split: if_splits)
  moreover from m1(3) [OF m1(2) refl refl this] obtain pr3 where
    "op_raise (instr 32 1 0 0 0) 0x10000 pr1 ?code 0 m1 = Some (Goto ?to, put_proc 0x10000 pr3 m1)"
    "stack_top pr3 = 64" by auto
  moreover have "?to = 1"
    by (simp add: jump_to_label_def instr_def opcode_of_def beam_opcodes_def)
  ultimately show ?thesis using m1(1,2) by auto
qed

lemma signed64_smalls:
  "signed64 (sint (eterm_to_small_int a) + sint (eterm_to_small_int b)) = Some (eterm_to_small_int a + eterm_to_small_int b)"
  "signed64 (sint (eterm_to_small_int a) - sint (eterm_to_small_int b)) = Some (eterm_to_small_int a - eterm_to_small_int b)"
  using small_range_eterm_to_small_int [of a] small_range_eterm_to_small_int [of b] by (simp_all add: signed64_def small_range_def)

text \<open>
  C25: the two ways to add agree. The ADD and SUB instructions on registers 0 and 1 have exactly the
  effect of the external call to the built-in function for the sum and the difference, on every
  process state.
\<close>

theorem arith_equals_bif:
  assumes "procs m p = Some pr" "frame_ok pr" "p \<noteq> 0" "arg1 i = 0" "arg2 i = 1" "arg3 i = 0" "2 \<le> sint (arg2 j)"
    "opcode_of (opcode j) = Some BEAM_OP_CALL_EXT"
    "opcode_of (opcode i) = Some BEAM_OP_ADD \<and> arg1 j = 1 \<or> opcode_of (opcode i) = Some BEAM_OP_SUB \<and> arg1 j = 2"
  shows "exec_instr i p code ip m = exec_instr j p code ip m"
proof -
  have len: "length (x_regs (frame pr)) = BEAM_NUM_X_REGISTERS" using assms(2) by (simp add: frame_ok_def)
  show ?thesis using assms len
    by (auto simp: exec_instr_def op_add_def op_sub_def arith_def op_call_ext_def beam_bif_dispatch_def bif_add_2_def bif_sub_2_def
       get_x_def arg_at_def reg_ok_def BEAM_NUM_X_REGISTERS_def set_x_def
       signed64_smalls)
qed

theorem arith_equals_bif_witness:
  "exec_instr (instr 3 0 1 0 0) 0x10000 add_code 2 proc_demo = exec_instr (instr 21 1 2 0 0) 0x10000 add_code 2 proc_demo"
  by (rule arith_equals_bif [OF proc_demo_at proc_invD(3) [OF proc_inv_demo proc_demo_at]])
    (simp_all add: instr_def opcode_of_def beam_opcodes_def)

end
