(* ===== verification/Emu_Frame.thy ===== *)
theory Emu_Frame
  imports Emu_Properties
begin

text \<open>
  What running code leaves alone. Objects that belong to no mailbox stay allocated, the heaps of the
  processes stay where they are, and the parts of the state that extend the processes (run queues,
  schedulers) do not change. This is what the scheduler relies on while a process runs.
\<close>

subsection \<open>The frame of a run\<close>

definition heaps :: "'a proc_machine_scheme \<Rightarrow> ptr \<rightharpoonup> ptr" where
  "heaps m = (\<lambda>p. map_option heap (procs m p))"

definition owned :: "'a proc_machine_scheme \<Rightarrow> ptr set" where
  "owned m = dom (msgs m) \<union> dom (mboxes m) \<union> dom (procs m) \<union> ran (heaps m)"

definition run_keeps :: "'a proc_machine_scheme \<Rightarrow> 'a proc_machine_scheme \<Rightarrow> bool" where
  "run_keeps m m' \<longleftrightarrow> proc_machine.more m' = proc_machine.more m \<and> heaps m' = heaps m \<and>
     dom (mboxes m') = dom (mboxes m) \<and> (\<forall>vt. vt_ok vt m' = vt_ok vt m) \<and>
     (\<forall>b \<in> set (live m). fst b \<notin> dom (msgs m) \<longrightarrow> b \<in> set (live m')) \<and>
     dom (msgs m') \<inter> (fst ` set (live m) - dom (msgs m)) = {}"

lemma heaps_dom: "dom (heaps m) = dom (procs m)"
  by (auto simp: heaps_def)

lemma run_keeps_refl [simp]: "run_keeps m m"
  by (auto simp: run_keeps_def)

lemma run_keepsD:
  assumes "run_keeps m m'"
  shows "proc_machine.more m' = proc_machine.more m" "heaps m' = heaps m" "dom (mboxes m') = dom (mboxes m)"
    "\<And>vt. vt_ok vt m' = vt_ok vt m" "\<And>b. b \<in> set (live m) \<Longrightarrow> fst b \<notin> dom (msgs m) \<Longrightarrow> b \<in> set (live m')"
    "\<And>a. a \<in> fst ` set (live m) \<Longrightarrow> a \<notin> dom (msgs m) \<Longrightarrow> a \<notin> dom (msgs m')"
  using assms unfolding run_keeps_def by blast+

lemma run_keepsI:
  assumes "proc_machine.more m' = proc_machine.more m" "heaps m' = heaps m" "dom (mboxes m') = dom (mboxes m)"
    "\<And>vt. vt_ok vt m' = vt_ok vt m" "\<And>b. b \<in> set (live m) \<Longrightarrow> fst b \<notin> dom (msgs m) \<Longrightarrow> b \<in> set (live m')"
    "\<And>a. a \<in> fst ` set (live m) \<Longrightarrow> a \<notin> dom (msgs m) \<Longrightarrow> a \<notin> dom (msgs m')"
  shows "run_keeps m m'"
  using assms unfolding run_keeps_def by blast

lemma run_keeps_trans:
  assumes "run_keeps m m1" "run_keeps m1 m2"
  shows "run_keeps m m2"
proof -
  note A = run_keepsD [OF assms(1)] and B = run_keepsD [OF assms(2)]
  show ?thesis
  proof (rule run_keepsI)
    show "b \<in> set (live m2)" if b: "b \<in> set (live m)" "fst b \<notin> dom (msgs m)" for b
      using A(5) [OF b] A(6) [OF imageI [OF b(1)] b(2)] by (rule B(5))
    show "a \<notin> dom (msgs m2)" if a: "a \<in> fst ` set (live m)" "a \<notin> dom (msgs m)" for a
    proof -
      obtain b where b: "b \<in> set (live m)" "a = fst b" using a(1) by (rule imageE)
      then have "a \<in> fst ` set (live m1)" using A(5) [of b] a(2) by simp
      then show ?thesis using A(6) [OF a] by (rule B(6))
    qed
  qed (use A(1-4) B(1-4) in simp_all)
qed

lemma run_keeps_mail:
  assumes "mail_keeps m m'"
  shows "run_keeps m m'"
proof -
  note K = mail_keepsD [OF assms]
  have "procs m' = procs m" "proc_machine.more m' = proc_machine.more m"
    using K(1) by (cases m; cases m'; simp)+
  with K(3-6) show ?thesis by (intro run_keepsI) (simp_all add: heaps_def)
qed

lemma run_keeps_words [simp]: "run_keeps m (m'\<lparr>words := w\<rparr>) = run_keeps m m'"
proof -
  have "vt_ok vt (m'\<lparr>words := w\<rparr>) = vt_ok vt m'" for vt by (rule vt_ok_cong) simp_all
  then show ?thesis by (simp add: run_keeps_def heaps_def)
qed

lemma run_keeps_put:
  assumes "procs m p = Some pr" "heap pr' = heap pr"
  shows "run_keeps m (put_proc p pr' m)"
proof -
  have "vt_ok vt (put_proc p pr' m) = vt_ok vt m" for vt by (rule vt_ok_cong) (simp_all add: put_proc_def)
  then show ?thesis using assms by (auto simp: run_keeps_def heaps_def fun_eq_iff put_proc_def)
qed

subsection \<open>Instructions\<close>

lemma stack_keeps:
  assumes "procs m p = Some pr"
  shows "beam_process_stack_push p t m = Some (r, m') \<Longrightarrow> run_keeps m m'"
    "beam_process_stack_pop p b m = Some (r, v, m') \<Longrightarrow> run_keeps m m'"
  using assms
  by (auto simp: beam_process_stack_push_def beam_process_stack_pop_def Let_def bind_eq_Some_conv wr_Some_iff
      intro!: run_keeps_put split: if_splits)

lemma words_keeps:
  assumes "procs m p = Some pr"
  shows "push_zeros n p m = Some (r, m') \<Longrightarrow> run_keeps m m'"
    "pop_words n p m = Some (r, m') \<Longrightarrow> run_keeps m m'"
proof -
  show "run_keeps m m'" if "push_zeros n p m = Some (r, m')"
    using assms that
  proof (induction n arbitrary: m pr)
    case (Suc n)
    then obtain r1 m1 where m1: "beam_process_stack_push p 0 m = Some (r1, m1)"
      "if r1 = BEAM_OK then push_zeros n p m1 = Some (r, m') else m' = m1"
      by (auto simp: bind_eq_Some_conv split: if_splits)
    obtain pr1 where pr1: "procs m1 p = Some pr1"
      using only_proc_Some [OF push_only [OF m1(1)] Suc.prems(1)] by blast
    show ?case
      using m1(2) stack_keeps(1) [OF Suc.prems(1) m1(1)] Suc.IH [OF pr1] run_keeps_trans
      by (auto split: if_splits)
  qed simp
  show "run_keeps m m'" if "pop_words n p m = Some (r, m')"
    using assms that
  proof (induction n arbitrary: m pr)
    case (Suc n)
    then obtain r1 v m1 where m1: "beam_process_stack_pop p True m = Some (r1, v, m1)"
      "if r1 = BEAM_OK then pop_words n p m1 = Some (r, m') else m' = m1"
      by (auto simp: bind_eq_Some_conv split: if_splits)
    obtain pr1 where pr1: "procs m1 p = Some pr1"
      using only_proc_Some [OF pop_only [OF m1(1)] Suc.prems(1)] by blast
    show ?case
      using m1(2) stack_keeps(2) [OF Suc.prems(1) m1(1)] Suc.IH [OF pr1] run_keeps_trans
      by (auto split: if_splits)
  qed simp
qed

lemma run_keeps_put':
  "run_keeps m m' \<Longrightarrow> procs m' p = Some pr \<Longrightarrow> heap pr' = heap pr \<Longrightarrow> run_keeps m (put_proc p pr' m')"
  using run_keeps_trans run_keeps_put by blast

lemma set_x_heap: "set_x r v pr = Some pr' \<Longrightarrow> heap pr' = heap pr"
  using set_x_fields by blast

lemma pop_frame_keeps:
  assumes pr: "procs m p = Some pr" and run: "pop_frame n p m = Some (r, m')"
  shows "run_keeps m m'"
proof -
  obtain r1 m1 where m1: "pop_words n p m = Some (r1, m1)" using run by (auto simp: pop_frame_def bind_eq_Some_conv)
  obtain pr1 where pr1: "procs m1 p = Some pr1"
    using only_proc_Some [OF pop_words_only [OF m1] pr] by blast
  note K = words_keeps(2) [OF pr m1]
  show ?thesis
  proof (cases "r1 = BEAM_OK")
    case True
    then obtain r2 v m2 where m2: "beam_process_stack_pop p True m1 = Some (r2, v, m2)"
      "m' = m2 \<or> (\<exists>x. procs m2 p = Some x \<and> m' = put_proc p (set_cp (ucast (the v)) x) m2)"
      using run m1 by (auto simp: pop_frame_def bind_eq_Some_conv split: if_splits)
    have "run_keeps m m2" using K stack_keeps(2) [OF pr1 m2(1)] by (rule run_keeps_trans)
    with m2(2) show ?thesis by (auto simp: set_cp_def intro: run_keeps_put')
  qed (use run m1 K in \<open>auto simp: pop_frame_def\<close>)
qed

lemma mailbox_keeps:
  assumes inv: "proc_inv m" and pr: "procs m p = Some pr"
  shows "beam_mailbox_peek_save (mailbox pr) b m = Some (r, v, m') \<Longrightarrow> run_keeps m m'"
    and "beam_mailbox_reset_save_cursor (mailbox pr) m = Some m' \<Longrightarrow> run_keeps m m'"
    and "mailbox_advance_cursor (mailbox pr) m = Some m' \<Longrightarrow> run_keeps m m'"
    and "beam_mailbox_remove_current (mailbox pr) m = Some (r, m') \<Longrightarrow> run_keeps m m'"
    and "beam_message_send_to_process p x m = Some (r, m') \<Longrightarrow> run_keeps m m'"
proof -
  note D = proc_invD [OF inv pr]
  obtain A where A: "mail_abs m A" using inv by (auto simp: proc_inv_def)
  then obtain w where w: "A (mailbox pr) = Some w" using D(6) by blast
  obtain mb where mb: "mboxes m (mailbox pr) = Some mb" using A w by (rule mail_absE)
  have put: "run_keeps m (put_mbox (mailbox pr) mb' m)" for mb'
    using mb by (intro run_keeps_mail mail_keeps_put_mbox)
  show "run_keeps m m'" if "beam_mailbox_peek_save (mailbox pr) b m = Some (r, v, m')"
    using that put mb by (auto simp: beam_mailbox_peek_save_def Let_def bind_eq_Some_conv split: if_splits)
  show "run_keeps m m'" if "beam_mailbox_reset_save_cursor (mailbox pr) m = Some m'"
    using that put mb by (auto simp: beam_mailbox_reset_save_cursor_def split: if_splits)
  show "run_keeps m m'" if "mailbox_advance_cursor (mailbox pr) m = Some m'"
    using that put mb by (auto simp: mailbox_advance_cursor_def bind_eq_Some_conv split: if_splits)
  show "run_keeps m m'" if "beam_mailbox_remove_current (mailbox pr) m = Some (r, m')"
    using that by (intro run_keeps_mail remove_keeps [OF A w])
  show "run_keeps m m'" if "beam_message_send_to_process p x m = Some (r, m')"
  proof -
    have "beam_mailbox_enqueue (mailbox pr) x m = Some (r, m')"
      using that pr D(4,5) by (simp add: beam_message_send_to_process_def beam_process_get_mailbox_def proc_get_def)
    then show ?thesis by (intro run_keeps_mail enqueue_keeps [OF A w])
  qed
qed

lemma loop_rec_keeps:
  assumes inv: "proc_inv m" and pr: "procs m p = Some pr" and run: "op_loop_rec i p pr code ip m = Some (c, m')"
  shows "run_keeps m m'"
proof -
  obtain r v m1 where m1: "beam_mailbox_peek_save (mailbox pr) True m = Some (r, v, m1)" "proc_inv m1" "procs m1 = procs m"
    using peek_inv [OF inv pr] by blast
  have pr1: "procs m1 p = Some pr" using pr m1(3) by simp
  note K = mailbox_keeps(1) [OF inv pr m1(1)] mailbox_keeps(2) [OF m1(2) pr1]
  show ?thesis
    using run m1(1) K pr1 run_keeps_trans [OF K(1)]
    by (auto simp: op_loop_rec_def bind_eq_Some_conv split: if_splits intro!: run_keeps_put' dest: set_x_heap)
qed

lemma exec_instr_keeps:
  assumes inv: "proc_inv m" and pr: "procs m p = Some pr" and safe: "safe_instr (dom (procs m)) i"
    and run: "exec_instr i p code ip m = Some (c, m')"
  shows "run_keeps m m'"
proof (cases "opcode_of (opcode i)")
  case None
  with run pr show ?thesis by (simp add: exec_instr_def)
next
  case (Some oc)
  note D = proc_invD [OF inv pr]
  note base = run pr Some
  have put: "run_keeps m (put_proc p pr' m)" if "heap pr' = heap pr" for pr'
    using pr that by (rule run_keeps_put)
  have setx: "run_keeps m (put_proc p pr' m)" if "set_x r v pr = Some pr'" for r v pr'
    using put set_x_heap [OF that] .
  have setst: "run_keeps m m2" if "beam_process_set_state p st m1 = Some m2" "run_keeps m m1" for st m1 m2
    using that by (auto simp: beam_process_set_state_def proc_set_def bind_eq_Some_conv intro: run_keeps_put' split: if_splits)
  show ?thesis
  proof (cases oc)
    case BEAM_OP_MOVE
    with base setx show ?thesis by (auto simp: exec_instr_def op_move_def bind_eq_Some_conv split: if_splits)
  next
    case BEAM_OP_ADD
    with base setx show ?thesis by (auto simp: exec_instr_def op_add_def arith_def bind_eq_Some_conv split: if_splits)
  next
    case BEAM_OP_SUB
    with base setx show ?thesis by (auto simp: exec_instr_def op_sub_def arith_def bind_eq_Some_conv split: if_splits)
  next
    case BEAM_OP_INT_DIV
    with base setx show ?thesis by (auto simp: exec_instr_def op_int_div_def bind_eq_Some_conv split: if_splits)
  next
    case BEAM_OP_ALLOCATE
    with base obtain r m1 where m1: "beam_process_stack_push p (ucast (cp (frame pr))) m = Some (r, m1)"
      "m' = m1 \<or> (\<exists>r2. push_zeros (unat (arg1 i)) p m1 = Some (r2, m'))"
      by (auto simp: exec_instr_def op_allocate_def bind_eq_Some_conv split: if_splits)
    obtain pr1 where "procs m1 p = Some pr1"
      using only_proc_Some [OF push_only [OF m1(1)] pr] by blast
    with m1 stack_keeps(1) [OF pr m1(1)] words_keeps(1) run_keeps_trans show ?thesis by blast
  next
    case BEAM_OP_DEALLOCATE
    with base pop_frame_keeps [OF pr] show ?thesis
      by (auto simp: exec_instr_def op_deallocate_def bind_eq_Some_conv split: if_splits)
  next
    case BEAM_OP_CALL
    with base put [of "set_cp (ucast (ip + 1)) pr"] show ?thesis
      by (auto simp: exec_instr_def op_call_def set_cp_def)
  next
    case BEAM_OP_CALL_LAST
    with base pop_frame_keeps [OF pr] show ?thesis
      by (auto simp: exec_instr_def op_call_last_def bind_eq_Some_conv split: if_splits)
  next
    case BEAM_OP_SEND
    have "\<exists>qr. procs m (target_proc i) = Some qr" if "target_proc i \<noteq> 0"
      using that safe Some BEAM_OP_SEND by (auto simp: safe_instr_def)
    with base BEAM_OP_SEND mailbox_keeps(5) [OF inv] show ?thesis
      by (auto simp: exec_instr_def op_send_def bind_eq_Some_conv split: if_splits)
  next
    case BEAM_OP_LOOP_REC
    with base loop_rec_keeps [OF inv pr] show ?thesis by (simp add: exec_instr_def)
  next
    case BEAM_OP_REMOVE_MESSAGE
    with base mailbox_keeps(4) [OF inv pr] show ?thesis
      by (auto simp: exec_instr_def op_remove_message_def bind_eq_Some_conv)
  next
    case BEAM_OP_LOOP_REC_END
    with base mailbox_keeps(3) [OF inv pr] show ?thesis
      by (auto simp: exec_instr_def op_loop_rec_end_def bind_eq_Some_conv)
  next
    case BEAM_OP_WAIT
    with base setst put show ?thesis
      by (auto simp: exec_instr_def op_wait_def bind_eq_Some_conv)
  next
    case BEAM_OP_HALT
    with base setst show ?thesis by (auto simp: exec_instr_def op_halt_def bind_eq_Some_conv)
  next
    case BEAM_OP_TRY
    with base put show ?thesis by (auto simp: exec_instr_def op_try_def Let_def split: if_splits)
  next
    case BEAM_OP_CATCH
    with base put show ?thesis by (auto simp: exec_instr_def op_try_def Let_def split: if_splits)
  next
    case BEAM_OP_TRY_END
    with base put show ?thesis by (auto simp: exec_instr_def op_try_end_def Let_def split: if_splits)
  next
    case BEAM_OP_RAISE
    with base setst put show ?thesis
      by (auto simp: exec_instr_def op_raise_def Let_def bind_eq_Some_conv split: if_splits dest!: set_x_heap)
  next
    case BEAM_OP_TEST_IS_EQ_EXACT
    with base show ?thesis by (auto simp: exec_instr_def op_test_is_eq_exact_def bind_eq_Some_conv)
  next
    case BEAM_OP_TEST_IS_NE_EXACT
    with base show ?thesis by (auto simp: exec_instr_def op_test_is_ne_exact_def bind_eq_Some_conv)
  next
    case BEAM_OP_TEST_IS_LIST
    with base show ?thesis by (auto simp: exec_instr_def op_test_is_list_def bind_eq_Some_conv)
  next
    case BEAM_OP_SELECT_VAL
    with base show ?thesis by (auto simp: exec_instr_def op_select_val_def bind_eq_Some_conv)
  next
    case BEAM_OP_CALL_EXT
    with base setx show ?thesis
      by (auto simp: exec_instr_def op_call_ext_def bind_eq_Some_conv split: if_splits)
  qed (use base safe in \<open>simp_all add: safe_instr_def exec_instr_def op_return_def\<close>)
qed

subsection \<open>The loop\<close>

lemma emu_step_keeps:
  assumes inv: "proc_inv m" and pr: "procs m p = Some pr" and safe: "safe_code (dom (procs m)) code"
    and ip: "unat ip < length code" and run: "emu_step p code ip m = Some (c, m')"
  shows "run_keeps m m'"
proof -
  note D = proc_invD [OF inv pr]
  let ?pr = "pr\<lparr>reductions := reductions pr - 1\<rparr>"
  let ?m = "put_proc p ?pr m"
  have K: "run_keeps m ?m" using pr by (rule run_keeps_put) simp
  have inv1: "proc_inv ?m"
    using frame_ok_updates(5) [OF D(3)] by (intro proc_inv_put [OF inv pr]) simp_all
  have cons: "beam_process_consume_reductions p 1 m = Some ?m"
    using run D(4) pr by (auto simp: emu_step_def bind_eq_Some_conv beam_process_consume_reductions_def Let_def split: if_splits)
  have dom: "dom (procs ?m) = dom (procs m)" using pr by auto
  have "safe_instr (dom (procs ?m)) (code ! unat ip)"
    unfolding dom using safe ip by (simp add: safe_code_def list_all_length)
  moreover have "procs ?m p = Some ?pr" by simp
  ultimately have "run_keeps ?m m'" if "exec_instr (code ! unat ip) p code ip ?m = Some (c, m')"
    using exec_instr_keeps [OF inv1 _ _ that] by blast
  moreover have "run_keeps ?m m'" if "beam_process_set_state p st ?m = Some m'" for st
    using that by (auto simp: beam_process_set_state_def proc_set_def intro: run_keeps_put' split: if_splits)
  ultimately have "run_keeps ?m m'"
    using run by (auto simp: emu_step_def cons bind_eq_Some_conv split: if_splits)
  with K show ?thesis by (rule run_keeps_trans)
qed

lemma emu_loop_keeps:
  assumes "proc_inv m" "procs m p = Some pr" "- (2 ^ 31) < reductions pr" "reductions pr < 2 ^ 31"
    "safe_code (dom (procs m)) code" "emu_loop p code ip m = Some (r, v, m')"
  shows "run_keeps m m'"
  using assms
proof (induction p code ip m arbitrary: pr rule: emu_loop.induct)
  case (1 p code ip m)
  note D = proc_invD [OF 1(3,4)]
  show ?case
  proof (cases "unat ip < length code")
    case True
    then obtain c m1 where m1: "emu_step p code ip m = Some (c, m1)" "proc_inv m1"
      using emu_step_inv [OF 1(3-7) True] by (auto simp: keeps_inv_def)
    obtain pr1 where pr1: "procs m1 = (procs m)(p \<mapsto> pr1)"
      "kept c (pr\<lparr>reductions := reductions pr - 1\<rparr>) pr1"
      using emu_step_procs(1) [OF m1(1) 1(4) D(4)] by blast
    have dom: "dom (procs m1) = dom (procs m)" using pr1(1) 1(4) by auto
    have pr1p: "procs m1 p = Some pr1" and safe1: "safe_code (dom (procs m1)) code"
      using pr1(1) dom 1(7) by simp_all
    have red: "reductions pr1 = reductions pr - 1" using pr1(2) by (simp add: kept_def)
    have next_red: "1 < reductions pr" if "\<forall>r v. c \<noteq> Return r v"
      using emu_step_procs(2) [OF m1(1) 1(4) D(4)] that by blast
    note K = emu_step_keeps [OF 1(3,4,7) True m1(1)]
    show ?thesis
    proof (cases c)
      case Next
      have "run_keeps m1 m'"
        using 1(1) [OF True m1(1) refl Next m1(2) pr1p _ _ safe1] red next_red Next 1(6,8) m1(1)
        by (simp add: emu_loop_run(1) [OF True])
      with K show ?thesis by (rule run_keeps_trans)
    next
      case (Goto j)
      have "run_keeps m1 m'"
        using 1(2) [OF True m1(1) refl Goto m1(2) pr1p _ _ safe1] red next_red Goto 1(6,8) m1(1)
        by (simp add: emu_loop_run(2) [OF True])
      with K show ?thesis by (rule run_keeps_trans)
    next
      case (Return r' v')
      with 1(8) m1 K show ?thesis by (simp add: emu_loop_run(3) [OF True])
    qed
  next
    case False
    obtain w where w: "get_x 0 pr = Some w"
      using regs_defined(1) [OF D(3), of 0] by (auto simp: reg_ok_def BEAM_NUM_X_REGISTERS_def)
    then have "m' = put_proc p (pr\<lparr>frame := (frame pr)\<lparr>frame_ip := ip\<rparr>\<rparr>) m"
      using emu_loop_run(5) [OF False 1(4) w] 1(8) by simp
    then show ?thesis using run_keeps_put [OF 1(4)] by simp
  qed
qed

lemma execute_keeps:
  assumes "proc_inv m" "procs m p = Some pr" "- (2 ^ 31) < reductions pr" "reductions pr < 2 ^ 31"
    "safe_code (dom (procs m)) code" "beam_emu_execute_code p (Some code) out m = Some (r, v, m')"
  shows "run_keeps m m'"
proof (cases "code = []")
  case True
  with assms(6) show ?thesis by (simp add: beam_emu_execute_code_def)
next
  case False
  note D = proc_invD [OF assms(1,2)]
  let ?pr = "if cp (frame pr) = 0 \<and> frame_ip (frame pr) = 0 then set_cp (of_nat (length code)) pr else pr"
  have fields: "mailbox ?pr = mailbox pr" "heap ?pr = heap pr" "heap_capacity ?pr = heap_capacity pr"
    "proc_alloc ?pr = proc_alloc pr" "reductions ?pr = reductions pr" "frame_ok ?pr"
    using D(3) frame_ok_updates(1) by (simp_all add: set_cp_def)
  have inv: "proc_inv (put_proc p ?pr m)" using fields by (intro proc_inv_put [OF assms(1,2)])
  have dom: "dom (procs (put_proc p ?pr m)) = dom (procs m)" using assms(2) by auto
  obtain w where "emu_loop p code (frame_ip (frame pr)) (put_proc p ?pr m) = Some (r, w, m')"
    using assms(2,6) False D(4) by (auto simp: beam_emu_execute_code_def Let_def bind_eq_Some_conv)
  then have "run_keeps (put_proc p ?pr m) m'"
    using emu_loop_keeps [OF inv, of p ?pr] fields(5) assms(3-5) dom by simp
  with run_keeps_put [OF assms(2) fields(2)] show ?thesis by (rule run_keeps_trans)
qed

end
