(* ===== verification/Beam_Run_Queue.thy ===== *)
theory Beam_Run_Queue
  imports Emu_Frame
begin

text \<open>
  The priority run queue, \<^verbatim>\<open>src/scheduler/run_queue.c\<close>: four linked queues of processes, one per
  priority, behind one lock. The operations are modelled as the critical sections run one after the
  other; a node that is freed leaves the store of nodes.
\<close>

subsection \<open>State\<close>

record run_queue_node =
  rn_proc :: ptr
  rn_next :: ptr

record priority_level_queue =
  lq_head :: ptr
  lq_tail :: ptr
  lq_count :: size_t

record beam_run_queue =
  queues :: "priority_level_queue list"
  total_count :: size_t
  rq_alloc :: beam_allocator_i

record rq_machine = proc_machine +
  rq_nodes :: "ptr \<rightharpoonup> run_queue_node"
  run_queues :: "ptr \<rightharpoonup> beam_run_queue"

text \<open>Sizes of the two structs on LP64.\<close>

definition sizeof_run_queue_node :: size_t where "sizeof_run_queue_node = 16"
definition sizeof_beam_run_queue :: size_t where "sizeof_beam_run_queue = 176"

definition put_rq :: "ptr \<Rightarrow> beam_run_queue \<Rightarrow> 'a rq_machine_scheme \<Rightarrow> 'a rq_machine_scheme" where
  "put_rq q rq m = m\<lparr>run_queues := (run_queues m)(q \<mapsto> rq)\<rparr>"

definition put_node :: "ptr \<Rightarrow> run_queue_node \<Rightarrow> 'a rq_machine_scheme \<Rightarrow> 'a rq_machine_scheme" where
  "put_node a n m = m\<lparr>rq_nodes := (rq_nodes m)(a \<mapsto> n)\<rparr>"

definition free_node ::
    "beam_allocator_i \<Rightarrow> ptr \<Rightarrow> 'a rq_machine_scheme \<Rightarrow> 'a rq_machine_scheme option" where
  "free_node vt a m = do {
     m' \<leftarrow> call_free vt a m;
     Some (m'\<lparr>rq_nodes := (rq_nodes m')(a := None)\<rparr>)
   }"

subsection \<open>Operations\<close>

definition beam_run_queue_create ::
    "beam_allocator_i option \<Rightarrow> 'a rq_machine_scheme \<Rightarrow> (ptr \<times> 'a rq_machine_scheme) option" where
  "beam_run_queue_create al m =
     (if \<not> alloc_arg_ok al then Some (0, m)
      else do {
        (q, m1) \<leftarrow> call_alloc (the al) sizeof_beam_run_queue m;
        if q = 0 then Some (0, m1)
        else Some (q, put_rq q
               \<lparr>queues = replicate (unat BEAM_NUM_PRIORITIES) \<lparr>lq_head = 0, lq_tail = 0, lq_count = 0\<rparr>,
                total_count = 0, rq_alloc = the al\<rparr> m1)
      })"

partial_function (option) free_level ::
    "beam_allocator_i \<Rightarrow> ptr \<Rightarrow> 'a rq_machine_scheme \<Rightarrow> 'a rq_machine_scheme option" where
  "free_level vt cur m =
     (if cur = 0 then Some m
      else do {
        node \<leftarrow> rq_nodes m cur;
        m1 \<leftarrow> free_node vt cur m;
        free_level vt (rn_next node) m1
      })"

fun free_levels ::
    "beam_allocator_i \<Rightarrow> priority_level_queue list \<Rightarrow> 'a rq_machine_scheme \<Rightarrow> 'a rq_machine_scheme option" where
  "free_levels vt [] m = Some m"
| "free_levels vt (lq # lqs) m = do {
     m1 \<leftarrow> free_level vt (lq_head lq) m;
     free_levels vt lqs m1
   }"

definition beam_run_queue_destroy ::
    "ptr \<Rightarrow> 'a rq_machine_scheme \<Rightarrow> 'a rq_machine_scheme option" where
  "beam_run_queue_destroy q m =
     (if q = 0 then Some m
      else do {
        rq \<leftarrow> run_queues m q;
        m1 \<leftarrow> free_levels (rq_alloc rq) (queues rq) m;
        m2 \<leftarrow> call_free (rq_alloc rq) q m1;
        Some (m2\<lparr>run_queues := (run_queues m2)(q := None)\<rparr>)
      })"

definition beam_run_queue_enqueue ::
    "ptr \<Rightarrow> ptr \<Rightarrow> beam_priority \<Rightarrow> 'a rq_machine_scheme \<Rightarrow> (beam_result \<times> 'a rq_machine_scheme) option" where
  "beam_run_queue_enqueue q proc prio m =
     (if q = 0 \<or> proc = 0 \<or> prio \<ge> BEAM_NUM_PRIORITIES then Some (BEAM_ERR_INVALID_ARG, m)
      else do {
        rq \<leftarrow> run_queues m q;
        (node, m1) \<leftarrow> call_alloc (rq_alloc rq) sizeof_run_queue_node m;
        if node = 0 then Some (BEAM_ERR_NO_MEMORY, m1)
        else do {
          let m2 = put_node node \<lparr>rn_proc = proc, rn_next = 0\<rparr> m1;
          let l = unat prio;
          let lq = queues rq ! l;
          (lq1, m3) \<leftarrow>
            (if lq_tail lq = 0 then Some (lq\<lparr>lq_head := node, lq_tail := node\<rparr>, m2)
             else do {
               prev \<leftarrow> rq_nodes m2 (lq_tail lq);
               Some (lq\<lparr>lq_tail := node\<rparr>, put_node (lq_tail lq) (prev\<lparr>rn_next := node\<rparr>) m2)
             });
          let m4 = put_rq q (rq\<lparr>queues := (queues rq)[l := lq1\<lparr>lq_count := lq_count lq1 + 1\<rparr>],
                                total_count := total_count rq + 1\<rparr>) m3;
          m5 \<leftarrow> beam_process_set_state proc BEAM_PROC_STATE_RUNNABLE m4;
          Some (BEAM_OK, m5)
        }
      })"

text \<open>
  Dequeue and steal run the same loop, over the levels from the highest priority down or from the
  lowest priority up: the first level with a process gives its oldest one.
\<close>

definition rq_take ::
    "nat list \<Rightarrow> ptr \<Rightarrow> 'a rq_machine_scheme \<Rightarrow> (ptr \<times> 'a rq_machine_scheme) option" where
  "rq_take levels q m = do {
     rq \<leftarrow> run_queues m q;
     if total_count rq = 0 then Some (0, m)
     else (case find (\<lambda>l. lq_head (queues rq ! l) \<noteq> 0) levels of
       None \<Rightarrow> Some (0, m)
     | Some l \<Rightarrow> do {
         let lq = queues rq ! l;
         node \<leftarrow> rq_nodes m (lq_head lq);
         let lq1 = lq\<lparr>lq_head := rn_next node,
                      lq_tail := (if rn_next node = 0 then 0 else lq_tail lq),
                      lq_count := lq_count lq - 1\<rparr>;
         let m1 = put_rq q (rq\<lparr>queues := (queues rq)[l := lq1], total_count := total_count rq - 1\<rparr>) m;
         m2 \<leftarrow> free_node (rq_alloc rq) (lq_head lq) m1;
         m3 \<leftarrow> beam_process_set_state (rn_proc node) BEAM_PROC_STATE_RUNNING m2;
         Some (rn_proc node, m3)
       })
   }"

definition beam_run_queue_dequeue ::
    "ptr \<Rightarrow> 'a rq_machine_scheme \<Rightarrow> (ptr \<times> 'a rq_machine_scheme) option" where
  "beam_run_queue_dequeue q m =
     (if q = 0 then Some (0, m) else rq_take [0..<unat BEAM_NUM_PRIORITIES] q m)"

definition beam_run_queue_steal ::
    "ptr \<Rightarrow> 'a rq_machine_scheme \<Rightarrow> (ptr \<times> 'a rq_machine_scheme) option" where
  "beam_run_queue_steal q m =
     (if q = 0 then Some (0, m) else rq_take (rev [0..<unat BEAM_NUM_PRIORITIES]) q m)"

definition beam_run_queue_count :: "ptr \<Rightarrow> 'a rq_machine_scheme \<Rightarrow> size_t option" where
  "beam_run_queue_count q m = (if q = 0 then Some 0 else map_option total_count (run_queues m q))"

lemmas run_queue_defs =
  sizeof_run_queue_node_def sizeof_beam_run_queue_def put_rq_def put_node_def free_node_def
  beam_run_queue_create_def beam_run_queue_destroy_def beam_run_queue_enqueue_def rq_take_def
  beam_run_queue_dequeue_def beam_run_queue_steal_def beam_run_queue_count_def

lemmas [beam_defs] = run_queue_defs free_level.simps

end
