(* ===== verification/Run_Queue_Refinement.thy ===== *)
theory Run_Queue_Refinement
  imports Beam_Run_Queue
begin

text \<open>
  The run queue implements four lists of processes. \<open>rq_abs\<close> relates a state to the lists its queues
  hold; enqueue appends to one list, dequeue takes from the first non-empty one and steal from the
  last. The locale \<open>work_source\<close> states what a consumer of processes relies on.
\<close>

subsection \<open>Representation\<close>

definition rlinks :: "(ptr \<rightharpoonup> run_queue_node) \<Rightarrow> ptr \<rightharpoonup> ptr" where
  "rlinks S = (\<lambda>a. map_option rn_next (S a))"

definition level_rep :: "(ptr \<rightharpoonup> run_queue_node) \<Rightarrow> priority_level_queue \<Rightarrow> ptr list \<Rightarrow> bool" where
  "level_rep S lq ns \<longleftrightarrow> chain (rlinks S) (lq_head lq) ns 0 \<and> lq_tail lq = last_or_null ns \<and>
     lq_count lq = of_nat (length ns)"

definition queued :: "(nat \<Rightarrow> ptr list) \<Rightarrow> ptr list" where
  "queued ns = concat (map ns [0..<4])"

definition rq_objs :: "'a rq_machine_scheme \<Rightarrow> ptr set" where
  "rq_objs m = dom (rq_nodes m) \<union> dom (run_queues m)"

definition rq_rep :: "'a rq_machine_scheme \<Rightarrow> beam_run_queue \<Rightarrow> (nat \<Rightarrow> ptr list) \<Rightarrow> bool" where
  "rq_rep m rq ns \<longleftrightarrow> vt_ok (rq_alloc rq) m \<and> length (queues rq) = 4 \<and>
     total_count rq = of_nat (length (queued ns)) \<and>
     (\<forall>l < 4. level_rep (rq_nodes m) (queues rq ! l) (ns l))"

definition rq_inv :: "'a rq_machine_scheme \<Rightarrow> (ptr \<Rightarrow> nat \<Rightarrow> ptr list) \<Rightarrow> bool" where
  "rq_inv m N \<longleftrightarrow> proc_inv m \<and>
     (\<forall>q rq. run_queues m q = Some rq \<longrightarrow> rq_rep m rq (N q)) \<and>
     (\<forall>q q' l l'. q \<in> dom (run_queues m) \<longrightarrow> q' \<in> dom (run_queues m) \<longrightarrow> l < 4 \<longrightarrow> l' < 4 \<longrightarrow>
        (q, l) \<noteq> (q', l') \<longrightarrow> set (N q l) \<inter> set (N q' l') = {}) \<and>
     rq_objs m \<subseteq> fst ` set (live m) \<and> rq_objs m \<inter> owned m = {} \<and>
     dom (rq_nodes m) \<inter> dom (run_queues m) = {} \<and> 0 \<notin> dom (run_queues m) \<and>
     (\<forall>a n. rq_nodes m a = Some n \<longrightarrow> rn_proc n \<in> dom (procs m))"

definition level_procs :: "(ptr \<rightharpoonup> run_queue_node) \<Rightarrow> ptr list \<Rightarrow> ptr list" where
  "level_procs S ns = map (\<lambda>a. rn_proc (the (S a))) ns"

definition rq_view :: "(ptr \<rightharpoonup> run_queue_node) \<Rightarrow> (nat \<Rightarrow> ptr list) \<Rightarrow> ptr list list" where
  "rq_view S ns = map (\<lambda>l. level_procs S (ns l)) [0..<4]"

definition rq_abs :: "'a rq_machine_scheme \<Rightarrow> (ptr \<rightharpoonup> ptr list list) \<Rightarrow> bool" where
  "rq_abs m A \<longleftrightarrow> (\<exists>N. rq_inv m N \<and> A = (\<lambda>q. map_option (\<lambda>_. rq_view (rq_nodes m) (N q)) (run_queues m q)))"

lemma rq_invD:
  assumes "rq_inv m N"
  shows "proc_inv m" "\<And>q rq. run_queues m q = Some rq \<Longrightarrow> rq_rep m rq (N q)"
    "\<And>q q' l l'. q \<in> dom (run_queues m) \<Longrightarrow> q' \<in> dom (run_queues m) \<Longrightarrow> l < 4 \<Longrightarrow> l' < 4 \<Longrightarrow>
        (q, l) \<noteq> (q', l') \<Longrightarrow> set (N q l) \<inter> set (N q' l') = {}"
    "rq_objs m \<subseteq> fst ` set (live m)" "rq_objs m \<inter> owned m = {}"
    "dom (rq_nodes m) \<inter> dom (run_queues m) = {}" "0 \<notin> dom (run_queues m)"
    "\<And>a n. rq_nodes m a = Some n \<Longrightarrow> rn_proc n \<in> dom (procs m)"
  using assms unfolding rq_inv_def by blast+

lemma rq_invI:
  assumes "proc_inv m" "\<And>q rq. run_queues m q = Some rq \<Longrightarrow> rq_rep m rq (N q)"
    "\<And>q q' l l'. q \<in> dom (run_queues m) \<Longrightarrow> q' \<in> dom (run_queues m) \<Longrightarrow> l < 4 \<Longrightarrow> l' < 4 \<Longrightarrow>
        (q, l) \<noteq> (q', l') \<Longrightarrow> set (N q l) \<inter> set (N q' l') = {}"
    "rq_objs m \<subseteq> fst ` set (live m)" "rq_objs m \<inter> owned m = {}"
    "dom (rq_nodes m) \<inter> dom (run_queues m) = {}" "0 \<notin> dom (run_queues m)"
    "\<And>a n. rq_nodes m a = Some n \<Longrightarrow> rn_proc n \<in> dom (procs m)"
  shows "rq_inv m N"
  using assms unfolding rq_inv_def by blast

lemma upt4: "[0..<4] = [0, 1, 2, 3 :: nat]"
  by (simp add: upt_rec)

lemma level_nodes:
  assumes "rq_inv m N" "run_queues m q = Some rq" "l < 4"
  shows "level_rep (rq_nodes m) (queues rq ! l) (N q l)" "set (N q l) \<subseteq> dom (rq_nodes m)" "0 \<notin> set (N q l)"
    "distinct (N q l)"
proof -
  show *: "level_rep (rq_nodes m) (queues rq ! l) (N q l)"
    using rq_invD(2) [OF assms(1,2)] assms(3) by (simp add: rq_rep_def)
  then have c: "chain (rlinks (rq_nodes m)) (lq_head (queues rq ! l)) (N q l) 0" by (simp add: level_rep_def)
  show "set (N q l) \<subseteq> dom (rq_nodes m)" using chain_dom [OF c] by (auto simp: rlinks_def)
  show "0 \<notin> set (N q l)" using chain_nonnull [OF c] by blast
  show "distinct (N q l)" using c by (rule chain_distinct)
qed

lemma level_rep_frame:
  assumes "\<And>a. a \<in> set ns \<Longrightarrow> S' a = S a"
  shows "level_rep S' lq ns = level_rep S lq ns" "level_procs S' ns = level_procs S ns"
proof -
  have "chain (rlinks S') (lq_head lq) ns 0 = chain (rlinks S) (lq_head lq) ns 0"
    using assms by (intro chain_cong) (simp add: rlinks_def)
  then show "level_rep S' lq ns = level_rep S lq ns" by (simp add: level_rep_def)
  show "level_procs S' ns = level_procs S ns" using assms by (simp add: level_procs_def)
qed

text \<open>The number of queued processes never reaches the range of the counter.\<close>

lemma queued_bound:
  assumes "rq_inv m N" "run_queues m q = Some rq"
  shows "length (queued (N q)) < 2 ^ 64"
proof -
  have dis: "set (N q i) \<inter> set (N q j) = {}" if "i < 4" "j < 4" "i \<noteq> j" for i j
    using rq_invD(3) [OF assms(1), of q q i j] assms(2) that by auto
  have "distinct (queued (N q))"
    using level_nodes(4) [OF assms] dis [of 0] dis [of 1] dis [of 2] dis [of 3]
    unfolding queued_def upt4 by (simp add: Int_Un_distrib)
  then have "length (queued (N q)) = card (set (queued (N q)))" by (simp add: distinct_card)
  also have "\<dots> \<le> card (UNIV - {0 :: ptr})"
    using level_nodes(3) [OF assms] by (intro card_mono) (auto simp: queued_def)
  also have "\<dots> < 2 ^ 64" by (simp add: card_Diff_singleton card_word)
  finally show ?thesis .
qed

subsection \<open>States with the same queues\<close>

lemma proc_inv_env:
  assumes "proc_inv m" "machine_ok m'" "\<And>vt. vt_ok vt m' = vt_ok vt m" "msgs m' = msgs m" "mboxes m' = mboxes m"
    "procs m' = procs m" "\<And>b. b \<in> set (live m) \<Longrightarrow> fst b \<in> owned m \<Longrightarrow> b \<in> set (live m')"
  shows "proc_inv m'"
proof -
  obtain A where A: "mail_abs m A" "proc_own m" using assms(1) by (auto simp: proc_inv_def)
  note D = proc_ownD [OF A(2)]
  have keep: "X \<subseteq> fst ` set (live m')" if X: "X \<subseteq> fst ` set (live m)" "X \<subseteq> owned m" for X
  proof
    fix a assume "a \<in> X"
    then obtain b where "b \<in> set (live m)" "a = fst b" "a \<in> owned m" using X by blast
    then show "a \<in> fst ` set (live m')" using assms(7) by blast
  qed
  have "dom (msgs m) \<union> dom (mboxes m) \<subseteq> fst ` set (live m)"
    using A(1) unfolding mail_abs_def mail_inv_def by blast
  then have "dom (msgs m) \<union> dom (mboxes m) \<subseteq> fst ` set (live m')"
    by (rule keep) (auto simp: owned_def)
  then have "mail_abs m' A" using assms(2-5) by (intro mail_abs_env [OF A(1)]) simp_all
  moreover have "proc_own m'"
  proof (rule proc_ownI, unfold assms(4-6))
    show "dom (procs m) \<subseteq> fst ` set (live m')" using D(1) by (rule keep) (auto simp: owned_def)
    fix p pr assume pr: "procs m p = Some pr"
    then have wf: "proc_wf m pr" by (rule D(4))
    have "heap pr \<in> owned m" using pr by (auto simp: owned_def heaps_def ran_def)
    then have "heap_ok m' pr" using wf assms(7) by (force simp: proc_wf_def heap_ok_def)
    with wf show "proc_wf m' pr" by (simp add: proc_wf_def assms(3-6))
  qed (use D(2,3,5) in blast)+
  ultimately show ?thesis by (auto simp: proc_inv_def)
qed

lemma owned_live:
  assumes "proc_inv m"
  shows "owned m \<subseteq> fst ` set (live m)"
proof -
  obtain A where A: "mail_abs m A" "proc_own m" using assms by (auto simp: proc_inv_def)
  have "dom (msgs m) \<union> dom (mboxes m) \<subseteq> fst ` set (live m)"
    using A(1) unfolding mail_abs_def mail_inv_def by blast
  moreover have "heap pr \<in> fst ` set (live m)" if "procs m p = Some pr" for p pr
    using proc_invD(2) [OF assms that] by (force simp: heap_ok_def)
  then have "ran (heaps m) \<subseteq> fst ` set (live m)" by (auto simp: heaps_def ran_def)
  ultimately show ?thesis using proc_ownD(1) [OF A(2)] unfolding owned_def by blast
qed

lemma rq_abs_cong:
  assumes "rq_abs m A" "proc_inv m'" "\<And>vt. vt_ok vt m' = vt_ok vt m" "rq_nodes m' = rq_nodes m"
    "run_queues m' = run_queues m" "rq_objs m \<subseteq> fst ` set (live m')" "rq_objs m \<inter> owned m' = {}"
    "dom (procs m) \<subseteq> dom (procs m')"
  shows "rq_abs m' A"
proof -
  obtain N where N: "rq_inv m N" "A = (\<lambda>q. map_option (\<lambda>_. rq_view (rq_nodes m) (N q)) (run_queues m q))"
    using assms(1) by (auto simp: rq_abs_def)
  note D = rq_invD [OF N(1)]
  have "rq_inv m' N"
  proof (rule rq_invI, unfold assms(4,5))
    show "rq_rep m' rq (N q)" if "run_queues m q = Some rq" for q rq
      using D(2) [OF that] by (simp add: rq_rep_def assms(3,4))
    show "rq_objs m' \<subseteq> fst ` set (live m')" "rq_objs m' \<inter> owned m' = {}"
      using assms(4-7) by (simp_all add: rq_objs_def)
    show "rn_proc n \<in> dom (procs m')" if "rq_nodes m a = Some n" for a n
      using D(8) [OF that] assms(8) by blast
  qed (use assms(2) D(3,6,7) in blast)+
  then show ?thesis using N(2) assms(4,5) by (auto simp: rq_abs_def)
qed

lemma rq_more:
  assumes "proc_machine.more m' = proc_machine.more m"
  shows "rq_nodes m' = rq_nodes m" "run_queues m' = run_queues m" "rq_machine.more m' = rq_machine.more m"
  using assms by (cases m; cases m'; simp)+

lemma rq_abs_run:
  assumes "rq_abs m A" "proc_inv m'" "run_keeps m m'"
  shows "rq_abs m' A"
proof -
  note K = run_keepsD [OF assms(3)]
  note R = rq_more [OF K(1)]
  obtain N where N: "rq_inv m N" using assms(1) by (auto simp: rq_abs_def)
  note D = rq_invD [OF N]
  have procs: "dom (procs m') = dom (procs m)" using K(2) heaps_dom by metis
  have msgs: "a \<notin> dom (msgs m)" if "a \<in> rq_objs m" for a
    using D(5) that by (auto simp: owned_def)
  have "a \<notin> dom (msgs m')" "a \<in> fst ` set (live m')" if a: "a \<in> rq_objs m" for a
  proof -
    obtain b where b: "b \<in> set (live m)" "a = fst b" using subsetD [OF D(4) a] by (rule imageE)
    show "a \<notin> dom (msgs m')" using subsetD [OF D(4) a] msgs [OF a] by (rule K(6))
    show "a \<in> fst ` set (live m')" using K(5) [OF b(1)] msgs [OF a] b(2) by simp
  qed
  then have "rq_objs m \<subseteq> fst ` set (live m')" "rq_objs m \<inter> dom (msgs m') = {}" by blast+
  moreover have "rq_objs m \<inter> (dom (mboxes m) \<union> dom (procs m) \<union> ran (heaps m)) = {}"
    using D(5) by (auto simp: owned_def)
  ultimately show ?thesis
    using K(2-4) R procs by (intro rq_abs_cong [OF assms(1,2)]) (auto simp: owned_def)
qed

subsection \<open>Changing one level\<close>

lemma queued_length:
  assumes "l < 4"
  shows "length (queued (ns(l := xs))) + length (ns l) = length (queued ns) + length xs"
proof -
  have "l = 0 \<or> l = 1 \<or> l = 2 \<or> l = 3" using assms by linarith
  then show ?thesis unfolding queued_def upt4 by auto
qed

lemma rq_view_upd:
  assumes "l < 4" "\<And>k a. k < 4 \<Longrightarrow> k \<noteq> l \<Longrightarrow> a \<in> set (ns k) \<Longrightarrow> S' a = S a"
  shows "rq_view S' (ns(l := xs)) = (rq_view S ns)[l := level_procs S' xs]"
proof (rule nth_equalityI)
  fix k assume k: "k < length (rq_view S' (ns(l := xs)))"
  then show "rq_view S' (ns(l := xs)) ! k = (rq_view S ns)[l := level_procs S' xs] ! k"
    using assms by (cases "k = l") (auto simp: rq_view_def level_procs_def)
qed (simp add: rq_view_def)

lemma rq_inv_upd:
  assumes inv: "rq_inv m N" and rq: "run_queues m q = Some rq" and l: "l < 4"
    and inv': "proc_inv m'" and vt: "\<And>vt. vt_ok vt m' = vt_ok vt m"
    and rqs: "run_queues m' = (run_queues m)(q \<mapsto> rq')"
    and rq': "queues rq' = (queues rq)[l := lq']" "rq_alloc rq' = rq_alloc rq"
    and cnt: "total_count rq' + of_nat (length (N q l)) = total_count rq + of_nat (length ns)"
    and rep: "level_rep (rq_nodes m') lq' ns"
    and same: "\<And>a. a \<notin> set (N q l) \<Longrightarrow> a \<notin> set ns \<Longrightarrow> rq_nodes m' a = rq_nodes m a"
    and new: "set ns \<inter> (dom (rq_nodes m) - set (N q l)) = {}"
    and live: "rq_objs m' \<subseteq> fst ` set (live m')" "rq_objs m' \<inter> owned m' = {}"
    and apart: "dom (rq_nodes m') \<inter> dom (run_queues m) = {}"
    and procs: "\<And>a n. rq_nodes m' a = Some n \<Longrightarrow> rn_proc n \<in> dom (procs m')"
  shows "rq_inv m' (N(q := (N q)(l := ns)))"
proof -
  note D = rq_invD [OF inv]
  let ?N = "N(q := (N q)(l := ns))"
  have dom: "dom (run_queues m') = dom (run_queues m)" using rq rqs by auto
  have sub: "set (N k j) \<subseteq> dom (rq_nodes m)" if "k \<in> dom (run_queues m)" "j < 4" for k j
    using that level_nodes(2) [OF inv] by blast
  have other: "set (N k j) \<inter> set (N q l) = {}" "set (N k j) \<inter> set ns = {}"
    if k: "k \<in> dom (run_queues m)" "j < 4" "(k, j) \<noteq> (q, l)" for k j
  proof -
    show *: "set (N k j) \<inter> set (N q l) = {}" using D(3) [OF k(1) _ k(2) l k(3)] rq by blast
    show "set (N k j) \<inter> set ns = {}" using sub [OF k(1,2)] * new by blast
  qed
  have keep: "rq_nodes m' a = rq_nodes m a"
    if "k \<in> dom (run_queues m)" "j < 4" "(k, j) \<noteq> (q, l)" "a \<in> set (N k j)" for k j a
    using other [OF that(1-3)] that(4) by (intro same) blast+
  have lev: "level_rep (rq_nodes m') lq (N k j) = level_rep (rq_nodes m) lq (N k j)"
    if "k \<in> dom (run_queues m)" "j < 4" "(k, j) \<noteq> (q, l)" for k j lq
    using keep [OF that] by (intro level_rep_frame)
  show ?thesis
  proof (rule rq_invI)
    fix k x assume x: "run_queues m' k = Some x"
    show "rq_rep m' x (?N k)"
    proof (cases "k = q")
      case True
      have rep0: "rq_rep m rq (N q)" using D(2) rq by blast
      have "total_count rq' = of_nat (length (queued ((N q)(l := ns))))"
      proof -
        have "of_nat (length (queued ((N q)(l := ns)))) + of_nat (length (N q l)) =
            (of_nat (length (queued (N q))) + of_nat (length ns) :: size_t)"
          using queued_length [OF l, of "N q" ns] by (metis of_nat_add)
        also have "\<dots> = total_count rq' + of_nat (length (N q l))"
          using cnt rep0 by (simp add: rq_rep_def)
        finally show ?thesis by simp
      qed
      moreover have "level_rep (rq_nodes m') (queues rq' ! j) (((N q)(l := ns)) j)" if "j < 4" for j
        using that rep rep0 lev [of q j] rq l by (cases "j = l") (auto simp: rq_rep_def rq'(1))
      ultimately have "rq_rep m' rq' ((N q)(l := ns))"
        using rep0 unfolding rq_rep_def vt rq'(2) by (simp add: rq'(1))
      then show ?thesis using True x rqs by simp
    next
      case False
      with x rqs have k: "run_queues m k = Some x" by simp
      then have "rq_rep m x (N k)" by (rule D(2))
      moreover have "level_rep (rq_nodes m') lq (N k j) = level_rep (rq_nodes m) lq (N k j)" if "j < 4" for j lq
        using k False that by (intro lev) auto
      ultimately show ?thesis using False by (simp add: rq_rep_def vt)
    qed
  next
    fix k k' and j j' :: nat assume k: "k \<in> dom (run_queues m')" "k' \<in> dom (run_queues m')" "j < 4" "j' < 4" "(k, j) \<noteq> (k', j')"
    show "set (?N k j) \<inter> set (?N k' j') = {}"
    proof (cases "(k, j) = (q, l) \<or> (k', j') = (q, l)")
      case True
      then show ?thesis using k other(2) [of k j] other(2) [of k' j'] unfolding dom by (auto split: if_splits)
    next
      case False
      then have "?N k j = N k j" "?N k' j' = N k' j'" by auto
      then show ?thesis using D(3) [of k k' j j'] k unfolding dom by simp
    qed
  qed (use inv' live apart D(7) procs in \<open>simp_all add: dom\<close>)
qed

lemma rq_abs_upd:
  assumes "rq_inv m N" "run_queues m q = Some rq" "l < 4" "rq_inv m' (N(q := (N q)(l := ns)))"
    "run_queues m' = (run_queues m)(q \<mapsto> rq')"
    "\<And>a. a \<notin> set (N q l) \<Longrightarrow> a \<notin> set ns \<Longrightarrow> rq_nodes m' a = rq_nodes m a"
    "set ns \<inter> (dom (rq_nodes m) - set (N q l)) = {}"
    "A = (\<lambda>q. map_option (\<lambda>_. rq_view (rq_nodes m) (N q)) (run_queues m q))"
  shows "rq_abs m' (A(q \<mapsto> (rq_view (rq_nodes m) (N q))[l := level_procs (rq_nodes m') ns]))"
proof -
  note D = rq_invD [OF assms(1)]
  have keep: "rq_nodes m' a = rq_nodes m a"
    if k: "k \<in> dom (run_queues m)" "j < 4" "(k, j) \<noteq> (q, l)" and a: "a \<in> set (N k j)" for k j a
  proof (rule assms(6))
    show "a \<notin> set (N q l)" using D(3) [OF k(1) _ k(2) assms(3) k(3)] assms(2) a by blast
    then show "a \<notin> set ns" using level_nodes(2) [OF assms(1)] k(1,2) a assms(7) by blast
  qed
  have "rq_view (rq_nodes m') (N k) = rq_view (rq_nodes m) (N k)" if "run_queues m k = Some x" "k \<noteq> q" for k x
    unfolding rq_view_def using that keep [of k] by (intro map_cong refl level_rep_frame(2)) auto
  moreover have "rq_view (rq_nodes m') ((N q)(l := ns)) = (rq_view (rq_nodes m) (N q))[l := level_procs (rq_nodes m') ns]"
    using keep [of q] assms(2) by (intro rq_view_upd [OF assms(3)]) auto
  ultimately have "A(q \<mapsto> (rq_view (rq_nodes m) (N q))[l := level_procs (rq_nodes m') ns]) =
      (\<lambda>k. map_option (\<lambda>_. rq_view (rq_nodes m') ((N(q := (N q)(l := ns))) k)) (run_queues m' k))"
    unfolding assms(5,8) by (auto simp: fun_eq_iff map_option_case split: option.split)
  with assms(4) show ?thesis unfolding rq_abs_def by blast
qed

subsection \<open>Enqueue\<close>

lemma rlinks_upd: "rlinks (S(a \<mapsto> n)) = (rlinks S)(a \<mapsto> rn_next n)"
  by (auto simp: rlinks_def)

lemma level_rep_tail:
  assumes "level_rep S lq ns"
  shows "lq_tail lq = 0 \<longleftrightarrow> ns = []" "lq_head lq = 0 \<longleftrightarrow> ns = []" "ns \<noteq> [] \<Longrightarrow> lq_tail lq = last ns"
proof -
  have c: "chain (rlinks S) (lq_head lq) ns 0" and t: "lq_tail lq = last_or_null ns"
    using assms by (simp_all add: level_rep_def)
  show "lq_tail lq = 0 \<longleftrightarrow> ns = []"
    using t chain_nonnull [OF c, of "last ns"] by (auto simp: last_or_null_def)
  show "lq_head lq = 0 \<longleftrightarrow> ns = []" using c by (cases ns) auto
  show "ns \<noteq> [] \<Longrightarrow> lq_tail lq = last ns" using t by (simp add: last_or_null_def)
qed

lemma level_rep_snoc:
  fixes p :: ptr
  assumes rep: "level_rep S lq ns" and a: "a \<noteq> 0" "S a = None"
  defines "S1 \<equiv> S(a \<mapsto> \<lparr>rn_proc = p, rn_next = 0\<rparr>)"
  shows "ns = [] \<Longrightarrow> level_rep S1 (lq\<lparr>lq_head := a, lq_tail := a, lq_count := lq_count lq + 1\<rparr>) (ns @ [a])"
    and "ns \<noteq> [] \<Longrightarrow> \<exists>prev. S (last ns) = Some prev \<and> last ns \<noteq> a \<and>
      level_rep (S1(last ns \<mapsto> prev\<lparr>rn_next := a\<rparr>)) (lq\<lparr>lq_tail := a, lq_count := lq_count lq + 1\<rparr>) (ns @ [a])"
proof -
  have c: "chain (rlinks S) (lq_head lq) ns 0" and n: "lq_count lq = of_nat (length ns)"
    using rep by (simp_all add: level_rep_def)
  have "set ns \<subseteq> dom S" using chain_dom [OF c] by (auto simp: rlinks_def)
  then have fresh: "a \<notin> set ns" "rlinks S a = None" using a(2) by (auto simp: rlinks_def)
  note snoc = chain_snoc [OF c a(1) fresh]
  show "level_rep S1 (lq\<lparr>lq_head := a, lq_tail := a, lq_count := lq_count lq + 1\<rparr>) (ns @ [a])" if "ns = []"
    using snoc that n by (simp add: level_rep_def S1_def rlinks_upd last_or_null_def)
  assume ns: "ns \<noteq> []"
  then obtain prev where prev: "S (last ns) = Some prev" using \<open>set ns \<subseteq> dom S\<close> last_in_set [OF ns] by blast
  have ne: "last ns \<noteq> a" using prev a(2) by auto
  then have "rlinks (S1(last ns \<mapsto> prev\<lparr>rn_next := a\<rparr>)) = (rlinks S)(last ns \<mapsto> a, a \<mapsto> 0)"
    by (simp add: S1_def rlinks_upd fun_upd_twist)
  then have "level_rep (S1(last ns \<mapsto> prev\<lparr>rn_next := a\<rparr>)) (lq\<lparr>lq_tail := a, lq_count := lq_count lq + 1\<rparr>) (ns @ [a])"
    using snoc ns n by (simp add: level_rep_def last_or_null_def)
  with prev ne show "\<exists>prev. S (last ns) = Some prev \<and> last ns \<noteq> a \<and>
      level_rep (S1(last ns \<mapsto> prev\<lparr>rn_next := a\<rparr>)) (lq\<lparr>lq_tail := a, lq_count := lq_count lq + 1\<rparr>) (ns @ [a])" by blast
qed

lemma rq_absE:
  assumes "rq_abs m A" "A q = Some w"
  obtains N rq where "rq_inv m N" "run_queues m q = Some rq" "w = rq_view (rq_nodes m) (N q)"
    "A = (\<lambda>q. map_option (\<lambda>_. rq_view (rq_nodes m) (N q)) (run_queues m q))" "q \<noteq> 0"
proof -
  obtain N where N: "rq_inv m N" "A = (\<lambda>q. map_option (\<lambda>_. rq_view (rq_nodes m) (N q)) (run_queues m q))"
    using assms(1) by (auto simp: rq_abs_def)
  moreover from this assms(2) obtain rq where "run_queues m q = Some rq" "w = rq_view (rq_nodes m) (N q)" by auto
  ultimately show thesis using rq_invD(7) [OF N(1)] by (intro that) auto
qed

lemma rq_sizes [simp]: "good_size sizeof_run_queue_node" "good_size sizeof_beam_run_queue"
  by (simp_all add: good_size_def sizeof_run_queue_node_def sizeof_beam_run_queue_def)

lemma procs_frame: "machine.more m' = machine.more m \<Longrightarrow>
    msgs m' = msgs m \<and> mboxes m' = mboxes m \<and> procs m' = procs m \<and> rq_nodes m' = rq_nodes m \<and>
    run_queues m' = run_queues m \<and> rq_machine.more m' = rq_machine.more m"
  by (cases m; cases m') simp

lemma owned_cong: "msgs m' = msgs m \<Longrightarrow> mboxes m' = mboxes m \<Longrightarrow> procs m' = procs m \<Longrightarrow> owned m' = owned m"
  by (simp add: owned_def heaps_def)

text \<open>The state after a node was linked in and its process made runnable.\<close>

lemma rq_push:
  assumes inv: "rq_inv m N" and rq: "run_queues m q = Some rq" and l: "l < 4" and p: "procs m p = Some pr"
    and call: "call_alloc (rq_alloc rq) sizeof_run_queue_node m = Some (a, m1)" "a \<noteq> 0"
    and S: "level_rep S lq' (N q l @ [a])" "dom S = insert a (dom (rq_nodes m))" "S a = Some \<lparr>rn_proc = p, rn_next = 0\<rparr>"
      "\<And>b. b \<noteq> a \<Longrightarrow> map_option rn_proc (S b) = map_option rn_proc (rq_nodes m b)"
      "\<And>b. b \<notin> set (N q l) \<Longrightarrow> b \<noteq> a \<Longrightarrow> S b = rq_nodes m b"
    and A: "A = (\<lambda>q. map_option (\<lambda>_. rq_view (rq_nodes m) (N q)) (run_queues m q))"
    and m': "m' = put_proc p (pr\<lparr>proc_state := st\<rparr>) (m1\<lparr>rq_nodes := S,
       run_queues := (run_queues m)(q \<mapsto> rq\<lparr>queues := (queues rq)[l := lq'], total_count := total_count rq + 1\<rparr>)\<rparr>)"
    and w: "w = rq_view (rq_nodes m) (N q)"
  shows "rq_abs m' (A(q \<mapsto> w[l := w ! l @ [p]]))"
proof -
  note D = rq_invD [OF inv]
  have vt: "vt_ok (rq_alloc rq) m" using D(2) [OF rq] by (simp add: rq_rep_def)
  obtain B where "mail_abs m B" using D(1) by (auto simp: proc_inv_def)
  then have env: "alloc_env (rq_alloc rq) m" using vt by (auto simp: mail_abs_def mail_inv_def)
  note E = env_ext_alloc [OF env rq_sizes(1) call(1)]
  note F = procs_frame [OF call_alloc_frame(2) [OF call(1)]]
  have fresh: "a \<notin> fst ` set (live m)" "fst ` set (live m1) = insert a (fst ` set (live m))"
    using vt.alloc_fresh [OF env rq_sizes(1) call] .
  let ?rq = "rq\<lparr>queues := (queues rq)[l := lq'], total_count := total_count rq + 1\<rparr>"
  let ?m = "m1\<lparr>rq_nodes := S, run_queues := (run_queues m)(q \<mapsto> ?rq)\<rparr>"
  have "vt_ok v m' = vt_ok v m1" "vt_ok v ?m = vt_ok v m1" for v
    by (rule vt_ok_cong; simp add: m' put_proc_def)+
  then have vts: "vt_ok v m' = vt_ok v m" "vt_ok v ?m = vt_ok v m" for v
    using E by (simp_all add: env_ext_def)
  have "machine_ok ?m = machine_ok m1" by (rule machine_ok_cong) simp_all
  then have ok: "machine_ok ?m" using E by (simp add: env_ext_def)
  have "proc_inv ?m"
  proof (rule proc_inv_env [OF D(1)])
    show "machine_ok ?m" by (rule ok)
    show "vt_ok v ?m = vt_ok v m" for v by (rule vts(2))
    show "b \<in> set (live ?m)" if "b \<in> set (live m)" "fst b \<in> owned m" for b
      using that(1) E by (auto simp: env_ext_def)
  qed (use F in simp_all)
  moreover have p': "procs ?m p = Some pr" using F p by simp
  ultimately have inv': "proc_inv m'"
    unfolding m' using frame_ok_updates(4) [OF proc_invD(3) [OF D(1) p]]
    by (intro proc_inv_put [of ?m p pr]) simp_all
  have nodes: "rq_nodes m' = S" and rqs: "run_queues m' = (run_queues m)(q \<mapsto> ?rq)"
    and procs: "dom (procs m') = dom (procs m)" and live: "live m' = live m1"
    using p F by (auto simp: m' put_proc_def)
  have "heaps m' = heaps m" "msgs m' = msgs m" "mboxes m' = mboxes m"
    using F p by (auto simp: heaps_def m' put_proc_def)
  then have owned: "owned m' = owned m" using procs by (simp add: owned_def)
  have objs: "rq_objs m' = insert a (rq_objs m)" using S(2) rq by (auto simp: rq_objs_def nodes rqs)
  have a_new: "a \<notin> dom (rq_nodes m)" "a \<notin> dom (run_queues m)" "a \<notin> owned m" "a \<notin> set (N q l)"
    using D(4) fresh(1) owned_live [OF D(1)] level_nodes(2) [OF inv rq l]
    unfolding rq_objs_def by blast+
  have inv_new: "rq_inv m' (N(q := (N q)(l := N q l @ [a])))"
  proof (rule rq_inv_upd [OF inv rq l inv' vts(1) rqs], unfold nodes objs owned live)
    show "insert a (rq_objs m) \<subseteq> fst ` set (live m1)" using D(4) unfolding fresh(2) by blast
    show "insert a (rq_objs m) \<inter> owned m = {}" using D(5) a_new(3) by blast
    show "dom S \<inter> dom (run_queues m) = {}" using D(6) a_new(2) by (simp only: S(2) Int_insert_left if_False)
    show "rn_proc n \<in> dom (procs m')" if n: "S b = Some n" for b n
      unfolding procs
    proof (cases "b = a")
      case True
      then show "rn_proc n \<in> dom (procs m)" using n S(3) p by auto
    next
      case False
      then obtain n' where "rq_nodes m b = Some n'" "rn_proc n' = rn_proc n" using S(4) [of b] n by (cases "rq_nodes m b") auto
      then show "rn_proc n \<in> dom (procs m)" using D(8) by metis
    qed
    show "set (N q l @ [a]) \<inter> (dom (rq_nodes m) - set (N q l)) = {}" using a_new(1) by auto
  qed (use S(1,5) in simp_all)
  have "level_procs S (N q l @ [a]) = w ! l @ [p]"
  proof -
    have "rn_proc (the (S b)) = rn_proc (the (rq_nodes m b))" if "b \<in> set (N q l)" for b
      using S(4) [of b] that a_new(4) level_nodes(2) [OF inv rq l] by (cases "S b"; cases "rq_nodes m b"; auto)
    then show ?thesis using l S(3) by (simp add: level_procs_def w rq_view_def)
  qed
  with rq_abs_upd [OF inv rq l inv_new rqs _ _ A] S(5) a_new(1) show ?thesis
    by (auto simp: nodes w)
qed

lemma rq_enqueue:
  assumes abs: "rq_abs m A" "A q = Some w" and p: "procs m p = Some pr" and prio: "prio < 4"
  shows "\<exists>r m'. beam_run_queue_enqueue q p prio m = Some (r, m') \<and>
    (r = BEAM_OK \<and> rq_abs m' (A(q \<mapsto> w[unat prio := w ! unat prio @ [p]])) \<and>
       procs m' = (procs m)(p \<mapsto> pr\<lparr>proc_state := BEAM_PROC_STATE_RUNNABLE\<rparr>) \<or>
     r = BEAM_ERR_NO_MEMORY \<and> rq_abs m' A \<and> procs m' = procs m)"
proof -
  obtain N rq where N: "rq_inv m N" and rq: "run_queues m q = Some rq" and w: "w = rq_view (rq_nodes m) (N q)"
    and A: "A = (\<lambda>q. map_option (\<lambda>_. rq_view (rq_nodes m) (N q)) (run_queues m q))" and q0: "q \<noteq> 0"
    using abs by (rule rq_absE)
  note D = rq_invD [OF N]
  let ?l = "unat prio"
  have l: "?l < 4" using prio by (simp add: word_less_nat_alt)
  have p0: "p \<noteq> 0" using proc_invD(4) [OF D(1) p] .
  have vt: "vt_ok (rq_alloc rq) m" using D(2) [OF rq] by (simp add: rq_rep_def)
  have env: "alloc_env (rq_alloc rq) m" using vt proc_invD(7) [OF D(1) p] by simp
  obtain a m1 where call: "call_alloc (rq_alloc rq) sizeof_run_queue_node m = Some (a, m1)"
    using vt.alloc_total [OF env] by blast
  note E = env_ext_alloc [OF env rq_sizes(1) call]
  note F = procs_frame [OF call_alloc_frame(2) [OF call]]
  have guard: "\<not> (q = 0 \<or> p = 0 \<or> BEAM_NUM_PRIORITIES \<le> prio)"
    using q0 p0 prio by (simp add: BEAM_NUM_PRIORITIES_def not_le)
  show ?thesis
  proof (cases "a = 0")
    case True
    have "proc_inv m1" using D(1) E by (rule proc_inv_ext)
    moreover have "rq_objs m \<subseteq> fst ` set (live m1)" using D(4) env_ext_bases [OF E] by (rule subset_trans)
    ultimately have "rq_abs m1 A"
      using F E D(5) owned_cong [of m1 m]
      by (intro rq_abs_cong [OF abs(1)]) (simp_all add: env_ext_def)
    with True guard rq call F show ?thesis by (simp add: beam_run_queue_enqueue_def)
  next
    case a: False
    note lev = level_nodes [OF N rq l]
    note T = level_rep_tail [OF lev(1)]
    have "a \<notin> dom (rq_nodes m)" using vt.alloc_fresh(1) [OF env rq_sizes(1) call a] D(4) by (auto simp: rq_objs_def)
    then have a_new: "rq_nodes m a = None" by blast
    note snoc = level_rep_snoc [OF lev(1) a a_new, where p = p]
    note push = rq_push [OF N rq l p call a _ _ _ _ _ A refl w]
    let ?S = "(rq_nodes m)(a \<mapsto> \<lparr>rn_proc = p, rn_next = 0\<rparr>)"
    show ?thesis
    proof (cases "N q ?l = []")
      case True
      note new = push [OF snoc(1) [OF True] _ _ _ _, of BEAM_PROC_STATE_RUNNABLE]
      have "lq_tail (queues rq ! ?l) = 0" using T(1) True by simp
      with guard rq call a F p p0 True show ?thesis
        by (simp add: beam_run_queue_enqueue_def Let_def put_node_def put_rq_def beam_process_set_state_def proc_set_def)
          (intro new; auto)
    next
      case False
      obtain prev where prev: "rq_nodes m (last (N q ?l)) = Some prev" "last (N q ?l) \<noteq> a"
        "level_rep (?S(last (N q ?l) \<mapsto> prev\<lparr>rn_next := a\<rparr>))
          ((queues rq ! ?l)\<lparr>lq_tail := a, lq_count := lq_count (queues rq ! ?l) + 1\<rparr>) (N q ?l @ [a])"
        using snoc(2) [OF False] by blast
      note new = push [OF prev(3) _ _ _ _, of BEAM_PROC_STATE_RUNNABLE]
      have "lq_tail (queues rq ! ?l) \<noteq> 0" "lq_tail (queues rq ! ?l) = last (N q ?l)" using T False by simp_all
      with guard rq call a F p p0 prev(1,2) False show ?thesis
        by (simp add: beam_run_queue_enqueue_def Let_def put_node_def put_rq_def beam_process_set_state_def proc_set_def)
          (intro new; auto)
    qed
  qed
qed

subsection \<open>Dequeue and steal\<close>

lemma level_rep_tl:
  assumes "level_rep S lq (a # ns)" "S a = Some n"
  shows "level_rep (S(a := None)) (lq\<lparr>lq_head := rn_next n, lq_tail := (if rn_next n = 0 then 0 else lq_tail lq),
      lq_count := lq_count lq - 1\<rparr>) ns" "lq_head lq = a"
proof -
  have c: "chain (rlinks S) (lq_head lq) (a # ns) 0" and t: "lq_tail lq = last_or_null (a # ns)"
    and k: "lq_count lq = of_nat (length (a # ns))"
    using assms(1) by (simp_all add: level_rep_def)
  have "rlinks (S(a := None)) = (rlinks S)(a := None)" by (auto simp: rlinks_def)
  moreover have "chain ((rlinks S)(a := None)) (rn_next n) ns 0"
    using chain_remove_head [OF c, of "rn_next n"] assms(2) by (simp add: rlinks_def)
  moreover from this have "rn_next n = 0 \<longleftrightarrow> ns = []" by (cases ns) auto
  ultimately show "level_rep (S(a := None)) (lq\<lparr>lq_head := rn_next n,
      lq_tail := (if rn_next n = 0 then 0 else lq_tail lq), lq_count := lq_count lq - 1\<rparr>) ns"
    using t k by (auto simp: level_rep_def last_or_null_def)
  show "lq_head lq = a" using c by simp
qed

text \<open>The state after the first node of a level was unlinked and freed and its process started.\<close>

lemma rq_pop:
  assumes inv: "rq_inv m N" and rq: "run_queues m q = Some rq" and l: "l < 4" and a: "N q l = a # ns"
    and n: "rq_nodes m a = Some n" and A: "A = (\<lambda>q. map_option (\<lambda>_. rq_view (rq_nodes m) (N q)) (run_queues m q))"
    and w: "w = rq_view (rq_nodes m) (N q)"
    and lq': "lq' = (queues rq ! l)\<lparr>lq_head := rn_next n,
      lq_tail := (if rn_next n = 0 then 0 else lq_tail (queues rq ! l)), lq_count := lq_count (queues rq ! l) - 1\<rparr>"
    and m1: "m1 = m\<lparr>run_queues := (run_queues m)(q \<mapsto> rq\<lparr>queues := (queues rq)[l := lq'], total_count := total_count rq - 1\<rparr>)\<rparr>"
  shows "\<exists>pr m2. procs m (rn_proc n) = Some pr \<and> free_node (rq_alloc rq) a m1 = Some m2 \<and> procs m2 = procs m \<and>
    rq_abs (put_proc (rn_proc n) (pr\<lparr>proc_state := st\<rparr>) m2) (A(q \<mapsto> w[l := level_procs (rq_nodes m) ns]))"
proof -
  note D = rq_invD [OF inv]
  obtain pr where pr: "procs m (rn_proc n) = Some pr" using D(8) [OF n] by blast
  have ok: "machine_ok m" using proc_invD(7) [OF D(1) pr] .
  have "machine_ok m1 = machine_ok m" by (rule machine_ok_cong) (simp_all add: m1)
  moreover have vt1: "vt_ok v m1 = vt_ok v m" for v by (rule vt_ok_cong) (simp_all add: m1)
  moreover have "vt_ok (rq_alloc rq) m" using D(2) [OF rq] by (simp add: rq_rep_def)
  ultimately have env: "alloc_env (rq_alloc rq) m1" using ok by simp
  have a_obj: "a \<in> rq_objs m" using n by (auto simp: rq_objs_def)
  then have "a \<in> fst ` set (live m1)" using D(4) by (auto simp: m1)
  then obtain m0 where m0: "call_free (rq_alloc rq) a m1 = Some m0" using vt.free_total [OF env] by blast
  note F = procs_frame [OF call_free_frame(2) [OF m0]]
  let ?m2 = "m0\<lparr>rq_nodes := (rq_nodes m0)(a := None)\<rparr>" and ?pr = "pr\<lparr>proc_state := st\<rparr>"
  let ?m' = "put_proc (rn_proc n) ?pr ?m2"
  have free: "free_node (rq_alloc rq) a m1 = Some ?m2" using m0 by (simp add: free_node_def)
  have same: "procs ?m2 = procs m" "msgs ?m2 = msgs m" "mboxes ?m2 = mboxes m" using F by (simp_all add: m1)
  have keep: "b \<in> set (live ?m2)" if "b \<in> set (live m)" "fst b \<noteq> a" for b
    using call_free_frame(4) [OF m0, of b] that by (simp add: m1)
  have "vt_ok v ?m2 = vt_ok v m0" "vt_ok v ?m' = vt_ok v m0" for v by (rule vt_ok_cong; simp add: put_proc_def)+
  then have vt: "vt_ok v ?m2 = vt_ok v m" "vt_ok v ?m' = vt_ok v m" for v
    using vt_ok_call_free [OF m0] vt1 by simp_all
  have "machine_ok ?m2 = machine_ok m0" by (rule machine_ok_cong) simp_all
  then have ok2: "machine_ok ?m2" using vt.free_ok [OF env m0] by simp
  have inv2: "proc_inv ?m2"
  proof (rule proc_inv_env [OF D(1) ok2 vt(1) same(2,3,1)])
    show "b \<in> set (live ?m2)" if "b \<in> set (live m)" "fst b \<in> owned m" for b
      using that a_obj D(5) by (intro keep) auto
  qed
  have inv': "proc_inv ?m'"
    using frame_ok_updates(4) [OF proc_invD(3) [OF D(1) pr]] same(1) pr
    by (intro proc_inv_put [OF inv2, of _ pr]) simp_all
  have nodes: "rq_nodes ?m' = (rq_nodes m)(a := None)" and live': "live ?m' = live ?m2"
    and rqs: "run_queues ?m' = (run_queues m)(q \<mapsto> rq\<lparr>queues := (queues rq)[l := lq'], total_count := total_count rq - 1\<rparr>)"
    using F by (simp_all add: m1 put_proc_def)
  have dom: "dom (procs ?m') = dom (procs m)" using same(1) pr by auto
  have "heaps ?m' = heaps m" using same(1) pr by (auto simp: heaps_def put_proc_def)
  moreover have "msgs ?m' = msgs m" "mboxes ?m' = mboxes m" using same by (simp_all add: put_proc_def)
  ultimately have owned: "owned ?m' = owned m" using dom by (simp add: owned_def)
  have nq: "a \<notin> dom (run_queues m)" using n D(6) by blast
  have objs: "rq_objs ?m' = rq_objs m - {a}"
    unfolding rq_objs_def nodes rqs using rq nq by auto
  have bases: "rq_objs m - {a} \<subseteq> fst ` set (live ?m2)"
  proof
    fix x assume x: "x \<in> rq_objs m - {a}"
    then obtain b where "b \<in> set (live m)" "x = fst b" using D(4) by blast
    then show "x \<in> fst ` set (live ?m2)" using keep [of b] x by blast
  qed
  have dist: "a \<notin> set ns" using level_nodes(4) [OF inv rq l] a by simp
  have rep: "level_rep ((rq_nodes m)(a := None)) lq' ns"
    unfolding lq' using level_nodes(1) [OF inv rq l] a n by (intro level_rep_tl) simp_all
  have "rq_inv ?m' (N(q := (N q)(l := ns)))"
  proof (rule rq_inv_upd [OF inv rq l inv' vt(2) rqs], unfold nodes objs owned live')
    show "dom ((rq_nodes m)(a := None)) \<inter> dom (run_queues m) = {}" using D(6) by auto
    show "rn_proc x \<in> dom (procs ?m')" if "((rq_nodes m)(a := None)) b = Some x" for b x
      using that D(8) unfolding dom by (auto split: if_splits)
  qed (use bases D(5) rep a in auto)
  from rq_abs_upd [OF inv rq l this rqs _ _ A] have "rq_abs ?m' (A(q \<mapsto> w[l := level_procs ((rq_nodes m)(a := None)) ns]))"
    unfolding nodes w using a by auto
  moreover have "level_procs ((rq_nodes m)(a := None)) ns = level_procs (rq_nodes m) ns"
    using dist by (intro level_rep_frame(2)) auto
  ultimately show ?thesis using pr free same(1) by auto
qed

lemma rq_view_nth [simp]: "l < 4 \<Longrightarrow> rq_view S ns ! l = level_procs S (ns l)" "length (rq_view S ns) = 4"
  by (simp_all add: rq_view_def)

lemma queued_empty: "queued ns = [] \<longleftrightarrow> (\<forall>l < 4. ns l = [])" "concat (rq_view S ns) = [] \<longleftrightarrow> queued ns = []"
  by (auto simp: queued_def rq_view_def level_procs_def)

lemma find_cong_set: "(\<And>x. x \<in> set xs \<Longrightarrow> P x = Q x) \<Longrightarrow> find P xs = find Q xs"
  by (induction xs) auto

lemma rq_take_run:
  assumes abs: "rq_abs m A" "A q = Some w" and levels: "set levels = {..<4}"
  shows "if concat w = [] then rq_take levels q m = Some (0, m)
    else \<exists>l p ps pr m'. find (\<lambda>l. w ! l \<noteq> []) levels = Some l \<and> l < 4 \<and> w ! l = p # ps \<and> procs m p = Some pr \<and>
      rq_take levels q m = Some (p, m') \<and> rq_abs m' (A(q \<mapsto> w[l := ps])) \<and>
      procs m' = (procs m)(p \<mapsto> pr\<lparr>proc_state := BEAM_PROC_STATE_RUNNING\<rparr>)"
proof -
  obtain N rq where N: "rq_inv m N" and rq: "run_queues m q = Some rq" and w: "w = rq_view (rq_nodes m) (N q)"
    and A: "A = (\<lambda>q. map_option (\<lambda>_. rq_view (rq_nodes m) (N q)) (run_queues m q))"
    using abs by (rule rq_absE)
  note D = rq_invD [OF N]
  have "total_count rq = of_nat (length (queued (N q)))" using D(2) [OF rq] by (simp add: rq_rep_def)
  moreover have "(of_nat (length (queued (N q))) :: size_t) = 0 \<longleftrightarrow> queued (N q) = []"
    using queued_bound [OF N rq] by (auto simp: unat_of_nat_small unat_eq_zero [symmetric] simp del: unat_eq_zero)
  ultimately have total: "total_count rq = 0 \<longleftrightarrow> concat w = []" unfolding w queued_empty(2) by simp
  have head: "lq_head (queues rq ! l) \<noteq> 0 \<longleftrightarrow> w ! l \<noteq> []" if "l < 4" for l
    using level_rep_tail(2) [OF level_nodes(1) [OF N rq that]] that by (simp add: w level_procs_def)
  have find: "find (\<lambda>l. lq_head (queues rq ! l) \<noteq> 0) levels = find (\<lambda>l. w ! l \<noteq> []) levels"
    by (rule find_cong_set) (use head levels in auto)
  show ?thesis
  proof (cases "concat w = []")
    case True
    with total rq show ?thesis by (simp add: rq_take_def)
  next
    case False
    then obtain k where "k < 4" "w ! k \<noteq> []"
      by (metis concat_eq_Nil_conv in_set_conv_nth rq_view_nth(2) w)
    then obtain l where l: "find (\<lambda>l. w ! l \<noteq> []) levels = Some l"
      using levels by (cases "find (\<lambda>l. w ! l \<noteq> []) levels") (auto simp: find_None_iff)
    then have l4: "l < 4" "w ! l \<noteq> []" using levels by (auto simp: find_Some_iff)
    then obtain a ns where a: "N q l = a # ns" by (cases "N q l") (auto simp: w level_procs_def)
    then obtain n where n: "rq_nodes m a = Some n" using level_nodes(2) [OF N rq l4(1)] by auto
    have hd: "lq_head (queues rq ! l) = a"
      using level_nodes(1) [OF N rq l4(1)] n a by (intro level_rep_tl(2) [of "rq_nodes m" _ a ns n]) simp_all
    have p0: "rn_proc n \<noteq> 0" using proc_invD(4) [OF D(1)] D(8) [OF n] by blast
    have wl: "w ! l = rn_proc n # level_procs (rq_nodes m) ns" using l4(1) a n by (simp add: w level_procs_def)
    obtain pr m2 where pop: "procs m (rn_proc n) = Some pr" "free_node (rq_alloc rq) a
        (m\<lparr>run_queues := (run_queues m)(q \<mapsto> rq\<lparr>queues := (queues rq)[l := (queues rq ! l)\<lparr>lq_head := rn_next n,
          lq_tail := (if rn_next n = 0 then 0 else lq_tail (queues rq ! l)), lq_count := lq_count (queues rq ! l) - 1\<rparr>],
          total_count := total_count rq - 1\<rparr>)\<rparr>) = Some m2" "procs m2 = procs m"
      "rq_abs (put_proc (rn_proc n) (pr\<lparr>proc_state := BEAM_PROC_STATE_RUNNING\<rparr>) m2)
         (A(q \<mapsto> w[l := level_procs (rq_nodes m) ns]))"
      using rq_pop [OF N rq l4(1) a n A w refl refl, of BEAM_PROC_STATE_RUNNING] by blast
    have "rq_take levels q m = Some (rn_proc n, put_proc (rn_proc n) (pr\<lparr>proc_state := BEAM_PROC_STATE_RUNNING\<rparr>) m2)"
      using rq False total find l hd n pop(1-3) p0
      by (simp add: rq_take_def Let_def put_rq_def beam_process_set_state_def proc_set_def del: if_split)
    with False l l4(1) wl pop show ?thesis by auto
  qed
qed

subsection \<open>Creation\<close>

lemma rq_abs_none:
  assumes "proc_inv m" "rq_nodes m = Map.empty" "run_queues m = Map.empty"
  shows "rq_abs m Map.empty"
proof -
  have "rq_inv m (\<lambda>_ _. [])" by (rule rq_invI) (simp_all add: assms rq_objs_def)
  then show ?thesis by (auto simp: rq_abs_def assms(3))
qed

lemma rq_create:
  assumes abs: "rq_abs m A" and vt: "vt_ok vt m"
  shows "\<exists>q m'. beam_run_queue_create (Some vt) m = Some (q, m') \<and> procs m' = procs m \<and>
    (if q = 0 then rq_abs m' A else A q = None \<and> rq_abs m' (A(q \<mapsto> replicate 4 [])))"
proof -
  obtain N where N: "rq_inv m N" and A: "A = (\<lambda>q. map_option (\<lambda>_. rq_view (rq_nodes m) (N q)) (run_queues m q))"
    using abs by (auto simp: rq_abs_def)
  note D = rq_invD [OF N]
  have "machine_ok m" using D(1) unfolding proc_inv_def mail_abs_def mail_inv_def by blast
  then have env: "alloc_env vt m" using vt by simp
  obtain q m1 where call: "call_alloc vt sizeof_beam_run_queue m = Some (q, m1)"
    using vt.alloc_total [OF env] by blast
  note E = env_ext_alloc [OF env rq_sizes(2) call] and F = procs_frame [OF call_alloc_frame(2) [OF call]]
  have arg: "alloc_arg_ok (Some vt)"
    using vt by (auto simp: vt_ok_def alloc_arg_ok_def split: alloc_fn.splits)
  have inv1: "proc_inv m1" using D(1) E by (rule proc_inv_ext)
  have bases: "rq_objs m \<subseteq> fst ` set (live m1)" using D(4) env_ext_bases [OF E] by (rule subset_trans)
  show ?thesis
  proof (cases "q = 0")
    case True
    have "rq_abs m1 A"
      using F E D(5) bases inv1 owned_cong [of m1 m] by (intro rq_abs_cong [OF abs]) (simp_all add: env_ext_def)
    with True arg call F show ?thesis by (simp add: beam_run_queue_create_def)
  next
    case False
    let ?lq = "\<lparr>lq_head = 0, lq_tail = 0, lq_count = 0\<rparr>"
    let ?rq = "\<lparr>queues = replicate (unat BEAM_NUM_PRIORITIES) ?lq, total_count = 0, rq_alloc = vt\<rparr>"
    let ?m = "put_rq q ?rq m1" and ?N = "N(q := \<lambda>_. [])"
    have fresh: "q \<notin> fst ` set (live m)" "fst ` set (live m1) = insert q (fst ` set (live m))"
      using vt.alloc_fresh [OF env rq_sizes(2) call False] .
    then have new: "q \<notin> rq_objs m" "q \<notin> owned m" using D(4) owned_live [OF D(1)] by blast+
    have vts: "vt_ok v ?m = vt_ok v m" for v
      using E vt_ok_cong [of ?m m1 v] by (simp add: env_ext_def put_rq_def)
    have ok: "machine_ok ?m" using E machine_ok_cong [of ?m m1] by (simp add: env_ext_def put_rq_def)
    have inv': "proc_inv ?m"
      using E F by (intro proc_inv_env [OF D(1) ok vts]) (auto simp: env_ext_def put_rq_def)
    have rqs: "run_queues ?m = (run_queues m)(q \<mapsto> ?rq)" and nodes: "rq_nodes ?m = rq_nodes m"
      and live: "live ?m = live m1" using F by (simp_all add: put_rq_def)
    have owned: "owned ?m = owned m" using F by (intro owned_cong) (simp_all add: put_rq_def)
    have objs: "rq_objs ?m = insert q (rq_objs m)" by (auto simp: rq_objs_def rqs nodes)
    have "rq_inv ?m ?N"
    proof (rule rq_invI, unfold objs owned live nodes)
      show "insert q (rq_objs m) \<subseteq> fst ` set (live m1)" using D(4) unfolding fresh(2) by blast
      show "insert q (rq_objs m) \<inter> owned m = {}" using D(5) new(2) by blast
      show "rn_proc n \<in> dom (procs ?m)" if "rq_nodes m a = Some n" for a n
        using D(8) [OF that] F by (simp add: put_rq_def)
      show "rq_rep ?m rq (?N k)" if "run_queues ?m k = Some rq" for k rq
      proof (cases "k = q")
        case True
        then have "rq = ?rq" using that by (simp add: rqs)
        moreover have "rq_rep ?m ?rq (\<lambda>_. [])"
          using vt unfolding rq_rep_def vts
          by (simp add: BEAM_NUM_PRIORITIES_def queued_def upt4 level_rep_def last_or_null_def)
        ultimately show ?thesis using True by simp
      next
        case False
        then show ?thesis using that D(2) [of k rq] by (simp add: rqs rq_rep_def vts nodes)
      qed
      show "set (?N k j) \<inter> set (?N k' j') = {}"
        if "k \<in> dom (run_queues ?m)" "k' \<in> dom (run_queues ?m)" "j < 4" "j' < 4" "(k, j) \<noteq> (k', j')" for k k' and j j' :: nat
        using that D(3) [of k k' j j'] by (cases "k = q \<or> k' = q") (auto simp: rqs)
      show "dom (rq_nodes m) \<inter> dom (run_queues ?m) = {}" using D(6) new(1) by (auto simp: rqs rq_objs_def)
      show "0 \<notin> dom (run_queues ?m)" using D(7) False by (simp add: rqs)
    qed (rule inv')
    moreover have "A(q \<mapsto> replicate 4 []) = (\<lambda>k. map_option (\<lambda>_. rq_view (rq_nodes ?m) (?N k)) (run_queues ?m k))"
      by (auto simp: A nodes rqs fun_eq_iff rq_view_def level_procs_def upt4 numeral_eq_Suc)
    ultimately have "rq_abs ?m (A(q \<mapsto> replicate 4 []))" unfolding rq_abs_def by blast
    moreover have "A q = None" using new(1) by (auto simp: A rq_objs_def)
    ultimately show ?thesis using False arg call F by (simp add: beam_run_queue_create_def put_rq_def)
  qed
qed

subsection \<open>The contract\<close>

text \<open>Take processes from a source until it has none or \<open>n\<close> were taken.\<close>

fun drain :: "('m \<Rightarrow> (ptr \<times> 'm) option) \<Rightarrow> nat \<Rightarrow> 'm \<Rightarrow> (ptr list \<times> 'm) option" where
  "drain fetch 0 m = Some ([], m)"
| "drain fetch (Suc n) m = do {
     (p, m1) \<leftarrow> fetch m;
     if p = 0 then Some ([], m1)
     else do { (ps, m2) \<leftarrow> drain fetch n m1; Some (p # ps, m2) }
   }"

locale work_source =
  fixes fetch :: "'m \<Rightarrow> (ptr \<times> 'm) option"
    and rep :: "'m \<Rightarrow> 'w \<Rightarrow> bool"
    and order :: "'w \<Rightarrow> ptr list"
  assumes take_empty: "rep m w \<Longrightarrow> order w = [] \<Longrightarrow> fetch m = Some (0, m)"
    and take_first: "rep m w \<Longrightarrow> order w = p # ps \<Longrightarrow>
      p \<noteq> 0 \<and> (\<exists>m' w'. fetch m = Some (p, m') \<and> rep m' w' \<and> order w' = ps)"
begin

lemma drain_all:
  assumes "rep m w" "length (order w) \<le> n"
  shows "\<exists>m' w'. drain fetch n m = Some (order w, m') \<and> rep m' w' \<and> order w' = []"
  using assms
proof (induction n arbitrary: m w)
  case 0
  then show ?case by auto
next
  case (Suc n)
  show ?case
  proof (cases "order w")
    case Nil
    with Suc.prems take_empty show ?thesis by auto
  next
    case (Cons p ps)
    then obtain m1 w1 where m1: "p \<noteq> 0" "fetch m = Some (p, m1)" "rep m1 w1" "order w1 = ps"
      using take_first [OF Suc.prems(1)] by blast
    then obtain m2 w2 where "drain fetch n m1 = Some (ps, m2)" "rep m2 w2" "order w2 = []"
      using Suc.IH [OF m1(3)] Suc.prems(2) Cons by auto
    with m1 Cons show ?thesis by auto
  qed
qed

end

lemma concat_first:
  assumes "find (\<lambda>l. w ! l \<noteq> []) [0..<length w] = Some l" "w ! l = p # ps"
  shows "concat w = p # concat (w[l := ps])"
proof -
  have l: "l < length w" "\<And>j. j < l \<Longrightarrow> w ! j = []"
    using assms(1) by (auto simp: find_Some_iff)
  have "\<forall>x \<in> set (take l w). x = []" using l by (auto simp: in_set_conv_nth)
  then have "concat (take l w) = []" by simp
  then show ?thesis
    using l(1) assms(2)
    by (subst id_take_nth_drop [OF l(1)]) (simp add: upd_conv_take_nth_drop del: concat_eq_Nil_conv)
qed

lemma concat_last:
  assumes "find (\<lambda>l. w ! l \<noteq> []) (rev [0..<length w]) = Some l" "w ! l = p # ps"
  shows "concat (rev w) = p # concat (rev (w[l := ps]))"
proof -
  obtain i where i: "i < length w" "l = length w - Suc i" "\<And>j. j < i \<Longrightarrow> w ! (length w - Suc j) = []"
    using assms(1) by (fastforce simp: find_Some_iff rev_nth)
  then have l: "l < length w" by simp
  have "w ! j = []" if "l < j" "j < length w" for j
    using i(3) [of "length w - Suc j"] i(1,2) that by simp
  then have "\<forall>x \<in> set (drop (Suc l) w). x = []" by (auto simp: in_set_conv_nth)
  then have "concat (rev (drop (Suc l) w)) = []" by simp
  then show ?thesis
    using l assms(2)
    by (subst id_take_nth_drop [OF l]) (simp add: upd_conv_take_nth_drop del: concat_eq_Nil_conv)
qed

abbreviation rq_holds :: "ptr \<Rightarrow> 'a rq_machine_scheme \<Rightarrow> ptr list list \<Rightarrow> bool" where
  "rq_holds q m w \<equiv> (\<exists>A. rq_abs m A \<and> A q = Some w)"

lemma rq_holdsD:
  assumes "rq_holds q m w"
  shows "length w = 4" "q \<noteq> 0" "0 \<notin> set (concat w)"
proof -
  obtain A where A: "rq_abs m A" "A q = Some w" using assms by blast
  then obtain N rq where N: "rq_inv m N" "run_queues m q = Some rq" "w = rq_view (rq_nodes m) (N q)" "q \<noteq> 0"
    by (rule rq_absE)
  then show "length w = 4" "q \<noteq> 0" by simp_all
  have "rn_proc (the (rq_nodes m a)) \<noteq> 0" if "l < 4" "a \<in> set (N q l)" for l a
    using level_nodes(2) [OF N(1,2) that(1)] that(2) rq_invD(1,8) [OF N(1)] proc_invD(4) by (metis domD option.sel subsetD)
  then show "0 \<notin> set (concat w)" by (auto simp: N(3) rq_view_def level_procs_def)
qed

lemma rq_take_holds:
  assumes "rq_holds q m w" "set levels = {..<4}"
  shows "concat w = [] \<Longrightarrow> rq_take levels q m = Some (0, m)"
    "concat w \<noteq> [] \<Longrightarrow> \<exists>l p ps m'. find (\<lambda>l. w ! l \<noteq> []) levels = Some l \<and> w ! l = p # ps \<and>
       rq_take levels q m = Some (p, m') \<and> rq_holds q m' (w[l := ps])"
proof -
  obtain A where A: "rq_abs m A" "A q = Some w" using assms by blast
  note R = rq_take_run [OF A assms(2)]
  show "concat w = [] \<Longrightarrow> rq_take levels q m = Some (0, m)" using R by simp
  assume "concat w \<noteq> []"
  then obtain l p ps m' where "find (\<lambda>l. w ! l \<noteq> []) levels = Some l" "w ! l = p # ps"
    "rq_take levels q m = Some (p, m')" "rq_abs m' (A(q \<mapsto> w[l := ps]))" using R by (auto simp del: concat_eq_Nil_conv)
  then show "\<exists>l p ps m'. find (\<lambda>l. w ! l \<noteq> []) levels = Some l \<and> w ! l = p # ps \<and>
       rq_take levels q m = Some (p, m') \<and> rq_holds q m' (w[l := ps])" by (metis fun_upd_same)
qed

interpretation rq_deq: work_source "beam_run_queue_dequeue q" "rq_holds q" concat for q
proof (unfold_locales, goal_cases)
  case (1 m w)
  with rq_take_holds(1) [OF 1(1)] rq_holdsD [OF 1(1)] show ?case
    by (simp add: beam_run_queue_dequeue_def BEAM_NUM_PRIORITIES_def lessThan_atLeast0)
next
  case (2 m w p ps)
  have lv: "set [0..<unat BEAM_NUM_PRIORITIES] = {..<4}" by (auto simp: BEAM_NUM_PRIORITIES_def)
  note H = rq_holdsD [OF 2(1)]
  obtain l x xs m' where t: "find (\<lambda>l. w ! l \<noteq> []) [0..<unat BEAM_NUM_PRIORITIES] = Some l" "w ! l = x # xs"
    "rq_take [0..<unat BEAM_NUM_PRIORITIES] q m = Some (x, m')" "rq_holds q m' (w[l := xs])"
    using rq_take_holds(2) [OF 2(1) lv] 2(2) by (metis list.distinct(1))
  have "concat w = x # concat (w[l := xs])"
    using t(1,2) H(1) by (intro concat_first) (simp_all add: BEAM_NUM_PRIORITIES_def)
  with 2(2) t(3,4) H(2,3) show ?case by (auto simp: beam_run_queue_dequeue_def)
qed

interpretation rq_steal: work_source "beam_run_queue_steal q" "rq_holds q" "\<lambda>w. concat (rev w)" for q
proof (unfold_locales, goal_cases)
  case (1 m w)
  with rq_take_holds(1) [OF 1(1)] rq_holdsD [OF 1(1)] show ?case
    by (simp add: beam_run_queue_steal_def BEAM_NUM_PRIORITIES_def lessThan_atLeast0)
next
  case (2 m w p ps)
  have lv: "set (rev [0..<unat BEAM_NUM_PRIORITIES]) = {..<4}" by (auto simp: BEAM_NUM_PRIORITIES_def)
  note H = rq_holdsD [OF 2(1)]
  have "concat w \<noteq> []" using 2(2) by (metis concat_eq_Nil_conv list.distinct(1) set_rev)
  then obtain l x xs m' where t: "find (\<lambda>l. w ! l \<noteq> []) (rev [0..<unat BEAM_NUM_PRIORITIES]) = Some l" "w ! l = x # xs"
    "rq_take (rev [0..<unat BEAM_NUM_PRIORITIES]) q m = Some (x, m')" "rq_holds q m' (w[l := xs])"
    using rq_take_holds(2) [OF 2(1) lv] by blast
  have "concat (rev w) = x # concat (rev (w[l := xs]))"
    using t(1,2) H(1) by (intro concat_last) (simp_all add: BEAM_NUM_PRIORITIES_def)
  moreover have "0 \<notin> set (concat (rev w))" using H(3) by simp
  ultimately show ?case using 2(2) t(3,4) H(2) by (auto simp: beam_run_queue_steal_def)
qed

subsection \<open>A run queue for examples\<close>

text \<open>Two processes and a run queue that holds none of them yet, then both.\<close>

definition rq_start :: "'a \<Rightarrow> ptr list \<Rightarrow> 'a rq_machine_scheme" where
  "rq_start x rs = \<lparr>words = (\<lambda>_. 0), live = [], raw = [], malloc_results = rs, sys_states = Map.empty,
     arenas = Map.empty, msgs = Map.empty, mboxes = Map.empty, procs = Map.empty,
     rq_nodes = Map.empty, run_queues = Map.empty, \<dots> = x\<rparr>"

definition rq_procs1 :: "'a \<Rightarrow> 'a rq_machine_scheme" where
  "rq_procs1 x = snd (the (beam_process_create 7 64 (Some sys_vt)
     (rq_start x [0x10000, 0x20000, 0x30000, 0x40000, 0x50000, 0x60000, 0x70000, 0x80000, 0x90000, 0xA0000])))"

definition rq_procs2 :: "'a \<Rightarrow> 'a rq_machine_scheme" where
  "rq_procs2 x = snd (the (beam_process_create 8 64 (Some sys_vt) (rq_procs1 x)))"

definition rq_empty :: "'a \<Rightarrow> 'a rq_machine_scheme" where
  "rq_empty x = snd (the (beam_run_queue_create (Some sys_vt) (rq_procs2 x)))"

definition rq_demo1 :: "'a \<Rightarrow> 'a rq_machine_scheme" where
  "rq_demo1 x = snd (the (beam_run_queue_enqueue 0x70000 0x10000 BEAM_PRIO_NORMAL (rq_empty x)))"

definition rq_demo :: "'a \<Rightarrow> 'a rq_machine_scheme" where
  "rq_demo x = snd (the (beam_run_queue_enqueue 0x70000 0x40000 BEAM_PRIO_HIGH (rq_demo1 x)))"

lemma proc_inv_rq_start: "proc_inv (rq_start x rs)"
proof -
  have "mail_abs (rq_start x rs) Map.empty"
    by (auto simp: mail_abs_def abs_of_def mail_inv_def rq_start_def machine_ok_def arenas_apart_def)
  moreover have "proc_own (rq_start x rs)" by (rule proc_ownI) (simp_all add: rq_start_def)
  ultimately show ?thesis by (auto simp: proc_inv_def)
qed

lemma prio_bounds [simp]: "\<not> (4 :: beam_priority) \<le> 1" "(1 :: beam_priority) < 4"
  by (simp_all add: word_le_nat_alt word_less_nat_alt)

lemma replicate_4: "replicate 4 x = [x, x, x, x]"
  by (simp add: numeral_eq_Suc)

lemma rq_demo_runs:
  "beam_process_create 7 64 (Some sys_vt)
     (rq_start x [0x10000, 0x20000, 0x30000, 0x40000, 0x50000, 0x60000, 0x70000, 0x80000, 0x90000, 0xA0000]) =
   Some (0x10000, (rq_procs1 x))"
  "beam_process_create 8 64 (Some sys_vt) (rq_procs1 x) = Some (0x40000, (rq_procs2 x))"
  "beam_run_queue_create (Some sys_vt) (rq_procs2 x) = Some (0x70000, (rq_empty x))"
  "beam_run_queue_enqueue 0x70000 0x10000 BEAM_PRIO_NORMAL (rq_empty x) = Some (BEAM_OK, (rq_demo1 x))"
  "beam_run_queue_enqueue 0x70000 0x40000 BEAM_PRIO_HIGH (rq_demo1 x) = Some (BEAM_OK, (rq_demo x))"
  "rq_nodes (rq_procs2 x) = Map.empty" "run_queues (rq_procs2 x) = Map.empty"
  by (simp_all add: rq_demo_def rq_demo1_def rq_empty_def rq_procs2_def rq_procs1_def rq_start_def sys_vt_def
      beam_defs Let_def)

lemma rq_procs_dom: "dom (procs (rq_empty x)) = {0x10000, 0x40000}" "dom (procs (rq_demo1 x)) = {0x10000, 0x40000}"
  by (auto simp: rq_demo1_def rq_empty_def rq_procs2_def rq_procs1_def rq_start_def sys_vt_def beam_defs Let_def)

lemma rq_abs_empty: "rq_abs (rq_empty x) [0x70000 \<mapsto> [[], [], [], []]]"
proof -
  have "proc_inv (rq_procs1 x)"
    using process_create_inv [OF proc_inv_rq_start vt_ok_sys_vt, of 64 7 x
        "[0x10000, 0x20000, 0x30000, 0x40000, 0x50000, 0x60000, 0x70000, 0x80000, 0x90000, 0xA0000]"]
    by (simp add: rq_demo_runs(1))
  then have "proc_inv (rq_procs2 x)"
    using process_create_inv [OF _ vt_ok_sys_vt, of "rq_procs1 x" 64 8] by (simp add: rq_demo_runs(2))
  then have "rq_abs (rq_procs2 x) Map.empty" by (rule rq_abs_none) (simp_all add: rq_demo_runs)
  from rq_create [OF this vt_ok_sys_vt] show ?thesis
    by (simp add: rq_demo_runs(3) replicate_4)
qed

lemma rq_abs_demo1: "rq_abs (rq_demo1 x) [0x70000 \<mapsto> [[], [], [0x10000], []]]"
proof -
  have "0x10000 \<in> dom (procs (rq_empty x))" by (simp add: rq_procs_dom)
  then obtain pr where "procs (rq_empty x) 0x10000 = Some pr" by blast
  from rq_enqueue [OF rq_abs_empty _ this, where q = "0x70000" and prio = BEAM_PRIO_NORMAL] show ?thesis
    by (simp add: rq_demo_runs(4) [unfolded BEAM_PRIO_NORMAL_def] BEAM_PRIO_NORMAL_def)
qed

lemma rq_abs_demo: "rq_abs (rq_demo x) [0x70000 \<mapsto> [[], [0x40000], [0x10000], []]]"
proof -
  have "0x40000 \<in> dom (procs (rq_demo1 x))" by (simp add: rq_procs_dom)
  then obtain pr where "procs (rq_demo1 x) 0x40000 = Some pr" by blast
  from rq_enqueue [OF rq_abs_demo1 _ this, where q = "0x70000" and prio = BEAM_PRIO_HIGH] show ?thesis
    by (simp add: rq_demo_runs(5) [unfolded BEAM_PRIO_HIGH_def] BEAM_PRIO_HIGH_def)
qed

subsection \<open>Properties\<close>

text \<open>
  C7: enqueueing a process never runs into undefined behaviour. It either appends the process to the
  list of the given priority and makes it runnable, or reports that no memory was left and changes
  neither the queues nor the process.
\<close>

theorem run_queue_enqueue_refines:
  assumes "rq_abs m A" "A q = Some w" "procs m p = Some pr" "prio < 4"
  shows "\<exists>r m'. beam_run_queue_enqueue q p prio m = Some (r, m') \<and>
    (r = BEAM_OK \<and> rq_abs m' (A(q \<mapsto> w[unat prio := w ! unat prio @ [p]])) \<and>
       procs m' = (procs m)(p \<mapsto> pr\<lparr>proc_state := BEAM_PROC_STATE_RUNNABLE\<rparr>) \<or>
     r = BEAM_ERR_NO_MEMORY \<and> rq_abs m' A \<and> procs m' = procs m)"
  using assms by (rule rq_enqueue)

theorem run_queue_enqueue_refines_witness:
  "\<exists>r m'. beam_run_queue_enqueue 0x70000 0x40000 BEAM_PRIO_HIGH (rq_demo1 ()) = Some (r, m') \<and>
    (rq_abs m' [0x70000 \<mapsto> [[], [0x40000], [0x10000], []]] \<or> rq_abs m' [0x70000 \<mapsto> [[], [], [0x10000], []]])"
proof -
  have "0x40000 \<in> dom (procs (rq_demo1 ()))" by (simp add: rq_procs_dom)
  then obtain pr where "procs (rq_demo1 ()) 0x40000 = Some pr" by blast
  from run_queue_enqueue_refines [OF rq_abs_demo1 _ this, where q = "0x70000" and prio = BEAM_PRIO_HIGH] show ?thesis
    by (auto simp: BEAM_PRIO_HIGH_def)
qed

text \<open>
  C3: processes leave the run queue in the order of their priorities and, within one priority, in the
  order they were enqueued. Dequeueing until the queue is empty returns its four lists one after the
  other, each process exactly once, and the next dequeue reports an empty queue.
\<close>

theorem run_queue_priority_order:
  assumes "rq_abs m A" "A q = Some w"
  shows "\<exists>m'. drain (beam_run_queue_dequeue q) (length (concat w)) m = Some (concat w, m') \<and>
    beam_run_queue_dequeue q m' = Some (0, m')"
  using rq_deq.drain_all [where q = q and m = m and w = w and n = "length (concat w)"] rq_deq.take_empty assms by blast

theorem run_queue_priority_order_witness:
  "\<exists>m'. drain (beam_run_queue_dequeue 0x70000) 2 (rq_demo ()) = Some ([0x40000, 0x10000], m') \<and>
    beam_run_queue_dequeue 0x70000 m' = Some (0, m')"
  using run_queue_priority_order [OF rq_abs_demo [of "()"], where q = "0x70000"]
  by (simp add: numeral_2_eq_2)

text \<open>
  Stealing empties the same lists from the lowest priority up, oldest process of a list first.
\<close>

theorem run_queue_steal_order:
  assumes "rq_abs m A" "A q = Some w"
  shows "\<exists>m'. drain (beam_run_queue_steal q) (length (concat w)) m = Some (concat (rev w), m') \<and>
    beam_run_queue_steal q m' = Some (0, m')"
proof -
  have "length (concat (rev w)) \<le> length (concat w)" by (simp add: length_concat rev_map [symmetric] sum_list_rev)
  then show ?thesis
    using rq_steal.drain_all [where q = q and m = m and w = w and n = "length (concat w)"] rq_steal.take_empty assms by blast
qed

theorem run_queue_steal_order_witness:
  "\<exists>m'. drain (beam_run_queue_steal 0x70000) 2 (rq_demo ()) = Some ([0x10000, 0x40000], m') \<and>
    beam_run_queue_steal 0x70000 m' = Some (0, m')"
  using run_queue_steal_order [OF rq_abs_demo [of "()"], where q = "0x70000"]
  by (simp add: numeral_2_eq_2)

end
