(* ===== verification/Beam_Scheduler.thy ===== *)
theory Beam_Scheduler
  imports Run_Queue_Refinement
begin

text \<open>
  Schedulers and the worker pool, \<^verbatim>\<open>src/scheduler/beam_scheduler_loop.c\<close>. A scheduler step takes a
  process from the run queue, runs it until it yields and puts it back unless it waits or is done.
  The body of the loop of a worker thread is one definition, so that an execution of the pool is a
  sequence of rounds of its workers; a round of one worker is not interrupted by another. The
  threads of the operating system are a parameter: \<open>spawn i\<close> is the handle \<^verbatim>\<open>pthread_create\<close> gives
  to worker \<open>i\<close>, or \<open>None\<close> when it fails.
\<close>

subsection \<open>State\<close>

record beam_scheduler =
  sched_id :: u32
  sched_run_queue :: ptr
  sched_alloc :: beam_allocator_i

record beam_scheduler_pool =
  num_workers :: u32
  schedulers :: ptr
  threads :: ptr
  pool_run_queue :: ptr
  pool_code :: "beam_instruction list option"
  running :: bool
  pool_alloc :: beam_allocator_i

record worker_arg =
  warg_pool :: ptr
  warg_sched :: ptr

record sched_machine = rq_machine +
  scheds :: "ptr \<rightharpoonup> beam_scheduler"
  pools :: "ptr \<rightharpoonup> beam_scheduler_pool"
  wargs :: "ptr \<rightharpoonup> worker_arg"

text \<open>Sizes of the structs on LP64; a pointer and a thread handle take 8 bytes.\<close>

definition sizeof_beam_scheduler :: size_t where "sizeof_beam_scheduler = 48"
definition sizeof_beam_scheduler_pool :: size_t where "sizeof_beam_scheduler_pool = 88"
definition sizeof_worker_arg :: size_t where "sizeof_worker_arg = 16"

definition put_pool :: "ptr \<Rightarrow> beam_scheduler_pool \<Rightarrow> 'a sched_machine_scheme \<Rightarrow> 'a sched_machine_scheme" where
  "put_pool p pl m = m\<lparr>pools := (pools m)(p \<mapsto> pl)\<rparr>"

subsection \<open>One scheduler\<close>

definition beam_scheduler_create ::
    "u32 \<Rightarrow> ptr \<Rightarrow> beam_allocator_i option \<Rightarrow> 'a sched_machine_scheme \<Rightarrow> (ptr \<times> 'a sched_machine_scheme) option" where
  "beam_scheduler_create i q al m =
     (if q = 0 \<or> \<not> alloc_arg_ok al then Some (0, m)
      else do {
        (s, m1) \<leftarrow> call_alloc (the al) sizeof_beam_scheduler m;
        if s = 0 then Some (0, m1)
        else Some (s, m1\<lparr>scheds := (scheds m1)(s \<mapsto>
               \<lparr>sched_id = i, sched_run_queue = q, sched_alloc = the al\<rparr>)\<rparr>)
      })"

definition beam_scheduler_destroy ::
    "ptr \<Rightarrow> 'a sched_machine_scheme \<Rightarrow> 'a sched_machine_scheme option" where
  "beam_scheduler_destroy s m =
     (if s = 0 then Some m
      else do {
        sched \<leftarrow> scheds m s;
        m1 \<leftarrow> call_free (sched_alloc sched) s m;
        Some (m1\<lparr>scheds := (scheds m1)(s := None)\<rparr>)
      })"

text \<open>
  Running a process that was taken from a queue: the scheduler step and the stealing worker do the
  same. The result of the enqueue is ignored.
\<close>

definition run_process ::
    "ptr \<Rightarrow> ptr \<Rightarrow> beam_instruction list option \<Rightarrow> 'a rq_machine_scheme \<Rightarrow>
     (beam_result \<times> 'a rq_machine_scheme) option" where
  "run_process q proc code m = do {
     (res, out, m1) \<leftarrow> beam_emu_execute_code proc code True m;
     state \<leftarrow> beam_process_get_state proc m1;
     if state = BEAM_PROC_STATE_RUNNABLE \<or> (res = BEAM_OK \<and> state = BEAM_PROC_STATE_RUNNING)
     then do {
       m2 \<leftarrow> beam_process_set_reductions proc BEAM_DEFAULT_REDUCTIONS m1;
       (enq_res, m3) \<leftarrow> beam_run_queue_enqueue q proc BEAM_PRIO_NORMAL m2;
       Some (res, m3)
     }
     else Some (res, m1)
   }"

definition beam_scheduler_step ::
    "ptr \<Rightarrow> beam_instruction list option \<Rightarrow> 'a sched_machine_scheme \<Rightarrow>
     (beam_result \<times> 'a sched_machine_scheme) option" where
  "beam_scheduler_step s code m =
     (if s = 0 then Some (BEAM_ERR_INVALID_ARG, m)
      else do {
        sched \<leftarrow> scheds m s;
        if sched_run_queue sched = 0 then Some (BEAM_ERR_INVALID_ARG, m)
        else do {
          (proc, m1) \<leftarrow> beam_run_queue_dequeue (sched_run_queue sched) m;
          if proc = 0 then Some (BEAM_ERR_NOT_FOUND, m1)
          else run_process (sched_run_queue sched) proc code m1
        }
      })"

subsection \<open>Worker threads\<close>

text \<open>One round of \<^verbatim>\<open>while (pool->running)\<close>; the Boolean tells whether the thread goes on.\<close>

definition worker_round ::
    "ptr \<Rightarrow> ptr \<Rightarrow> 'a sched_machine_scheme \<Rightarrow> (bool \<times> 'a sched_machine_scheme) option" where
  "worker_round pool sched m = do {
     pl \<leftarrow> pools m pool;
     if \<not> running pl then Some (False, m)
     else do {
       (res, m1) \<leftarrow> beam_scheduler_step sched (pool_code pl) m;
       if res = BEAM_ERR_NOT_FOUND then do {
         (stolen, m2) \<leftarrow> beam_run_queue_steal (pool_run_queue pl) m1;
         if stolen \<noteq> 0 then do {
           (st_res, m3) \<leftarrow> run_process (pool_run_queue pl) stolen (pool_code pl) m2;
           Some (True, m3)
         } else Some (True, m2)
       } else Some (True, m1)
     }
   }"

text \<open>The start of a worker thread takes its two pointers out of the argument block and frees it.\<close>

definition scheduler_worker_thread ::
    "ptr \<Rightarrow> 'a sched_machine_scheme \<Rightarrow> (ptr \<times> ptr \<times> 'a sched_machine_scheme) option" where
  "scheduler_worker_thread arg m = do {
     warg \<leftarrow> wargs m arg;
     pl \<leftarrow> pools m (warg_pool warg);
     m1 \<leftarrow> call_free (pool_alloc pl) arg m;
     Some (warg_pool warg, warg_sched warg, m1\<lparr>wargs := (wargs m1)(arg := None)\<rparr>)
   }"

subsection \<open>The pool\<close>

text \<open>
  Joining the threads waits for them; the rounds they run until they see the flag are rounds of the
  workers like any other.
\<close>

definition beam_scheduler_pool_stop ::
    "ptr \<Rightarrow> 'a sched_machine_scheme \<Rightarrow> 'a sched_machine_scheme option" where
  "beam_scheduler_pool_stop pool m =
     (if pool = 0 then Some m
      else do {
        pl \<leftarrow> pools m pool;
        Some (if running pl then put_pool pool (pl\<lparr>running := False\<rparr>) m else m)
      })"

fun destroy_schedulers ::
    "ptr \<Rightarrow> nat list \<Rightarrow> 'a sched_machine_scheme \<Rightarrow> 'a sched_machine_scheme option" where
  "destroy_schedulers arr [] m = Some m"
| "destroy_schedulers arr (i # is) m = do {
     s \<leftarrow> rd m (arr + 8 * of_nat i);
     m1 \<leftarrow> (if s \<noteq> 0 then beam_scheduler_destroy s m else Some m);
     destroy_schedulers arr is m1
   }"

definition beam_scheduler_pool_destroy ::
    "ptr \<Rightarrow> 'a sched_machine_scheme \<Rightarrow> 'a sched_machine_scheme option" where
  "beam_scheduler_pool_destroy pool m =
     (if pool = 0 then Some m
      else do {
        pl \<leftarrow> pools m pool;
        m1 \<leftarrow> (if running pl then beam_scheduler_pool_stop pool m else Some m);
        m2 \<leftarrow> (if schedulers pl \<noteq> 0 then do {
                 m2 \<leftarrow> destroy_schedulers (schedulers pl) [0..<unat (num_workers pl)] m1;
                 call_free (pool_alloc pl) (schedulers pl) m2
               } else Some m1);
        m3 \<leftarrow> (if threads pl \<noteq> 0 then call_free (pool_alloc pl) (threads pl) m2 else Some m2);
        m4 \<leftarrow> call_free (pool_alloc pl) pool m3;
        Some (m4\<lparr>pools := (pools m4)(pool := None)\<rparr>)
      })"

text \<open>The Boolean tells whether every scheduler was created.\<close>

fun create_schedulers ::
    "ptr \<Rightarrow> ptr \<Rightarrow> beam_allocator_i \<Rightarrow> nat list \<Rightarrow> 'a sched_machine_scheme \<Rightarrow>
     (bool \<times> 'a sched_machine_scheme) option" where
  "create_schedulers arr q vt [] m = Some (True, m)"
| "create_schedulers arr q vt (i # is) m = do {
     (s, m1) \<leftarrow> beam_scheduler_create (of_nat i + 1) q (Some vt) m;
     m2 \<leftarrow> wr (arr + 8 * of_nat i) s m1;
     if s = 0 then Some (False, m2) else create_schedulers arr q vt is m2
   }"

definition beam_scheduler_pool_create ::
    "u32 \<Rightarrow> ptr \<Rightarrow> beam_allocator_i option \<Rightarrow> 'a sched_machine_scheme \<Rightarrow>
     (ptr \<times> 'a sched_machine_scheme) option" where
  "beam_scheduler_pool_create workers q al m =
     (if workers = 0 \<or> q = 0 \<or> \<not> alloc_arg_ok al then Some (0, m)
      else do {
        let vt = the al;
        (pool, m1) \<leftarrow> call_alloc vt sizeof_beam_scheduler_pool m;
        if pool = 0 then Some (0, m1)
        else do {
          (arr, m2) \<leftarrow> call_alloc vt (8 * ucast workers) m1;
          (thr, m3) \<leftarrow> call_alloc vt (8 * ucast workers) m2;
          let m4 = put_pool pool \<lparr>num_workers = workers, schedulers = arr, threads = thr,
                     pool_run_queue = q, pool_code = None, running = False, pool_alloc = vt\<rparr> m3;
          if arr = 0 \<or> thr = 0 then do {
            m5 \<leftarrow> beam_scheduler_pool_destroy pool m4;
            Some (0, m5)
          } else do {
            (all, m5) \<leftarrow> create_schedulers arr q vt [0..<unat workers] m4;
            if all then Some (pool, m5)
            else do {
              m6 \<leftarrow> beam_scheduler_pool_destroy pool m5;
              Some (0, m6)
            }
          }
        }
      })"

text \<open>Start the workers from number \<open>i\<close> on; the list holds the arguments of the threads started.\<close>

fun start_workers ::
    "(nat \<Rightarrow> eterm option) \<Rightarrow> ptr \<Rightarrow> nat list \<Rightarrow> 'a sched_machine_scheme \<Rightarrow>
     (beam_result \<times> ptr list \<times> 'a sched_machine_scheme) option" where
  "start_workers spawn pool [] m = Some (BEAM_OK, [], m)"
| "start_workers spawn pool (i # is) m = do {
     pl \<leftarrow> pools m pool;
     (warg, m1) \<leftarrow> call_alloc (pool_alloc pl) sizeof_worker_arg m;
     if warg = 0 then Some (BEAM_ERR_NO_MEMORY, [], put_pool pool (pl\<lparr>running := False\<rparr>) m1)
     else do {
       s \<leftarrow> rd m1 (schedulers pl + 8 * of_nat i);
       let m2 = m1\<lparr>wargs := (wargs m1)(warg \<mapsto> \<lparr>warg_pool = pool, warg_sched = s\<rparr>)\<rparr>;
       case spawn i of
         None \<Rightarrow> do {
           m3 \<leftarrow> call_free (pool_alloc pl) warg m2;
           Some (BEAM_ERR_INVALID_ARG, [],
             put_pool pool (pl\<lparr>running := False\<rparr>) (m3\<lparr>wargs := (wargs m3)(warg := None)\<rparr>))
         }
       | Some tid \<Rightarrow> do {
           m3 \<leftarrow> wr (threads pl + 8 * of_nat i) tid m2;
           (r, ws, m4) \<leftarrow> start_workers spawn pool is m3;
           Some (r, warg # ws, m4)
         }
     }
   }"

definition beam_scheduler_pool_start ::
    "(nat \<Rightarrow> eterm option) \<Rightarrow> ptr \<Rightarrow> beam_instruction list option \<Rightarrow> 'a sched_machine_scheme \<Rightarrow>
     (beam_result \<times> ptr list \<times> 'a sched_machine_scheme) option" where
  "beam_scheduler_pool_start spawn pool code m =
     (if pool = 0 then Some (BEAM_ERR_INVALID_ARG, [], m)
      else do {
        pl \<leftarrow> pools m pool;
        if running pl then Some (BEAM_ERR_INVALID_ARG, [], m)
        else start_workers spawn pool [0..<unat (num_workers pl)]
               (put_pool pool (pl\<lparr>pool_code := code, running := True\<rparr>) m)
      })"

lemmas scheduler_defs =
  sizeof_beam_scheduler_def sizeof_beam_scheduler_pool_def sizeof_worker_arg_def put_pool_def
  beam_scheduler_create_def beam_scheduler_destroy_def run_process_def beam_scheduler_step_def
  worker_round_def scheduler_worker_thread_def beam_scheduler_pool_stop_def
  beam_scheduler_pool_destroy_def beam_scheduler_pool_create_def beam_scheduler_pool_start_def

lemmas [beam_defs] = scheduler_defs

end
