(* ===== verification/Bucket_Array.thy ===== *)
theory Bucket_Array
  imports Beam_Chain Beam_Alloc
begin

text \<open>
  Arrays of pointers in memory and hash buckets over them: entry \<open>i\<close> of the array is the head of a
  chain. The theory relates the words of the array and the links of the entries to one list of
  entries per bucket, and gives the effect of the two updates a table makes: a new entry at the head
  of a bucket, and an entry unlinked from it.
\<close>

definition elem_addr :: "ptr \<Rightarrow> nat \<Rightarrow> ptr" where
  "elem_addr base i = base + 8 * of_nat i"

lemma unat_elem_addr:
  assumes "unat base + 8 * n < 2 ^ 63" "i < n"
  shows "unat (elem_addr base i) = unat base + 8 * i"
proof -
  have "unat (of_nat i :: 64 word) = i" using assms by (intro unat_of_nat_small) simp
  moreover from this have "unat (8 * of_nat i :: 64 word) = 8 * i"
    using assms by (subst unat_8_mult) simp_all
  ultimately show ?thesis
    using assms unfolding elem_addr_def by (subst unat_add_no_wrap) simp_all
qed

lemma elem_addr_inj:
  assumes "unat base + 8 * n < 2 ^ 63" "i < n" "j < n"
  shows "elem_addr base i = elem_addr base j \<longleftrightarrow> i = j"
  using unat_elem_addr [OF assms(1)] assms(2,3) by (metis add_left_cancel mult_cancel1 zero_neq_numeral)

text \<open>The block of an array of \<open>n\<close> pointers.\<close>

definition array_at :: "'a machine_scheme \<Rightarrow> ptr \<Rightarrow> nat \<Rightarrow> bool" where
  "array_at m base n \<longleftrightarrow> (\<exists>k. (base, k) \<in> set (live m) \<and> 8 * n \<le> unat k)"

lemma array_atD:
  assumes "machine_ok m" "array_at m base n"
  shows "aligned8 base" "unat base + 8 * n < 2 ^ 63" "base \<noteq> 0"
  using assms by (auto simp: array_at_def machine_ok_def block_ok_def)

lemma array_accessible:
  assumes "machine_ok m" "array_at m base n" "i < n"
  shows "accessible m (elem_addr base i)"
proof -
  note D = array_atD [OF assms(1,2)]
  obtain k where "(base, k) \<in> set (live m)" "8 * n \<le> unat k" using assms(2) by (auto simp: array_at_def)
  moreover have "aligned8 (elem_addr base i)" unfolding elem_addr_def using D(1) by (simp add: aligned8_add)
  ultimately show ?thesis
    using unat_elem_addr [OF D(2) assms(3)] assms(3) by (intro accessibleI) auto
qed

lemma array_at_mono: "array_at m base n \<Longrightarrow> set (live m) \<subseteq> set (live m') \<Longrightarrow> array_at m' base n"
  by (auto simp: array_at_def)

lemma array_at_base: "array_at m base n \<Longrightarrow> base \<in> fst ` set (live m)"
  by (force simp: array_at_def)

lemma array_at_cong: "live m' = live m \<Longrightarrow> array_at m' base n = array_at m base n"
  by (simp add: array_at_def)

lemma array_at_free:
  assumes "array_at m base n" "call_free vt p m = Some m'" "p \<noteq> base"
  shows "array_at m' base n"
  using assms(1,3) call_free_frame(4) [OF assms(2)] unfolding array_at_def by (metis fst_conv)

lemma elem_addr_Suc: "elem_addr base (Suc k) = elem_addr base k + 8"
  by (simp add: elem_addr_def algebra_simps)

lemma wr_list_array:
  assumes "machine_ok m" "array_at m base n" "k + length vs \<le> n"
  shows "\<exists>w'. wr_list (elem_addr base k) vs m = Some (m\<lparr>words := w'\<rparr>) \<and>
    (\<forall>j < length vs. w' (elem_addr base (k + j)) = vs ! j) \<and>
    (\<forall>a. (\<forall>j < length vs. a \<noteq> elem_addr base (k + j)) \<longrightarrow> w' a = words m a)"
  using assms
proof (induction vs arbitrary: k m)
  case Nil
  then show ?case by (auto intro: exI [of _ "words m"])
next
  case (Cons v vs)
  have kn: "k < n" using Cons.prems(3) by simp
  let ?m = "m\<lparr>words := (words m)(elem_addr base k := v)\<rparr>"
  have wr: "wr (elem_addr base k) v m = Some ?m"
    using array_accessible [OF Cons.prems(1,2) kn] by (simp add: wr_def)
  have "machine_ok ?m" using Cons.prems(1) machine_ok_cong [of ?m m] by simp
  moreover have "array_at ?m base n" using Cons.prems(2) by (simp add: array_at_def)
  ultimately obtain w' where w': "wr_list (elem_addr base (Suc k)) vs ?m = Some (?m\<lparr>words := w'\<rparr>)"
    "\<And>j. j < length vs \<Longrightarrow> w' (elem_addr base (Suc k + j)) = vs ! j"
    "\<And>a. \<forall>j < length vs. a \<noteq> elem_addr base (Suc k + j) \<Longrightarrow> w' a = words ?m a"
    using Cons.IH [of ?m "Suc k"] Cons.prems(3) by auto
  have inj: "elem_addr base k \<noteq> elem_addr base (Suc k + j)" if "j < length vs" for j
    using that Cons.prems(3) elem_addr_inj [OF array_atD(2) [OF Cons.prems(1,2)] kn, of "Suc k + j"] by simp
  have "w' (elem_addr base (k + j)) = (v # vs) ! j" if "j < length (v # vs)" for j
  proof (cases j)
    case 0
    then show ?thesis using w'(3) [of "elem_addr base k"] inj by simp
  next
    case (Suc i)
    then show ?thesis using w'(2) [of i] that by simp
  qed
  moreover have "w' a = words m a" if a: "\<forall>j < length (v # vs). a \<noteq> elem_addr base (k + j)" for a
  proof -
    have "a \<noteq> elem_addr base k" using a by force
    moreover have "\<forall>j < length vs. a \<noteq> elem_addr base (Suc k + j)" using a by force
    ultimately show ?thesis using w'(3) by simp
  qed
  moreover have "wr_list (elem_addr base k) (v # vs) m = Some (m\<lparr>words := w'\<rparr>)"
    using wr w'(1) by (simp add: elem_addr_Suc)
  ultimately show ?case by blast
qed

subsection \<open>Arrays that grow\<close>

lemma sorted_apart:
  assumes "sorted_wrt apart bs" "x \<in> set bs" "y \<in> set bs" "fst x \<noteq> fst y"
  shows "apart x y"
  using assms by (induction bs) (auto simp: apart_sym)

lemma null_not_live: "machine_ok m \<Longrightarrow> 0 \<notin> fst ` set (live m)"
  by (auto simp: machine_ok_def block_ok_def)

lemma live_apart:
  assumes "machine_ok m" "x \<in> set (live m)" "y \<in> set (live m)" "fst x \<noteq> fst y"
  shows "apart x y"
  using sorted_apart [OF _ assms(2-4)] assms(1) by (simp add: machine_ok_def)

lemma elem_in_block:
  assumes "machine_ok m" "(b, k) \<in> set (live m)" "8 * n \<le> unat k" "i < n"
  shows "in_block (elem_addr b i) (b, k)"
proof -
  have "array_at m b n" using assms(2,3) by (auto simp: array_at_def)
  then show ?thesis using unat_elem_addr [OF array_atD(2) [OF assms(1)] assms(4)] assms(3,4) by (simp add: in_block_def)
qed

lemma arrays_apart:
  assumes "machine_ok m" "array_at m b n" "array_at m c k" "b \<noteq> c" "i < n" "j < k"
  shows "elem_addr b i \<noteq> elem_addr c j"
proof -
  obtain x y where x: "(b, x) \<in> set (live m)" "8 * n \<le> unat x" and y: "(c, y) \<in> set (live m)" "8 * k \<le> unat y"
    using assms(2,3) by (auto simp: array_at_def)
  have "apart (b, x) (c, y)" using live_apart [OF assms(1) x(1) y(1)] assms(4) by simp
  then show ?thesis
    using elem_in_block [OF assms(1) x assms(5)] elem_in_block [OF assms(1) y assms(6)] in_block_apart by metis
qed

text \<open>Growing an array with the system allocator moves its elements and touches no other object.\<close>

lemma sys_realloc_array:
  assumes env: "alloc_env vt m" and sys: "vt_alloc vt = FN_SYS" and arr: "array_at m p n" and k: "n \<le> k" "0 < k" "k < 2 ^ 34"
  obtains q m' where "call_realloc vt p (8 * of_nat k) m = Some (q, m')" "machine_ok m'" "\<forall>vt'. vt_ok vt' m' = vt_ok vt' m"
    "machine.more m' = machine.more m" "q = 0 \<longrightarrow> live m' = live m \<and> words m' = words m"
    "q \<noteq> 0 \<longrightarrow> array_at m' q k \<and> (\<forall>i < n. words m' (elem_addr q i) = words m (elem_addr p i)) \<and>
       fst ` set (live m') = insert q (fst ` set (live m) - {p}) \<and> q \<notin> fst ` set (live m) - {p} \<and>
       (\<forall>b \<in> set (live m). fst b \<noteq> p \<longrightarrow> b \<in> set (live m') \<and> (\<forall>a. in_block a b \<longrightarrow> words m' a = words m a))"
proof -
  let ?n = "ALIGN (8 * of_nat k)"
  have ok: "machine_ok m" using env by simp
  note D = array_atD [OF ok arr]
  have fn: "vt_realloc vt = FN_SYS" using env sys by (simp add: vt_ok_def)
  have un: "unat (of_nat k :: 64 word) = k" using k(3) by (intro unat_of_nat_small) simp
  then have u8: "unat (8 * of_nat k :: size_t) = 8 * k" using k(3) by (subst unat_8_mult) simp_all
  then have gs: "good_size (8 * of_nat k)" unfolding good_size_def using k by (simp add: word_less_nat_alt word_le_nat_alt)
  have new: "8 * k \<le> unat ?n" using good_size_ALIGN(2) [OF gs] u8 by simp
  obtain kk where kk: "(p, kk) \<in> set (live m)" "8 * n \<le> unat kk" using arr by (auto simp: array_at_def)
  have "distinct (map fst (live m))" using ok sorted_wrt_apart_distinct by (auto simp: machine_ok_def)
  then have size: "block_size p (live m) = Some kk" using kk(1) by (simp add: block_size_def)
  let ?m0 = "m\<lparr>live := drop_block p (live m)\<rparr>"
  have ok0: "machine_ok ?m0" by (rule machine_ok_filter [OF ok]) (simp_all add: drop_block_def)
  obtain q m2 where mal: "malloc ?n ?m0 = (q, m2)" by (cases "malloc ?n ?m0") auto
  note F = malloc_frame [OF mal]
  have ok2: "machine_ok m2" using machine_ok_malloc [OF ok0 mal] .
  show thesis
  proof (cases "q = 0")
    case True
    let ?m' = "m\<lparr>malloc_results := malloc_results m2\<rparr>"
    have "machine_ok ?m' = machine_ok m" by (rule machine_ok_cong) simp_all
    moreover have "vt_ok vt' ?m' = vt_ok vt' m" for vt' by (rule vt_ok_cong) simp_all
    moreover have "call_realloc vt p (8 * of_nat k) m = Some (0, ?m')"
      using fn D(3) size mal True by (simp add: call_realloc_def sys_realloc_def libc_realloc_def Let_def)
    ultimately show ?thesis using ok by (intro that [of 0 ?m']) simp_all
  next
    case False
    let ?w = "move_words p q (min (unat kk) (unat ?n)) (words m)"
    let ?m3 = "m2\<lparr>words := ?w\<rparr>"
    have lib: "libc_realloc p ?n m = Some (q, ?m3)"
      using D(3) size mal False F(1) by (simp add: libc_realloc_def Let_def)
    have legal: "legal_block ?m0 (q, ?n)" using malloc_fresh [OF mal False] .
    then have q: "unat q + unat ?n < 2 ^ 63" "\<And>b. b \<in> set (live m) \<Longrightarrow> fst b \<noteq> p \<Longrightarrow> apart (q, ?n) b"
      by (auto simp: legal_block_def list_all_iff)
    have moved: "?w (elem_addr q i) = words m (elem_addr p i)" if "i < n" for i
    proof -
      have "unat (elem_addr q i) = unat q + 8 * i" using q(1) new k(1) that by (intro unat_elem_addr [of q k]) simp_all
      moreover have "8 * i < min (unat kk) (unat ?n)" using that kk(2) new k(1) by simp
      ultimately have "?w (elem_addr q i) = words m (elem_addr q i - q + p)" by (simp add: move_words_def)
      then show ?thesis by (simp add: elem_addr_def algebra_simps)
    qed
    have other: "?w a = words m a" if "b \<in> set (live m)" "fst b \<noteq> p" "in_block a b" for a b
      using q(2) [OF that(1,2)] that(3) by (auto simp: move_words_def apart_def stop_def in_block_def)
    have live: "live m2 = (q, ?n) # drop_block p (live m)" using F(6) False by simp
    obtain m' where m': "call_realloc vt p (8 * of_nat k) m = Some (q, m')" "live m' = live m2" "raw m' = raw m2" "arenas m' = arenas m2"
      "words m' = ?w" "dom (sys_states m') = dom (sys_states m)" "machine.more m' = machine.more m2"
    proof (cases "vt_ctx vt = 0")
      case True
      then show ?thesis using fn lib F by (intro that [of ?m3]) (simp_all add: call_realloc_def sys_realloc_def Let_def)
    next
      case ctx: False
      then obtain st where st: "sys_states m (vt_ctx vt) = Some st" using env sys by (auto simp: vt_ok_def)
      have "sys_states ?m3 (vt_ctx vt) = Some st" using st F(3) by simp
      then show ?thesis
        using fn lib ctx False F st
        by (intro that [of "?m3\<lparr>sys_states := (sys_states m)(vt_ctx vt \<mapsto> st\<lparr>total_allocated := total_allocated st + ?n\<rparr>)\<rparr>"])
          (auto simp: call_realloc_def sys_realloc_def Let_def)
    qed
    have "machine_ok m' = machine_ok m2" using m' by (intro machine_ok_cong)
    moreover have "vt_ok vt' m' = vt_ok vt' m" for vt' using m' F(4) by (intro vt_ok_cong) simp_all
    moreover have "array_at m' q k" using new m'(2) live by (auto simp: array_at_def)
    moreover have "q \<notin> fst ` set (live m) - {p}" using q(2) apart_distinct_base by fastforce
    ultimately show ?thesis
      using ok2 m'(1,2,5,7) F(5) moved other False live by (intro that [of q m']) auto
  qed
qed

subsection \<open>Allocation\<close>

lemma vt_ok_arg: "vt_ok vt m \<Longrightarrow> alloc_arg_ok (Some vt)"
  by (auto simp: alloc_arg_ok_def vt_ok_def split: alloc_fn.splits)

lemma good_size_array:
  assumes "0 < n" "n < 2 ^ 32"
  shows "good_size (8 * of_nat n)" "unat (8 * of_nat n :: size_t) = 8 * n"
proof -
  have "unat (of_nat n :: 64 word) = n" using assms(2) by (intro unat_of_nat_small) simp
  then show u: "unat (8 * of_nat n :: size_t) = 8 * n" using assms(2) by (subst unat_8_mult) simp_all
  show "good_size (8 * of_nat n)"
    unfolding good_size_def using u assms by (simp add: word_less_nat_alt word_le_nat_alt)
qed

lemma alloc_array:
  assumes env: "alloc_env vt m" and n: "0 < n" "n < 2 ^ 32" and call: "call_alloc vt (8 * of_nat n) m = Some (p, m')" "p \<noteq> 0"
  shows "array_at m' p n"
proof -
  note gs = good_size_array [OF n]
  have "(p, ALIGN (8 * of_nat n)) \<in> set (live m')" using vt.alloc_objs [OF env gs(1) call] by simp
  then show ?thesis using good_size_ALIGN(2) [OF gs(1)] gs(2) by (auto simp: array_at_def)
qed

text \<open>What an allocation changes, as one fact.\<close>

lemma env_alloc:
  assumes "alloc_env vt m" "good_size n"
  obtains p m' where "call_alloc vt n m = Some (p, m')" "machine_ok m'" "\<forall>vt'. vt_ok vt' m' = vt_ok vt' m"
    "words m' = words m" "machine.more m' = machine.more m" "set (live m) \<subseteq> set (live m')"
    "p \<noteq> 0 \<longrightarrow> p \<notin> fst ` set (live m)"
    "fst ` set (live m') = (if p = 0 then fst ` set (live m) else insert p (fst ` set (live m)))"
proof -
  obtain p m' where call: "call_alloc vt n m = Some (p, m')" using vt.alloc_total [OF assms(1)] by blast
  note F = call_alloc_frame [OF call] and ok = vt.alloc_ok [OF assms call]
  have "set (live m) \<subseteq> set (live m') \<and> (p \<noteq> 0 \<longrightarrow> p \<notin> fst ` set (live m)) \<and>
    fst ` set (live m') = (if p = 0 then fst ` set (live m) else insert p (fst ` set (live m)))"
    using vt.alloc_null [OF assms] vt.alloc_objs [OF assms call] vt.alloc_fresh [OF assms call] call
    by (cases "p = 0") auto
  then show thesis using call F ok vt_ok_call_alloc [OF call] by (intro that [of p m']) simp_all
qed

subsection \<open>Objects given back\<close>

text \<open>
  The state after the objects \<open>R\<close> were given back to their allocator; a system allocator really
  releases them, an arena keeps them until it is destroyed.
\<close>

definition released :: "beam_allocator_i \<Rightarrow> ptr set \<Rightarrow> 'a machine_scheme \<Rightarrow> 'a machine_scheme \<Rightarrow> bool" where
  "released vt R m m' \<longleftrightarrow> machine_ok m' \<and> (\<forall>vt'. vt_ok vt' m' = vt_ok vt' m) \<and> words m' = words m \<and>
     set (live m') \<subseteq> set (live m) \<and> (\<forall>b \<in> set (live m). fst b \<notin> R \<longrightarrow> b \<in> set (live m')) \<and>
     (vt_free vt = FN_SYS \<longrightarrow> fst ` set (live m') = fst ` set (live m) - R)"

lemma releasedD:
  assumes "released vt R m m'"
  shows "machine_ok m'" "\<And>vt'. vt_ok vt' m' = vt_ok vt' m" "words m' = words m" "set (live m') \<subseteq> set (live m)"
    "\<And>b. b \<in> set (live m) \<Longrightarrow> fst b \<notin> R \<Longrightarrow> b \<in> set (live m')" "fst ` set (live m) - R \<subseteq> fst ` set (live m')"
    "vt_free vt = FN_SYS \<Longrightarrow> fst ` set (live m') = fst ` set (live m) - R"
proof -
  show keep: "\<And>b. b \<in> set (live m) \<Longrightarrow> fst b \<notin> R \<Longrightarrow> b \<in> set (live m')" using assms by (simp add: released_def)
  then show "fst ` set (live m) - R \<subseteq> fst ` set (live m')" by blast
qed (use assms in \<open>simp_all add: released_def\<close>)

lemma released_refl: "machine_ok m \<Longrightarrow> released vt {} m m"
  by (simp add: released_def)

lemma released_trans: "released vt R m m1 \<Longrightarrow> released vt R' m1 m2 \<Longrightarrow> released vt (R \<union> R') m m2"
  unfolding released_def by auto

lemma released_cong:
  assumes "released vt R m m'" "live m'' = live m'" "raw m'' = raw m'" "sys_states m'' = sys_states m'" "arenas m'' = arenas m'"
    "words m'' = words m'"
  shows "released vt R m m''"
proof -
  have "machine_ok m'' = machine_ok m'" using assms by (intro machine_ok_cong) simp_all
  moreover have "vt_ok vt' m'' = vt_ok vt' m'" for vt' using assms by (intro vt_ok_cong) simp_all
  ultimately show ?thesis using assms by (simp add: released_def)
qed

lemma released_free:
  assumes "alloc_env vt m" "p \<in> fst ` set (live m)"
  obtains m' where "call_free vt p m = Some m'" "released vt {p} m m'" "machine.more m' = machine.more m"
proof -
  obtain m' where m': "call_free vt p m = Some m'" using vt.free_total [OF assms] by blast
  have "p \<noteq> 0" using assms by (auto simp: machine_ok_def block_ok_def)
  then have "released vt {p} m m'"
    using call_free_frame [OF m'] vt.free_ok [OF assms(1) m'] vt_ok_call_free [OF m'] call_free_sys [OF _ _ m']
    by (simp add: released_def)
  then show thesis using m' call_free_frame(2) [OF m'] by (intro that)
qed

subsection \<open>Buckets\<close>

definition buckets_rep :: "(ptr \<Rightarrow> eterm) \<Rightarrow> (ptr \<rightharpoonup> ptr) \<Rightarrow> ptr \<Rightarrow> nat \<Rightarrow> (nat \<Rightarrow> ptr list) \<Rightarrow> bool" where
  "buckets_rep w nx base n B \<longleftrightarrow> (\<forall>i < n. chain nx (w (elem_addr base i)) (B i) 0)"

lemma buckets_repD: "buckets_rep w nx base n B \<Longrightarrow> i < n \<Longrightarrow> chain nx (w (elem_addr base i)) (B i) 0"
  by (simp add: buckets_rep_def)

lemma buckets_upd:
  assumes "buckets_rep w nx base n B" "i < n"
    "\<And>j. j < n \<Longrightarrow> j \<noteq> i \<Longrightarrow> w' (elem_addr base j) = w (elem_addr base j)"
    "\<And>j a. j < n \<Longrightarrow> j \<noteq> i \<Longrightarrow> a \<in> set (B j) \<Longrightarrow> nx' a = nx a"
    "chain nx' (w' (elem_addr base i)) as 0"
  shows "buckets_rep w' nx' base n (B(i := as))"
  unfolding buckets_rep_def
proof (intro allI impI)
  fix j assume j: "j < n"
  show "chain nx' (w' (elem_addr base j)) ((B(i := as)) j) 0"
  proof (cases "j = i")
    case False
    have "chain nx' (w (elem_addr base j)) (B j) 0 = chain nx (w (elem_addr base j)) (B j) 0"
      using assms(4) [OF j False] by (rule chain_cong)
    with False assms(3) [OF j False] buckets_repD [OF assms(1) j] show ?thesis by simp
  qed (use assms(5) in simp)
qed

lemma buckets_push:
  assumes "buckets_rep w nx base n B" "i < n" "unat base + 8 * n < 2 ^ 63" "a \<noteq> 0"
    "\<And>j. j < n \<Longrightarrow> a \<notin> set (B j)"
  shows "buckets_rep (w(elem_addr base i := a)) (nx(a \<mapsto> w (elem_addr base i))) base n (B(i := a # B i))"
proof (rule buckets_upd [OF assms(1,2)])
  show "chain (nx(a \<mapsto> w (elem_addr base i))) ((w(elem_addr base i := a)) (elem_addr base i)) (a # B i) 0"
    using buckets_repD [OF assms(1,2)] assms(2,4,5) by (simp add: chain_frame)
  show "(w(elem_addr base i := a)) (elem_addr base j) = w (elem_addr base j)" if "j < n" "j \<noteq> i" for j
    using that elem_addr_inj [OF assms(3) that(1) assms(2)] by simp
  show "(nx(a \<mapsto> w (elem_addr base i))) b = nx b" if "j < n" "j \<noteq> i" "b \<in> set (B j)" for j b
    using that assms(5) [OF that(1)] by auto
qed

lemma buckets_pop:
  assumes "buckets_rep w nx base n B" "i < n" "unat base + 8 * n < 2 ^ 63" "B i = a # as" "nx a = Some b"
    "\<And>j. j < n \<Longrightarrow> j \<noteq> i \<Longrightarrow> a \<notin> set (B j)"
  shows "buckets_rep (w(elem_addr base i := b)) (nx(a := None)) base n (B(i := as))"
proof (rule buckets_upd [OF assms(1,2)])
  show "chain (nx(a := None)) ((w(elem_addr base i := b)) (elem_addr base i)) as 0"
    using buckets_repD [OF assms(1,2)] assms(4,5) chain_remove_head by fastforce
  show "(w(elem_addr base i := b)) (elem_addr base j) = w (elem_addr base j)" if "j < n" "j \<noteq> i" for j
    using that elem_addr_inj [OF assms(3) that(1) assms(2)] by simp
  show "(nx(a := None)) c = nx c" if "j < n" "j \<noteq> i" "c \<in> set (B j)" for j c
    using that assms(6) [OF that(1,2)] by auto
qed

lemma buckets_unlink:
  assumes "buckets_rep w nx base n B" "i < n" "B i = as @ b # a # cs" "nx a = Some d"
    "\<And>j. j < n \<Longrightarrow> j \<noteq> i \<Longrightarrow> a \<notin> set (B j) \<and> b \<notin> set (B j)"
  shows "buckets_rep w (nx(b \<mapsto> d, a := None)) base n (B(i := as @ b # cs))"
proof (rule buckets_upd [OF assms(1,2)])
  show "chain (nx(b \<mapsto> d, a := None)) (w (elem_addr base i)) (as @ b # cs) 0"
    using buckets_repD [OF assms(1,2)] assms(3,4) by (intro chain_unlink) simp_all
  show "(nx(b \<mapsto> d, a := None)) c = nx c" if "j < n" "j \<noteq> i" "c \<in> set (B j)" for j c
    using that assms(5) [OF that(1,2)] by auto
qed simp

end
