(* ===== verification/Beam_CString.thy ===== *)
theory Beam_CString
  imports Beam_Prelude
begin

text \<open>
  The string functions of the C library the components call. A string argument is the list of the
  bytes that may be read from its address on; reading past them is undefined behaviour.
\<close>

definition c_strlen :: "u8 list \<Rightarrow> nat option" where
  "c_strlen bs = (if 0 \<in> set bs then Some (length (takeWhile (\<lambda>b. b \<noteq> 0) bs)) else None)"

text \<open>Whether \<^verbatim>\<open>strcmp\<close> returns 0: it reads both strings up to the first difference or the terminator.\<close>

fun c_streq :: "u8 list \<Rightarrow> u8 list \<Rightarrow> bool option" where
  "c_streq (a # as) (b # bs) = (if a \<noteq> b then Some False else if a = 0 then Some True else c_streq as bs)"
| "c_streq _ _ = None"

text \<open>
  \<^verbatim>\<open>strncpy(dst, src, n)\<close>: at most \<open>n\<close> bytes of the source, up to its terminator, then zeros up to
  \<open>n\<close> bytes.
\<close>

definition c_strncpy :: "u8 list \<Rightarrow> u8 list \<Rightarrow> nat \<Rightarrow> u8 list option" where
  "c_strncpy dst src n =
     (let s = takeWhile (\<lambda>b. b \<noteq> 0) (take n src) in
      if length dst < n \<or> length s = length src \<and> length src < n then None
      else Some (s @ replicate (n - length s) 0 @ drop n dst))"

definition c_string :: "u8 list \<Rightarrow> u8 list" where
  "c_string s = s @ [0]"

definition is_c_string :: "u8 list \<Rightarrow> bool" where
  "is_c_string s \<longleftrightarrow> 0 \<notin> set s"

lemmas [beam_defs] = c_strlen_def c_strncpy_def c_string_def

lemma takeWhile_nz [simp]: "0 \<notin> set s \<Longrightarrow> takeWhile (\<lambda>b. b \<noteq> (0::u8)) (s @ 0 # r) = s"
  by (induction s) auto

lemma c_strlen_string [simp]: "is_c_string s \<Longrightarrow> c_strlen (s @ 0 # r) = Some (length s)"
  by (simp add: c_strlen_def is_c_string_def)

lemma c_streq_string:
  assumes "is_c_string s" "is_c_string t"
  shows "c_streq (s @ 0 # x) (t @ 0 # y) = Some (s = t)"
  using assms
proof (induction s arbitrary: t)
  case Nil
  then show ?case by (cases t) (auto simp: is_c_string_def)
next
  case (Cons a s)
  then show ?case by (cases t) (auto simp: is_c_string_def)
qed

text \<open>A name that fits is stored with its terminator; a longer one is cut off after \<open>n\<close> bytes.\<close>

lemma c_strncpy_string:
  assumes "is_c_string s" "n \<le> length dst"
  shows "c_strncpy dst (s @ 0 # r) n = Some (take n s @ replicate (n - length s) 0 @ drop n dst)"
proof (cases "length s < n")
  case True
  then obtain k where "n - length s = Suc k" by (metis Suc_diff_Suc diff_zero)
  then have "takeWhile (\<lambda>b. b \<noteq> 0) (take n (s @ 0 # r)) = s"
    using assms(1) by (simp add: is_c_string_def)
  with True assms(2) show ?thesis by (simp add: c_strncpy_def)
next
  case False
  then have "takeWhile (\<lambda>b. b \<noteq> 0) (take n (s @ 0 # r)) = take n s"
    using assms(1) by (auto simp: is_c_string_def takeWhile_eq_all_conv dest: in_set_takeD)
  with False assms(2) show ?thesis by (simp add: c_strncpy_def Let_def del: takeWhile_eq_all_conv)
qed

text \<open>A zeroed field of \<open>n + 1\<close> bytes into which a name of at most \<open>n\<close> bytes is copied holds that name.\<close>

lemma c_strncpy_zeroed:
  assumes "is_c_string s" "length s \<le> n"
  shows "c_strncpy (replicate (Suc n) 0) (s @ 0 # r) n = Some (s @ 0 # replicate (n - length s) 0)"
proof -
  have "c_strncpy (replicate (Suc n) 0) (s @ 0 # r) n = Some (take n s @ replicate (n - length s) 0 @ drop n (replicate (Suc n) 0))"
    using assms by (intro c_strncpy_string) simp_all
  also have "drop n (replicate (Suc n) (0 :: u8)) = [0]" by (simp only: drop_replicate) simp
  also have "replicate (n - length s) (0 :: u8) @ [0] = 0 # replicate (n - length s) 0"
    by (rule replicate_append_same)
  finally show ?thesis using assms(2) by simp
qed

text \<open>A string argument that may be null: it has a terminator.\<close>

definition name_arg :: "u8 list option \<Rightarrow> bool" where
  "name_arg name \<longleftrightarrow> (case name of None \<Rightarrow> True | Some b \<Rightarrow> 0 \<in> set b)"

lemma c_strncpy_total:
  assumes "0 \<in> set src" "n \<le> length dst"
  shows "\<exists>d. c_strncpy dst src n = Some d"
proof -
  have "\<not> length (takeWhile (\<lambda>b. b \<noteq> 0) src) = length src"
    using assms(1) by (metis (mono_tags) set_takeWhileD takeWhile_eq_take take_all_iff order_refl)
  moreover have "take n src = src" if "length src < n" using that by simp
  ultimately show ?thesis using assms(2) by (auto simp: c_strncpy_def Let_def)
qed

end
