(* ===== verification/Beam_Ets.thy ===== *)
theory Beam_Ets
  imports Beam_Scheduler Bucket_Array Beam_CString
begin

text \<open>
  ETS tables, \<^verbatim>\<open>src/global/ets.c\<close>: a hash table with 64 buckets of linked entries. The array of
  buckets lies in the words of the machine, entries and tables in stores of their own.
\<close>

subsection \<open>State\<close>

datatype beam_ets_type = BEAM_ETS_SET | BEAM_ETS_ORDERED_SET | BEAM_ETS_BAG | BEAM_ETS_DUPLICATE_BAG

datatype beam_ets_protection = BEAM_ETS_PUBLIC | BEAM_ETS_PROTECTED | BEAM_ETS_PRIVATE

record ets_entry =
  ets_key :: eterm
  ets_value :: eterm
  ets_next :: ptr

record beam_ets_table =
  ets_name :: "u8 list"
  ets_type :: beam_ets_type
  ets_protection :: beam_ets_protection
  ets_buckets :: ptr
  ets_bucket_count :: size_t
  ets_item_count :: size_t
  ets_alloc :: beam_allocator_i

record ets_machine = sched_machine +
  ets_entries :: "ptr \<rightharpoonup> ets_entry"
  ets_tables :: "ptr \<rightharpoonup> beam_ets_table"

definition ETS_DEFAULT_BUCKETS :: size_t where "ETS_DEFAULT_BUCKETS = 64"

text \<open>Sizes of the two structs on LP64.\<close>

definition sizeof_ets_entry :: size_t where "sizeof_ets_entry = 24"
definition sizeof_beam_ets_table :: size_t where "sizeof_beam_ets_table = 96"

definition put_ets :: "ptr \<Rightarrow> beam_ets_table \<Rightarrow> 'a ets_machine_scheme \<Rightarrow> 'a ets_machine_scheme" where
  "put_ets t tb m = m\<lparr>ets_tables := (ets_tables m)(t \<mapsto> tb)\<rparr>"

definition put_entry :: "ptr \<Rightarrow> ets_entry \<Rightarrow> 'a ets_machine_scheme \<Rightarrow> 'a ets_machine_scheme" where
  "put_entry a e m = m\<lparr>ets_entries := (ets_entries m)(a \<mapsto> e)\<rparr>"

definition free_entry ::
    "beam_allocator_i \<Rightarrow> ptr \<Rightarrow> 'a ets_machine_scheme \<Rightarrow> 'a ets_machine_scheme option" where
  "free_entry vt a m = do {
     m' \<leftarrow> call_free vt a m;
     Some (m'\<lparr>ets_entries := (ets_entries m')(a := None)\<rparr>)
   }"

subsection \<open>Hashing\<close>

definition hash_eterm :: "eterm \<Rightarrow> u32" where
  "hash_eterm key =
     (let x = ucast key :: u32;
          x = (drop_bit 16 x XOR x) * 0x45d9f3b;
          x = (drop_bit 16 x XOR x) * 0x45d9f3b
      in drop_bit 16 x XOR x)"

text \<open>The address of \<^verbatim>\<open>table->buckets[hash % bucket_count]\<close>.\<close>

definition ets_bucket :: "beam_ets_table \<Rightarrow> eterm \<Rightarrow> ptr option" where
  "ets_bucket tb key =
     (if ets_bucket_count tb = 0 then None
      else Some (ets_buckets tb + 8 * (ucast (hash_eterm key) mod ets_bucket_count tb)))"

text \<open>The walk along a bucket: the first entry that satisfies the test, or null.\<close>

partial_function (option) ets_find ::
    "(ets_entry \<Rightarrow> bool) \<Rightarrow> ptr \<Rightarrow> 'a ets_machine_scheme \<Rightarrow> ptr option" where
  "ets_find P entry m =
     (if entry = 0 then Some 0
      else do {
        e \<leftarrow> ets_entries m entry;
        if P e then Some entry else ets_find P (ets_next e) m
      })"

subsection \<open>Creation and destruction\<close>

definition beam_ets_table_create_typed ::
    "u8 list option \<Rightarrow> beam_ets_type \<Rightarrow> beam_ets_protection \<Rightarrow> beam_allocator_i option \<Rightarrow>
     'a ets_machine_scheme \<Rightarrow> (ptr \<times> 'a ets_machine_scheme) option" where
  "beam_ets_table_create_typed name typ prot al m =
     (if \<not> alloc_arg_ok al then Some (0, m)
      else do {
        (table, m1) \<leftarrow> call_alloc (the al) sizeof_beam_ets_table m;
        if table = 0 then Some (0, m1)
        else do {
          nm \<leftarrow> (case name of None \<Rightarrow> Some (replicate 32 0) | Some s \<Rightarrow> c_strncpy (replicate 32 0) s 31);
          (bs, m2) \<leftarrow> call_alloc (the al) (8 * ETS_DEFAULT_BUCKETS) m1;
          if bs = 0 then do {
            m3 \<leftarrow> call_free (the al) table m2;
            Some (0, m3)
          } else do {
            m3 \<leftarrow> wr_list bs (replicate (unat ETS_DEFAULT_BUCKETS) 0) m2;
            Some (table, put_ets table
              \<lparr>ets_name = nm, ets_type = typ, ets_protection = prot, ets_buckets = bs,
               ets_bucket_count = ETS_DEFAULT_BUCKETS, ets_item_count = 0, ets_alloc = the al\<rparr> m3)
          }
        }
      })"

definition beam_ets_table_create ::
    "u8 list option \<Rightarrow> beam_allocator_i option \<Rightarrow> 'a ets_machine_scheme \<Rightarrow>
     (ptr \<times> 'a ets_machine_scheme) option" where
  "beam_ets_table_create name al m = beam_ets_table_create_typed name BEAM_ETS_SET BEAM_ETS_PUBLIC al m"

partial_function (option) free_bucket ::
    "beam_allocator_i \<Rightarrow> ptr \<Rightarrow> 'a ets_machine_scheme \<Rightarrow> 'a ets_machine_scheme option" where
  "free_bucket vt entry m =
     (if entry = 0 then Some m
      else do {
        e \<leftarrow> ets_entries m entry;
        m1 \<leftarrow> free_entry vt entry m;
        free_bucket vt (ets_next e) m1
      })"

fun free_buckets ::
    "beam_allocator_i \<Rightarrow> ptr \<Rightarrow> nat list \<Rightarrow> 'a ets_machine_scheme \<Rightarrow> 'a ets_machine_scheme option" where
  "free_buckets vt bs [] m = Some m"
| "free_buckets vt bs (i # is) m = do {
     entry \<leftarrow> rd m (elem_addr bs i);
     m1 \<leftarrow> free_bucket vt entry m;
     free_buckets vt bs is m1
   }"

definition beam_ets_table_destroy ::
    "ptr \<Rightarrow> 'a ets_machine_scheme \<Rightarrow> 'a ets_machine_scheme option" where
  "beam_ets_table_destroy table m =
     (if table = 0 then Some m
      else do {
        tb \<leftarrow> ets_tables m table;
        m1 \<leftarrow> free_buckets (ets_alloc tb) (ets_buckets tb) [0..<unat (ets_bucket_count tb)] m;
        m2 \<leftarrow> (if ets_buckets tb \<noteq> 0 then call_free (ets_alloc tb) (ets_buckets tb) m1 else Some m1);
        m3 \<leftarrow> call_free (ets_alloc tb) table m2;
        Some (m3\<lparr>ets_tables := (ets_tables m3)(table := None)\<rparr>)
      })"

subsection \<open>Operations\<close>

definition beam_ets_insert ::
    "ptr \<Rightarrow> eterm \<Rightarrow> eterm \<Rightarrow> 'a ets_machine_scheme \<Rightarrow> (beam_result \<times> 'a ets_machine_scheme) option" where
  "beam_ets_insert table key value m =
     (if table = 0 then Some (BEAM_ERR_INVALID_ARG, m)
      else do {
        tb \<leftarrow> ets_tables m table;
        slot \<leftarrow> ets_bucket tb key;
        head \<leftarrow> rd m slot;
        found \<leftarrow> (if ets_type tb = BEAM_ETS_SET \<or> ets_type tb = BEAM_ETS_ORDERED_SET
                  then ets_find (\<lambda>e. ets_key e = key) head m
                  else if ets_type tb = BEAM_ETS_BAG
                  then ets_find (\<lambda>e. ets_key e = key \<and> ets_value e = value) head m
                  else Some 0);
        if found \<noteq> 0 then
          (if ets_type tb = BEAM_ETS_BAG then Some (BEAM_OK, m)
           else do {
             e \<leftarrow> ets_entries m found;
             Some (BEAM_OK, put_entry found (e\<lparr>ets_value := value\<rparr>) m)
           })
        else do {
          (entry, m1) \<leftarrow> call_alloc (ets_alloc tb) sizeof_ets_entry m;
          if entry = 0 then Some (BEAM_ERR_NO_MEMORY, m1)
          else do {
            old \<leftarrow> rd m1 slot;
            m2 \<leftarrow> wr slot entry (put_entry entry \<lparr>ets_key = key, ets_value = value, ets_next = old\<rparr> m1);
            Some (BEAM_OK, put_ets table (tb\<lparr>ets_item_count := ets_item_count tb + 1\<rparr>) m2)
          }
        }
      })"

definition beam_ets_lookup ::
    "ptr \<Rightarrow> eterm \<Rightarrow> bool \<Rightarrow> 'a ets_machine_scheme \<Rightarrow> (beam_result \<times> eterm option) option" where
  "beam_ets_lookup table key out_value m =
     (if table = 0 \<or> \<not> out_value then Some (BEAM_ERR_INVALID_ARG, None)
      else do {
        tb \<leftarrow> ets_tables m table;
        slot \<leftarrow> ets_bucket tb key;
        head \<leftarrow> rd m slot;
        found \<leftarrow> ets_find (\<lambda>e. ets_key e = key) head m;
        if found = 0 then Some (BEAM_ERR_NOT_FOUND, None)
        else do {
          e \<leftarrow> ets_entries m found;
          Some (BEAM_OK, Some (ets_value e))
        }
      })"

text \<open>
  The loop of the deletion holds the address of a link: the bucket, or the \<^verbatim>\<open>next\<close> field of an entry.
\<close>

datatype ets_link = Bucket ptr | Next_of ptr

definition read_link :: "ets_link \<Rightarrow> 'a ets_machine_scheme \<Rightarrow> ptr option" where
  "read_link l m = (case l of Bucket a \<Rightarrow> rd m a | Next_of a \<Rightarrow> map_option ets_next (ets_entries m a))"

definition write_link ::
    "ets_link \<Rightarrow> ptr \<Rightarrow> 'a ets_machine_scheme \<Rightarrow> 'a ets_machine_scheme option" where
  "write_link l v m =
     (case l of Bucket a \<Rightarrow> wr a v m
      | Next_of a \<Rightarrow> do { e \<leftarrow> ets_entries m a; Some (put_entry a (e\<lparr>ets_next := v\<rparr>) m) })"

partial_function (option) ets_unlink ::
    "ptr \<Rightarrow> eterm \<Rightarrow> ets_link \<Rightarrow> 'a ets_machine_scheme \<Rightarrow> (beam_result \<times> 'a ets_machine_scheme) option" where
  "ets_unlink table key l m = do {
     cur \<leftarrow> read_link l m;
     if cur = 0 then Some (BEAM_ERR_NOT_FOUND, m)
     else do {
       e \<leftarrow> ets_entries m cur;
       if ets_key e = key then do {
         tb \<leftarrow> ets_tables m table;
         m1 \<leftarrow> write_link l (ets_next e) m;
         m2 \<leftarrow> free_entry (ets_alloc tb) cur m1;
         Some (BEAM_OK, put_ets table (tb\<lparr>ets_item_count := ets_item_count tb - 1\<rparr>) m2)
       }
       else ets_unlink table key (Next_of cur) m
     }
   }"

definition beam_ets_delete ::
    "ptr \<Rightarrow> eterm \<Rightarrow> 'a ets_machine_scheme \<Rightarrow> (beam_result \<times> 'a ets_machine_scheme) option" where
  "beam_ets_delete table key m =
     (if table = 0 then Some (BEAM_ERR_INVALID_ARG, m)
      else do {
        tb \<leftarrow> ets_tables m table;
        slot \<leftarrow> ets_bucket tb key;
        ets_unlink table key (Bucket slot) m
      })"

definition beam_ets_count :: "ptr \<Rightarrow> 'a ets_machine_scheme \<Rightarrow> size_t option" where
  "beam_ets_count table m =
     (if table = 0 then Some 0 else map_option ets_item_count (ets_tables m table))"

definition beam_ets_update_counter ::
    "ptr \<Rightarrow> eterm \<Rightarrow> 64 word \<Rightarrow> bool \<Rightarrow> 'a ets_machine_scheme \<Rightarrow>
     (beam_result \<times> eterm option \<times> 'a ets_machine_scheme) option" where
  "beam_ets_update_counter table key increment out_new_value m =
     (if table = 0 \<or> \<not> out_new_value then Some (BEAM_ERR_INVALID_ARG, None, m)
      else do {
        tb \<leftarrow> ets_tables m table;
        slot \<leftarrow> ets_bucket tb key;
        head \<leftarrow> rd m slot;
        found \<leftarrow> ets_find (\<lambda>e. ets_key e = key) head m;
        if found = 0 then Some (BEAM_ERR_NOT_FOUND, None, m)
        else do {
          e \<leftarrow> ets_entries m found;
          v \<leftarrow> signed64 (sint (eterm_to_small_int (ets_value e)) + sint increment);
          let nv = make_small_int v;
          Some (BEAM_OK, Some nv, put_entry found (e\<lparr>ets_value := nv\<rparr>) m)
        }
      })"

lemmas ets_defs =
  ETS_DEFAULT_BUCKETS_def sizeof_ets_entry_def sizeof_beam_ets_table_def put_ets_def put_entry_def
  free_entry_def hash_eterm_def ets_bucket_def beam_ets_table_create_typed_def
  beam_ets_table_create_def beam_ets_table_destroy_def beam_ets_insert_def beam_ets_lookup_def
  read_link_def write_link_def beam_ets_delete_def beam_ets_count_def beam_ets_update_counter_def

lemmas [beam_defs] = ets_defs ets_find.simps free_bucket.simps ets_unlink.simps elem_addr_def

end
