(* ===== verification/Beam_Atom.thy ===== *)
theory Beam_Atom
  imports Beam_Ets
begin

text \<open>
  The atom table, \<^verbatim>\<open>src/global/atom_table.c\<close>: a hash table from names to atoms with a second array
  that maps the index of an atom back to its entry. Both arrays lie in the words of the machine; the
  bytes of the names are in a store of byte blocks. The reader and writer sections of an intern are
  definitions of their own, since another thread may run between them; each is one atomic step.
\<close>

subsection \<open>State\<close>

definition BEAM_ATOM_DEFAULT_CAPACITY :: size_t where "BEAM_ATOM_DEFAULT_CAPACITY = 256"

record beam_atom_entry =
  ae_name :: ptr
  ae_len :: size_t
  ae_hash :: u32
  ae_index :: u32
  ae_next :: ptr

record beam_atom_table =
  at_alloc :: beam_allocator_i
  at_buckets :: ptr
  at_index_map :: ptr
  at_bucket_count :: size_t
  at_count :: size_t
  at_index_map_capacity :: size_t

record atom_machine = ets_machine +
  byte_blocks :: "ptr \<rightharpoonup> u8 list"
  atom_entries :: "ptr \<rightharpoonup> beam_atom_entry"
  atom_tables :: "ptr \<rightharpoonup> beam_atom_table"

text \<open>Sizes of the two structs on LP64.\<close>

definition sizeof_beam_atom_entry :: size_t where "sizeof_beam_atom_entry = 32"
definition sizeof_beam_atom_table :: size_t where "sizeof_beam_atom_table = 128"

definition put_atoms :: "ptr \<Rightarrow> beam_atom_table \<Rightarrow> 'a atom_machine_scheme \<Rightarrow> 'a atom_machine_scheme" where
  "put_atoms t tb m = m\<lparr>atom_tables := (atom_tables m)(t \<mapsto> tb)\<rparr>"

definition put_atom :: "ptr \<Rightarrow> beam_atom_entry \<Rightarrow> 'a atom_machine_scheme \<Rightarrow> 'a atom_machine_scheme" where
  "put_atom a e m = m\<lparr>atom_entries := (atom_entries m)(a \<mapsto> e)\<rparr>"

definition put_bytes :: "ptr \<Rightarrow> u8 list \<Rightarrow> 'a atom_machine_scheme \<Rightarrow> 'a atom_machine_scheme" where
  "put_bytes a bs m = m\<lparr>byte_blocks := (byte_blocks m)(a \<mapsto> bs)\<rparr>"

definition free_bytes ::
    "beam_allocator_i \<Rightarrow> ptr \<Rightarrow> 'a atom_machine_scheme \<Rightarrow> 'a atom_machine_scheme option" where
  "free_bytes vt a m = do {
     m' \<leftarrow> call_free vt a m;
     Some (m'\<lparr>byte_blocks := (byte_blocks m')(a := None)\<rparr>)
   }"

definition free_atom ::
    "beam_allocator_i \<Rightarrow> ptr \<Rightarrow> 'a atom_machine_scheme \<Rightarrow> 'a atom_machine_scheme option" where
  "free_atom vt a m = do {
     m' \<leftarrow> call_free vt a m;
     Some (m'\<lparr>atom_entries := (atom_entries m')(a := None)\<rparr>)
   }"

subsection \<open>Hashing and tagging\<close>

text \<open>The first \<open>len\<close> bytes of a string argument.\<close>

definition read_bytes :: "u8 list \<Rightarrow> size_t \<Rightarrow> u8 list option" where
  "read_bytes name len = (if unat len \<le> length name then Some (take (unat len) name) else None)"

definition hash_atom_name :: "u8 list \<Rightarrow> u32" where
  "hash_atom_name bs = foldl (\<lambda>h b. (h XOR ucast b) * 16777619) 2166136261 bs"

definition atom_eterm :: "u32 \<Rightarrow> eterm" where
  "atom_eterm index = push_bit 4 (ucast index) OR TAG_IMMED1_ATOM"

definition atom_index :: "eterm \<Rightarrow> u32" where
  "atom_index t = ucast (drop_bit 4 t)"

subsection \<open>Creation and destruction\<close>

text \<open>
  The size \<^verbatim>\<open>sizeof(beam_atom_entry_t*) * capacity\<close> of the arrays wraps around for a huge capacity, and
  so does the number of words that are cleared.
\<close>

definition beam_atom_table_create ::
    "beam_allocator_i option \<Rightarrow> size_t \<Rightarrow> 'a atom_machine_scheme \<Rightarrow> (ptr \<times> 'a atom_machine_scheme) option" where
  "beam_atom_table_create al initial_capacity m =
     (if \<not> alloc_arg_ok al then Some (0, m)
      else do {
        let vt = the al;
        let capacity = (if initial_capacity > 0 then initial_capacity else BEAM_ATOM_DEFAULT_CAPACITY);
        (table, m1) \<leftarrow> call_alloc vt sizeof_beam_atom_table m;
        if table = 0 then Some (0, m1)
        else do {
          (bs, m2) \<leftarrow> call_alloc vt (8 * capacity) m1;
          if bs = 0 then do {
            m3 \<leftarrow> call_free vt table m2;
            Some (0, m3)
          } else do {
            m3 \<leftarrow> wr_list bs (replicate (unat (8 * capacity) div 8) 0) m2;
            (im, m4) \<leftarrow> call_alloc vt (8 * capacity) m3;
            if im = 0 then do {
              m5 \<leftarrow> call_free vt bs m4;
              m6 \<leftarrow> call_free vt table m5;
              Some (0, m6)
            } else do {
              m5 \<leftarrow> wr_list im (replicate (unat (8 * capacity) div 8) 0) m4;
              Some (table, put_atoms table
                \<lparr>at_alloc = vt, at_buckets = bs, at_index_map = im, at_bucket_count = capacity,
                 at_count = 0, at_index_map_capacity = capacity\<rparr> m5)
            }
          }
        }
      })"

partial_function (option) free_atoms ::
    "beam_allocator_i \<Rightarrow> ptr \<Rightarrow> 'a atom_machine_scheme \<Rightarrow> 'a atom_machine_scheme option" where
  "free_atoms vt entry m =
     (if entry = 0 then Some m
      else do {
        e \<leftarrow> atom_entries m entry;
        m1 \<leftarrow> (if ae_name e \<noteq> 0 then free_bytes vt (ae_name e) m else Some m);
        m2 \<leftarrow> free_atom vt entry m1;
        free_atoms vt (ae_next e) m2
      })"

fun free_atom_buckets ::
    "beam_allocator_i \<Rightarrow> ptr \<Rightarrow> nat list \<Rightarrow> 'a atom_machine_scheme \<Rightarrow> 'a atom_machine_scheme option" where
  "free_atom_buckets vt bs [] m = Some m"
| "free_atom_buckets vt bs (i # is) m = do {
     entry \<leftarrow> rd m (elem_addr bs i);
     m1 \<leftarrow> free_atoms vt entry m;
     free_atom_buckets vt bs is m1
   }"

definition beam_atom_table_destroy ::
    "ptr \<Rightarrow> 'a atom_machine_scheme \<Rightarrow> 'a atom_machine_scheme option" where
  "beam_atom_table_destroy table m =
     (if table = 0 then Some m
      else do {
        tb \<leftarrow> atom_tables m table;
        let vt = at_alloc tb;
        m1 \<leftarrow> free_atom_buckets vt (at_buckets tb) [0..<unat (at_bucket_count tb)] m;
        m2 \<leftarrow> (if at_buckets tb \<noteq> 0 then call_free vt (at_buckets tb) m1 else Some m1);
        m3 \<leftarrow> (if at_index_map tb \<noteq> 0 then call_free vt (at_index_map tb) m2 else Some m2);
        m4 \<leftarrow> call_free vt table m3;
        Some (m4\<lparr>atom_tables := (atom_tables m4)(table := None)\<rparr>)
      })"

subsection \<open>Searching\<close>

text \<open>\<^verbatim>\<open>memcmp(entry->name, name, len) == 0\<close> for an entry of the same length.\<close>

definition same_name :: "u32 \<Rightarrow> u8 list \<Rightarrow> beam_atom_entry \<Rightarrow> 'a atom_machine_scheme \<Rightarrow> bool option" where
  "same_name hash bs e m =
     (if ae_hash e = hash \<and> ae_len e = of_nat (length bs) then do {
        nb \<leftarrow> byte_blocks m (ae_name e);
        if length nb < length bs then None else Some (take (length bs) nb = bs)
      } else Some False)"

partial_function (option) atom_find ::
    "u32 \<Rightarrow> u8 list \<Rightarrow> ptr \<Rightarrow> 'a atom_machine_scheme \<Rightarrow> ptr option" where
  "atom_find hash bs entry m =
     (if entry = 0 then Some 0
      else do {
        e \<leftarrow> atom_entries m entry;
        b \<leftarrow> same_name hash bs e m;
        if b then Some entry else atom_find hash bs (ae_next e) m
      })"

text \<open>The address of \<^verbatim>\<open>table->buckets[hash % bucket_count]\<close>.\<close>

definition atom_bucket :: "beam_atom_table \<Rightarrow> u32 \<Rightarrow> ptr option" where
  "atom_bucket tb hash =
     (if at_bucket_count tb = 0 then None
      else Some (at_buckets tb + 8 * (ucast hash mod at_bucket_count tb)))"

definition atom_table_find_entry ::
    "ptr \<Rightarrow> u8 list option \<Rightarrow> size_t \<Rightarrow> 'a atom_machine_scheme \<Rightarrow> ptr option" where
  "atom_table_find_entry table name len m =
     (if table = 0 \<or> name = None then Some 0
      else do {
        tb \<leftarrow> atom_tables m table;
        bs \<leftarrow> read_bytes (the name) len;
        slot \<leftarrow> atom_bucket tb (hash_atom_name bs);
        head \<leftarrow> rd m slot;
        atom_find (hash_atom_name bs) bs head m
      })"

subsection \<open>Insertion\<close>

text \<open>The index map grows by doubling when it is full; \<open>None\<close> in the inner option is out of memory.\<close>

definition grow_index_map ::
    "beam_atom_table \<Rightarrow> 'a atom_machine_scheme \<Rightarrow> (beam_atom_table option \<times> 'a atom_machine_scheme) option" where
  "grow_index_map tb m =
     (if at_count tb \<ge> at_index_map_capacity tb then do {
        let new_cap = at_index_map_capacity tb * 2;
        (new_map, m1) \<leftarrow> call_realloc (at_alloc tb) (at_index_map tb) (8 * new_cap) m;
        if new_map = 0 then Some (None, m1)
        else Some (Some (tb\<lparr>at_index_map := new_map, at_index_map_capacity := new_cap\<rparr>), m1)
      } else Some (Some tb, m))"

definition atom_table_insert ::
    "ptr \<Rightarrow> u8 list option \<Rightarrow> size_t \<Rightarrow> 'a atom_machine_scheme \<Rightarrow> (eterm \<times> 'a atom_machine_scheme) option" where
  "atom_table_insert table name len m =
     (if table = 0 \<or> name = None then Some (0, m)
      else do {
        tb0 \<leftarrow> atom_tables m table;
        (grown, m1) \<leftarrow> grow_index_map tb0 m;
        case grown of None \<Rightarrow> Some (0, m1)
        | Some tb \<Rightarrow> do {
            let m2 = put_atoms table tb m1;
            bs \<leftarrow> read_bytes (the name) len;
            let hash = hash_atom_name bs;
            slot \<leftarrow> atom_bucket tb hash;
            (entry, m3) \<leftarrow> call_alloc (at_alloc tb) sizeof_beam_atom_entry m2;
            if entry = 0 then Some (0, m3)
            else do {
              (nm, m4) \<leftarrow> call_alloc (at_alloc tb) (len + 1) m3;
              if nm = 0 then do {
                m5 \<leftarrow> call_free (at_alloc tb) entry m4;
                Some (0, m5)
              } else do {
                let m5 = put_bytes nm (bs @ [0]) m4;
                old \<leftarrow> rd m5 slot;
                let index = ucast (at_count tb);
                m6 \<leftarrow> wr slot entry (put_atom entry
                  \<lparr>ae_name = nm, ae_len = len, ae_hash = hash, ae_index = index, ae_next = old\<rparr> m5);
                m7 \<leftarrow> wr (at_index_map tb + 8 * at_count tb) entry m6;
                Some (atom_eterm index, put_atoms table (tb\<lparr>at_count := at_count tb + 1\<rparr>) m7)
              }
            }
          }
      })"

subsection \<open>Interning and looking up\<close>

text \<open>What a reader finds under the shared lock: the atom, if the name is there.\<close>

definition intern_read_section ::
    "ptr \<Rightarrow> u8 list option \<Rightarrow> size_t \<Rightarrow> 'a atom_machine_scheme \<Rightarrow> eterm option option" where
  "intern_read_section table name len m = do {
     existing \<leftarrow> atom_table_find_entry table name len m;
     if existing \<noteq> 0 then do {
       e \<leftarrow> atom_entries m existing;
       Some (Some (atom_eterm (ae_index e)))
     } else Some None
   }"

text \<open>The section under the exclusive lock looks the name up again before it inserts it.\<close>

definition intern_write_section ::
    "ptr \<Rightarrow> u8 list option \<Rightarrow> size_t \<Rightarrow> 'a atom_machine_scheme \<Rightarrow> (eterm \<times> 'a atom_machine_scheme) option" where
  "intern_write_section table name len m = do {
     found \<leftarrow> intern_read_section table name len m;
     case found of Some t \<Rightarrow> Some (t, m)
     | None \<Rightarrow> atom_table_insert table name len m
   }"

definition beam_atom_intern_length ::
    "ptr \<Rightarrow> u8 list option \<Rightarrow> size_t \<Rightarrow> 'a atom_machine_scheme \<Rightarrow> (eterm \<times> 'a atom_machine_scheme) option" where
  "beam_atom_intern_length table name len m =
     (if table = 0 \<or> name = None then Some (0, m)
      else do {
        found \<leftarrow> intern_read_section table name len m;
        case found of Some t \<Rightarrow> Some (t, m)
        | None \<Rightarrow> intern_write_section table name len m
      })"

definition beam_atom_intern ::
    "ptr \<Rightarrow> u8 list option \<Rightarrow> 'a atom_machine_scheme \<Rightarrow> (eterm \<times> 'a atom_machine_scheme) option" where
  "beam_atom_intern table name m =
     (if table = 0 \<or> name = None then Some (0, m)
      else do {
        n \<leftarrow> c_strlen (the name);
        let len = of_nat n;
        found \<leftarrow> intern_read_section table name len m;
        case found of Some t \<Rightarrow> Some (t, m)
        | None \<Rightarrow> intern_write_section table name len m
      })"

definition beam_atom_lookup :: "ptr \<Rightarrow> eterm \<Rightarrow> 'a atom_machine_scheme \<Rightarrow> ptr option" where
  "beam_atom_lookup table atom_term m =
     (if table = 0 then Some 0
      else if atom_term AND 0x0F \<noteq> TAG_IMMED1_ATOM then Some 0
      else do {
        tb \<leftarrow> atom_tables m table;
        let index = (ucast (atom_index atom_term) :: size_t);
        if index \<ge> at_count tb then Some 0
        else do {
          entry \<leftarrow> rd m (at_index_map tb + 8 * index);
          if entry = 0 then Some 0
          else do {
            e \<leftarrow> atom_entries m entry;
            Some (ae_name e)
          }
        }
      })"

definition beam_atom_table_count :: "ptr \<Rightarrow> 'a atom_machine_scheme \<Rightarrow> size_t option" where
  "beam_atom_table_count table m = (if table = 0 then Some 0 else map_option at_count (atom_tables m table))"

lemmas atom_defs =
  BEAM_ATOM_DEFAULT_CAPACITY_def sizeof_beam_atom_entry_def sizeof_beam_atom_table_def put_atoms_def
  put_atom_def put_bytes_def free_bytes_def free_atom_def read_bytes_def hash_atom_name_def atom_eterm_def
  atom_index_def beam_atom_table_create_def beam_atom_table_destroy_def same_name_def atom_bucket_def
  atom_table_find_entry_def grow_index_map_def atom_table_insert_def intern_read_section_def
  intern_write_section_def beam_atom_intern_length_def beam_atom_intern_def beam_atom_lookup_def
  beam_atom_table_count_def

lemmas [beam_defs] = atom_defs free_atoms.simps atom_find.simps

end
