(* ===== verification/Beam_Load.thy ===== *)
theory Beam_Load
  imports Beam_Atom
begin

text \<open>
  The loader of BEAM files, \<^verbatim>\<open>src/emulator/beam_load.c\<close>: an IFF container with a sequence of chunks.
  A file keeps pointers to the chunks in the caller's buffer and its own copies of the atom names. A
  pointer into the buffer is modelled by the bytes that may be read from it on, so reading past the
  end of the buffer is undefined behaviour; the null pointer is \<open>None\<close>. The array of names lies in
  the words of the machine and the names in the store of byte blocks.
\<close>

subsection \<open>State\<close>

record beam_file =
  bf_module_name :: "u8 list"
  bf_atom_table :: ptr
  bf_atom_count :: size_t
  code_chunk :: "u8 list option"
  code_chunk_len :: size_t
  lit_chunk :: "u8 list option"
  lit_chunk_len :: size_t
  exp_chunk :: "u8 list option"
  exp_chunk_len :: size_t
  imp_chunk :: "u8 list option"
  imp_chunk_len :: size_t
  str_chunk :: "u8 list option"
  str_chunk_len :: size_t
  bf_alloc :: beam_allocator_i

record beam_module =
  mod_file :: ptr
  mod_alloc :: beam_allocator_i

record file_machine = atom_machine +
  beam_files :: "ptr \<rightharpoonup> beam_file"
  beam_modules :: "ptr \<rightharpoonup> beam_module"

text \<open>Sizes of the two structs on LP64.\<close>

definition sizeof_beam_file :: size_t where "sizeof_beam_file = 192"
definition sizeof_beam_module :: size_t where "sizeof_beam_module = 40"

definition put_file :: "ptr \<Rightarrow> beam_file \<Rightarrow> 'a file_machine_scheme \<Rightarrow> 'a file_machine_scheme" where
  "put_file f bf m = m\<lparr>beam_files := (beam_files m)(f \<mapsto> bf)\<rparr>"

subsection \<open>Reading the buffer\<close>

definition byte_at :: "u8 list \<Rightarrow> size_t \<Rightarrow> u8 option" where
  "byte_at buf pos = (if unat pos < length buf then Some (buf ! unat pos) else None)"

definition bytes_at :: "u8 list \<Rightarrow> size_t \<Rightarrow> size_t \<Rightarrow> u8 list option" where
  "bytes_at buf pos n = (if unat pos + unat n \<le> length buf then Some (take (unat n) (drop (unat pos) buf)) else None)"

definition read_u32_be :: "u8 list \<Rightarrow> u32 option" where
  "read_u32_be p =
     (case p of b0 # b1 # b2 # b3 # _ \<Rightarrow>
        Some (push_bit 24 (ucast b0) OR push_bit 16 (ucast b1) OR push_bit 8 (ucast b2) OR ucast b3)
      | _ \<Rightarrow> None)"

text \<open>\<^verbatim>\<open>&buffer[pos]\<close>: a pointer past the end of the buffer is undefined behaviour.\<close>

definition buf_ptr :: "u8 list \<Rightarrow> size_t \<Rightarrow> u8 list option" where
  "buf_ptr buf pos = (if unat pos \<le> length buf then Some (drop (unat pos) buf) else None)"

text \<open>\<^verbatim>\<open>FOR1\<close>, \<^verbatim>\<open>BEAM\<close> and the identifiers of the chunks.\<close>

definition id_FOR1 :: "u8 list" where "id_FOR1 = [0x46, 0x4F, 0x52, 0x31]"
definition id_BEAM :: "u8 list" where "id_BEAM = [0x42, 0x45, 0x41, 0x4D]"
definition id_Atom :: "u8 list" where "id_Atom = [0x41, 0x74, 0x6F, 0x6D]"
definition id_AtU8 :: "u8 list" where "id_AtU8 = [0x41, 0x74, 0x55, 0x38]"
definition id_Code :: "u8 list" where "id_Code = [0x43, 0x6F, 0x64, 0x65]"
definition id_LitT :: "u8 list" where "id_LitT = [0x4C, 0x69, 0x74, 0x54]"
definition id_ExpT :: "u8 list" where "id_ExpT = [0x45, 0x78, 0x70, 0x54]"
definition id_ImpT :: "u8 list" where "id_ImpT = [0x49, 0x6D, 0x70, 0x54]"
definition id_StrT :: "u8 list" where "id_StrT = [0x53, 0x74, 0x72, 0x54]"

subsection \<open>The atom chunk\<close>

text \<open>
  The loop over the atoms: it reads the length and the bytes of a name, copies the name into a block
  of its own when one can be allocated, and takes the first name for the name of the module. Nothing
  keeps the reads inside the chunk.
\<close>

fun load_atoms ::
    "beam_allocator_i \<Rightarrow> u8 list \<Rightarrow> bool \<Rightarrow> nat list \<Rightarrow> size_t \<Rightarrow> beam_file \<Rightarrow> 'a file_machine_scheme \<Rightarrow>
     (beam_file \<times> 'a file_machine_scheme) option" where
  "load_atoms vt buf is_atu8 [] atom_pos bf m = Some (bf, m)"
| "load_atoms vt buf is_atu8 (i # is) atom_pos bf m = do {
     (len, pos1) \<leftarrow>
       (if is_atu8 then do {
          hi \<leftarrow> byte_at buf atom_pos;
          lo \<leftarrow> byte_at buf (atom_pos + 1);
          Some (push_bit 8 (ucast hi) OR ucast lo :: u16, atom_pos + 2)
        } else do {
          b \<leftarrow> byte_at buf atom_pos;
          Some (ucast b, atom_pos + 1)
        });
     (name, m1) \<leftarrow> call_alloc vt (ucast len + 1) m;
     (bf1, m2) \<leftarrow>
       (if name = 0 then Some (bf, m1)
        else do {
          bs \<leftarrow> bytes_at buf pos1 (ucast len);
          let m2 = put_bytes name (bs @ [0]) m1;
          m3 \<leftarrow> wr (elem_addr (bf_atom_table bf) i) name m2;
          if i = 0 then do {
            nm \<leftarrow> c_strncpy (bf_module_name bf) (bs @ [0]) 63;
            Some (bf\<lparr>bf_module_name := nm\<rparr>, m3)
          } else Some (bf, m3)
        });
     load_atoms vt buf is_atu8 is (pos1 + ucast len) bf1 m2
   }"

text \<open>
  The number of atoms is read as a signed integer and negated when it is negative; negating the
  smallest one is undefined. Too many atoms end the parse with a null result: \<open>None\<close> in the result.
\<close>

definition atom_number :: "u32 \<Rightarrow> u32 option" where
  "atom_number raw_num =
     (if sint raw_num < 0 then (if sint raw_num = - (2 ^ 31) then None else Some (- raw_num)) else Some raw_num)"

definition load_atom_chunk ::
    "beam_allocator_i \<Rightarrow> u8 list \<Rightarrow> bool \<Rightarrow> size_t \<Rightarrow> beam_file \<Rightarrow> 'a file_machine_scheme \<Rightarrow>
     (beam_file option \<times> 'a file_machine_scheme) option" where
  "load_atom_chunk vt buf is_atu8 pos bf m = do {
     p \<leftarrow> buf_ptr buf pos;
     raw_num \<leftarrow> read_u32_be p;
     num_atoms \<leftarrow> atom_number raw_num;
     if num_atoms > 100000 then Some (None, m)
     else do {
       (tab, m1) \<leftarrow> call_alloc vt (8 * ucast num_atoms) m;
       let bf1 = bf\<lparr>bf_atom_count := ucast num_atoms, bf_atom_table := tab\<rparr>;
       if tab = 0 then Some (Some bf1, m1)
       else do {
         m2 \<leftarrow> wr_list tab (replicate (unat num_atoms) 0) m1;
         (bf2, m3) \<leftarrow> load_atoms vt buf is_atu8 [0..<unat num_atoms] (pos + 4) bf1 m2;
         Some (Some bf2, m3)
       }
     }
   }"

subsection \<open>Parsing\<close>

definition set_chunk :: "u8 list \<Rightarrow> u8 list \<Rightarrow> size_t \<Rightarrow> beam_file \<Rightarrow> beam_file" where
  "set_chunk cid p len bf =
     (if cid = id_Code then bf\<lparr>code_chunk := Some p, code_chunk_len := len\<rparr>
      else if cid = id_LitT then bf\<lparr>lit_chunk := Some p, lit_chunk_len := len\<rparr>
      else if cid = id_ExpT then bf\<lparr>exp_chunk := Some p, exp_chunk_len := len\<rparr>
      else if cid = id_ImpT then bf\<lparr>imp_chunk := Some p, imp_chunk_len := len\<rparr>
      else if cid = id_StrT then bf\<lparr>str_chunk := Some p, str_chunk_len := len\<rparr>
      else bf)"

text \<open>\<open>None\<close> as the file is the null result of a file with too many atoms.\<close>

partial_function (option) parse_chunks ::
    "beam_allocator_i \<Rightarrow> u8 list \<Rightarrow> size_t \<Rightarrow> size_t \<Rightarrow> beam_file \<Rightarrow> 'a file_machine_scheme \<Rightarrow>
     (beam_file option \<times> 'a file_machine_scheme) option" where
  "parse_chunks vt buf sz pos bf m =
     (if \<not> pos + 8 \<le> sz then Some (Some bf, m)
      else do {
        chunk_id \<leftarrow> bytes_at buf pos 4;
        lp \<leftarrow> buf_ptr buf (pos + 4);
        len32 \<leftarrow> read_u32_be lp;
        let len = (ucast len32 :: size_t);
        let pos1 = pos + 8;
        if pos1 + len > sz then Some (Some bf, m)
        else do {
          (fo, m1) \<leftarrow>
            (if chunk_id = id_Atom \<or> chunk_id = id_AtU8
             then load_atom_chunk vt buf (chunk_id = id_AtU8) pos1 bf m
             else do { p \<leftarrow> buf_ptr buf pos1; Some (Some (set_chunk chunk_id p len bf), m) });
          case fo of None \<Rightarrow> Some (None, m1)
          | Some bf1 \<Rightarrow>
              (let pad = ucast ((4 - len32 mod 4) mod 4)
               in parse_chunks vt buf sz (pos1 + (len + pad)) bf1 m1)
        }
      })"

definition zero_file :: "beam_allocator_i \<Rightarrow> beam_file" where
  "zero_file vt =
     \<lparr>bf_module_name = replicate 64 0, bf_atom_table = 0, bf_atom_count = 0,
      code_chunk = None, code_chunk_len = 0, lit_chunk = None, lit_chunk_len = 0,
      exp_chunk = None, exp_chunk_len = 0, imp_chunk = None, imp_chunk_len = 0,
      str_chunk = None, str_chunk_len = 0, bf_alloc = vt\<rparr>"

definition beam_file_parse ::
    "u8 list option \<Rightarrow> size_t \<Rightarrow> beam_allocator_i option \<Rightarrow> 'a file_machine_scheme \<Rightarrow>
     (ptr \<times> 'a file_machine_scheme) option" where
  "beam_file_parse data sz al m =
     (if data = None \<or> sz < 12 \<or> \<not> alloc_arg_ok al then Some (0, m)
      else do {
        let buf = the data;
        magic \<leftarrow> bytes_at buf 0 4;
        form \<leftarrow> bytes_at buf 8 4;
        if magic \<noteq> id_FOR1 \<or> form \<noteq> id_BEAM then Some (0, m)
        else do {
          (beam, m1) \<leftarrow> call_alloc (the al) sizeof_beam_file m;
          if beam = 0 then Some (0, m1)
          else do {
            (fo, m2) \<leftarrow> parse_chunks (the al) buf sz 12 (zero_file (the al)) m1;
            case fo of None \<Rightarrow> Some (0, m2)
            | Some bf \<Rightarrow> Some (beam, put_file beam bf m2)
          }
        }
      })"

subsection \<open>Access and destruction\<close>

definition beam_file_get_module_name :: "ptr \<Rightarrow> 'a file_machine_scheme \<Rightarrow> u8 list option option" where
  "beam_file_get_module_name f m =
     (if f = 0 then Some None else map_option (\<lambda>bf. Some (bf_module_name bf)) (beam_files m f))"

definition beam_file_get_atom_count :: "ptr \<Rightarrow> 'a file_machine_scheme \<Rightarrow> size_t option" where
  "beam_file_get_atom_count f m = (if f = 0 then Some 0 else map_option bf_atom_count (beam_files m f))"

definition beam_file_get_atom :: "ptr \<Rightarrow> size_t \<Rightarrow> 'a file_machine_scheme \<Rightarrow> ptr option" where
  "beam_file_get_atom f index m =
     (if f = 0 then Some 0
      else do {
        bf \<leftarrow> beam_files m f;
        if index \<ge> bf_atom_count bf \<or> bf_atom_table bf = 0 then Some 0
        else rd m (bf_atom_table bf + 8 * index)
      })"

fun free_atom_names ::
    "beam_allocator_i \<Rightarrow> ptr \<Rightarrow> nat list \<Rightarrow> 'a file_machine_scheme \<Rightarrow> 'a file_machine_scheme option" where
  "free_atom_names vt tab [] m = Some m"
| "free_atom_names vt tab (i # is) m = do {
     name \<leftarrow> rd m (elem_addr tab i);
     m1 \<leftarrow> (if name \<noteq> 0 then free_bytes vt name m else Some m);
     free_atom_names vt tab is m1
   }"

definition beam_file_destroy :: "ptr \<Rightarrow> 'a file_machine_scheme \<Rightarrow> 'a file_machine_scheme option" where
  "beam_file_destroy f m =
     (if f = 0 then Some m
      else do {
        bf \<leftarrow> beam_files m f;
        let vt = bf_alloc bf;
        m1 \<leftarrow> (if bf_atom_table bf \<noteq> 0 then do {
                  m1 \<leftarrow> free_atom_names vt (bf_atom_table bf) [0..<unat (bf_atom_count bf)] m;
                  call_free vt (bf_atom_table bf) m1
                } else Some m);
        m2 \<leftarrow> call_free vt f m1;
        Some (m2\<lparr>beam_files := (beam_files m2)(f := None)\<rparr>)
      })"

definition beam_module_load_from_memory ::
    "u8 list option \<Rightarrow> size_t \<Rightarrow> beam_allocator_i option \<Rightarrow> 'a file_machine_scheme \<Rightarrow>
     (ptr \<times> 'a file_machine_scheme) option" where
  "beam_module_load_from_memory data sz al m =
     (if data = None \<or> sz = 0 \<or> \<not> alloc_arg_ok al then Some (0, m)
      else do {
        (md, m1) \<leftarrow> call_alloc (the al) sizeof_beam_module m;
        if md = 0 then Some (0, m1)
        else do {
          (f, m2) \<leftarrow> beam_file_parse data sz al m1;
          if f = 0 then do {
            m3 \<leftarrow> call_free (the al) md m2;
            Some (0, m3)
          } else Some (md, m2\<lparr>beam_modules := (beam_modules m2)(md \<mapsto> \<lparr>mod_file = f, mod_alloc = the al\<rparr>)\<rparr>)
        }
      })"

definition beam_module_destroy :: "ptr \<Rightarrow> 'a file_machine_scheme \<Rightarrow> 'a file_machine_scheme option" where
  "beam_module_destroy mp m =
     (if mp = 0 then Some m
      else do {
        md \<leftarrow> beam_modules m mp;
        m1 \<leftarrow> (if mod_file md \<noteq> 0 then beam_file_destroy (mod_file md) m else Some m);
        m2 \<leftarrow> call_free (mod_alloc md) mp m1;
        Some (m2\<lparr>beam_modules := (beam_modules m2)(mp := None)\<rparr>)
      })"

lemmas load_defs =
  sizeof_beam_file_def sizeof_beam_module_def put_file_def byte_at_def bytes_at_def read_u32_be_def
  buf_ptr_def id_FOR1_def id_BEAM_def id_Atom_def id_AtU8_def id_Code_def id_LitT_def id_ExpT_def
  id_ImpT_def id_StrT_def atom_number_def load_atom_chunk_def set_chunk_def zero_file_def beam_file_parse_def
  beam_file_get_module_name_def beam_file_get_atom_count_def beam_file_get_atom_def
  beam_file_destroy_def beam_module_load_from_memory_def beam_module_destroy_def

lemmas [beam_defs] = load_defs parse_chunks.simps

end
