(* ===== verification/Beam_Decode.thy ===== *)
theory Beam_Decode
  imports Beam_Load
begin

text \<open>
  The decoder of the code chunk, \<^verbatim>\<open>src/emulator/beam_decode.c\<close>. The two pointers \<^verbatim>\<open>p\<close> and \<^verbatim>\<open>end\<close> are the
  list of the bytes between them, so that the tests \<^verbatim>\<open>p >= end\<close> are tests for the empty list. The array
  of instructions is a store of its own; a write behind its block is undefined behaviour.
\<close>

record code_machine = file_machine +
  instr_arrays :: "ptr \<rightharpoonup> beam_instruction list"

definition sizeof_beam_instruction :: size_t where "sizeof_beam_instruction = 48"

subsection \<open>Arguments\<close>

fun read_val :: "nat \<Rightarrow> u32 \<Rightarrow> u8 list \<Rightarrow> u32 \<times> u8 list" where
  "read_val 0 val p = (val, p)"
| "read_val (Suc n) val [] = (val, [])"
| "read_val (Suc n) val (c # p) = read_val n (push_bit 8 val OR ucast c) p"

definition tag_val :: "u8 \<Rightarrow> u32 \<Rightarrow> eterm" where
  "tag_val tag val =
     (if tag = 0 \<or> tag = 1 \<or> tag = 6 then make_small_int (ucast val)
      else if tag = 2 then ucast (push_bit 4 val OR 11)
      else ucast val)"

text \<open>
  The result is the term and the position of the caller's pointer. An argument that is cut off after
  its first byte returns 0 and leaves the pointer where it was.
\<close>

fun decode_arg :: "u8 list \<Rightarrow> eterm \<times> u8 list" where
  "decode_arg [] = (0, [])"
| "decode_arg (b # p) =
     (if b AND 0x08 = 0 then (tag_val (b AND 7) (ucast (drop_bit 4 b)), p)
      else if b AND 0x10 = 0 then
        (case p of [] \<Rightarrow> (0, b # p)
         | c # q \<Rightarrow> (tag_val (b AND 7) (push_bit 8 (ucast (drop_bit 5 b)) OR ucast c), q))
      else
        (let (len, q) = (if drop_bit 5 b < 7 then (ucast (drop_bit 5 b) + 2, p)
                         else (case decode_arg p of (t, r) \<Rightarrow> (ucast (eterm_to_small_int t) :: u32, r)));
             n = (if len > 1024 then 1024 else unat len);
             (val, r) = read_val n 0 q
         in (tag_val (b AND 7) val, r)))"

fun decode_args :: "nat \<Rightarrow> u8 list \<Rightarrow> eterm list \<times> u8 list" where
  "decode_args 0 p = ([], p)"
| "decode_args (Suc n) p =
     (let (a, q) = decode_arg p; (as, r) = decode_args n q in (a # as, r))"

subsection \<open>Instructions\<close>

text \<open>The value of an enumerator of \<^verbatim>\<open>beam_opcode_t\<close>.\<close>

definition opcode_no :: "beam_opcode \<Rightarrow> u32" where
  "opcode_no oc = of_nat (Suc (length (takeWhile (\<lambda>c. c \<noteq> oc) beam_opcodes)))"

text \<open>The fields for the arguments have 32 bits; what is not decoded stays zero.\<close>

definition mk_instr :: "u32 \<Rightarrow> eterm list \<Rightarrow> beam_instruction" where
  "mk_instr oc as =
     \<lparr>opcode = oc, arg1 = (if 0 < length as then ucast (as ! 0) else 0),
      arg2 = (if 1 < length as then ucast (as ! 1) else 0),
      arg3 = (if 2 < length as then ucast (as ! 2) else 0),
      literal = 0, target_proc = 0, extra_args = None, extra_count = 0\<rparr>"

definition with_args :: "u32 \<Rightarrow> nat \<Rightarrow> u8 list \<Rightarrow> beam_instruction \<times> u8 list" where
  "with_args oc n p = (case decode_args n p of (as, q) \<Rightarrow> (mk_instr oc as, q))"

definition beam_opcode_arities :: "nat list" where
  "beam_opcode_arities =
    [0, 1, 3, 0, 2, 3, 2, 2, 3, 2, 4, 5, 2, 3, 2, 3,
     2, 1, 1, 0, 0, 0, 0, 2, 1, 1, 2, 4, 4, 4, 4, 4,
     4, 4, 4, 4, 4, 4, 3, 3, 3, 3, 3, 3, 3, 2, 2, 2,
     2, 2, 2, 2, 2, 2, 2, 2, 2, 2, 3, 3, 3, 1, 2, 1,
     2, 3, 3, 3, 3, 3, 2, 1, 1, 0, 1, 1, 3, 2, 2, 2,
     5, 5, 5, 4, 2, 1, 1, 2, 2, 5, 5, 5, 2, 1, 0, 1,
     2, 2, 4, 4, 4, 4, 3, 1, 2, 1, 1, 1, 2, 6, 3, 5,
     1, 2, 2, 3, 5, 7, 7, 7, 5, 3, 2, 2, 5, 6, 2, 2,
     2, 2, 1, 3, 4, 0, 8, 6, 2, 6, 5, 4, 5, 4, 5, 4,
     3, 3, 3, 3, 3, 0, 1, 1, 7, 1, 5, 5, 2, 3, 3, 4,
     0, 0, 2, 2, 2, 3, 4, 3, 2, 2, 4, 3, 1, 2, 1, 1,
     1, 6, 3, 0, 1, 5, 3, 2, 4, 6, 2, 4, 3, 6, 3, 5] @ replicate 64 0"

text \<open>The arguments of an opcode that is not decoded are read and dropped.\<close>

definition skip_args :: "nat \<Rightarrow> u8 list \<Rightarrow> beam_instruction \<times> u8 list" where
  "skip_args n p = (mk_instr 0 [], snd (decode_args n p))"

definition decode_instruction :: "u8 \<Rightarrow> u8 list \<Rightarrow> beam_instruction \<times> u8 list" where
  "decode_instruction op p =
     (if op = 1 then with_args (opcode_no BEAM_OP_LABEL) 1 p
      else if op = 64 then with_args (opcode_no BEAM_OP_MOVE) 2 p
      else if op = 4 then with_args (opcode_no BEAM_OP_CALL) 2 p
      else if op = 19 then with_args (opcode_no BEAM_OP_RETURN) 0 p
      else if op = 153 then with_args 153 1 p
      else if op = 2 then with_args 2 3 p
      else if op = 3 then with_args 3 0 p
      else if op = 16 then with_args 16 2 p
      else if op = 69 then with_args (opcode_no BEAM_OP_GET_LIST) 3 p
      else if op = 78 then with_args (opcode_no BEAM_OP_SELECT_VAL) 3 p
      else if op = 62 then with_args (opcode_no BEAM_OP_CATCH) 2 p
      else if op = 63 then with_args (opcode_no BEAM_OP_TRY_END) 1 p
      else if op = 104 then with_args (opcode_no BEAM_OP_TRY) 2 p
      else if op = 105 then with_args (opcode_no BEAM_OP_TRY_END) 1 p
      else if op = 106 then with_args (opcode_no BEAM_OP_TRY_CASE) 1 p
      else if op = 107 then with_args (opcode_no BEAM_OP_TRY_CASE_END) 1 p
      else if op = 108 then with_args (opcode_no BEAM_OP_RAISE) 2 p
      else if op = 161 then with_args (opcode_no BEAM_OP_RAISE) 0 p
      else skip_args (beam_opcode_arities ! unat op) p)"

subsection \<open>The loop\<close>

lemma read_val_length: "length (snd (read_val n v p)) \<le> length p"
  by (induction n v p rule: read_val.induct) auto

lemma decode_arg_length: "length (snd (decode_arg p)) \<le> length p"
proof (induction p rule: decode_arg.induct)
  case (2 b p)
  consider (one) "b AND 0x08 = 0" | (two) "b AND 0x08 \<noteq> 0" "b AND 0x10 = 0" | (more) "b AND 0x08 \<noteq> 0" "b AND 0x10 \<noteq> 0"
    by blast
  then show ?case
  proof cases
    case one
    then show ?thesis by simp
  next
    case two
    then show ?thesis by (cases p) simp_all
  next
    case more
    obtain len q where lq: "(if drop_bit 5 b < 7 then (ucast (drop_bit 5 b) + 2, p)
        else (case decode_arg p of (t, r) \<Rightarrow> (ucast (eterm_to_small_int t) :: u32, r))) = (len, q)"
      by (metis surj_pair)
    have "length q \<le> length p"
      using lq 2 more by (cases "drop_bit 5 b < 7"; cases "decode_arg p") auto
    then show ?thesis
      using more lq read_val_length [of "if len > 1024 then 1024 else unat len" 0 q]
      by (simp only: decode_arg.simps if_False Let_def prod.case)
        (simp add: case_prod_beta le_SucI order_trans)
  qed
qed simp

lemma decode_args_length: "length (snd (decode_args n p)) \<le> length p"
proof (induction n arbitrary: p)
  case (Suc n)
  have "snd (decode_args (Suc n) p) = snd (decode_args n (snd (decode_arg p)))"
    by (simp add: Let_def split: prod.split)
  then show ?case using Suc.IH [of "snd (decode_arg p)"] decode_arg_length [of p] by simp
qed simp

lemma instr_args_length: "length (snd (with_args oc n p)) \<le> length p" "length (snd (skip_args n p)) \<le> length p"
  using decode_args_length [of n p] by (simp_all add: with_args_def skip_args_def case_prod_beta)

lemma decode_instruction_length: "length (snd (decode_instruction op p)) \<le> length p"
  by (simp add: decode_instruction_def instr_args_length del: One_nat_def)

function decode_loop :: "nat \<Rightarrow> u8 list \<Rightarrow> beam_instruction list" where
  "decode_loop n [] = []"
| "decode_loop n (op # p) =
     (if n > 100000 then []
      else (case decode_instruction op p of (ins, q) \<Rightarrow> ins # decode_loop (n + 1) q))"
  by pat_completeness auto
termination
  by (relation "measure (length \<circ> snd)")
    (use decode_instruction_length in \<open>auto simp: less_Suc_eq_le dest!: sym [of "(_, _)"] dest: order_trans\<close>, metis snd_conv)

definition beam_decode_code_chunk ::
    "u8 list option \<Rightarrow> size_t \<Rightarrow> bool \<Rightarrow> beam_allocator_i option \<Rightarrow> 'a code_machine_scheme \<Rightarrow>
     (ptr \<times> size_t option \<times> 'a code_machine_scheme) option" where
  "beam_decode_code_chunk chunk chunk_len out_count al m =
     (if chunk = None \<or> chunk_len < 20 \<or> al = None \<or> \<not> out_count then Some (0, None, m)
      else do {
        sub_size \<leftarrow> read_u32_be (the chunk);
        start \<leftarrow> buf_ptr (the chunk) (ucast (4 + sub_size));
        if unat chunk_len > length (the chunk) then None
        else do {
          let p = drop (unat (4 + sub_size)) (take (unat chunk_len) (the chunk));
          (instrs, m1) \<leftarrow> call_alloc (the al) (sizeof_beam_instruction * chunk_len) m;
          if instrs = 0 then Some (0, None, m1)
          else do {
            let is = decode_loop 0 p;
            if 48 * length is > unat (sizeof_beam_instruction * chunk_len) then None
            else Some (instrs, Some (of_nat (length is)),
                       m1\<lparr>instr_arrays := (instr_arrays m1)(instrs \<mapsto> is)\<rparr>)
          }
        }
      })"

lemmas decode_defs =
  sizeof_beam_instruction_def tag_val_def opcode_no_def mk_instr_def with_args_def skip_args_def
  beam_opcode_arities_def decode_instruction_def beam_decode_code_chunk_def

lemmas [beam_defs] = decode_defs

end
