(* ===== verification/Keyed_Store.thy ===== *)
theory Keyed_Store
  imports Beam_Prelude
begin

text \<open>
  What the tables of the system promise to their clients: an entry put under a key is what a lookup of
  the key sees, and lookups of other keys do not notice it. The tables differ in what happens to an
  entry that is already there (\<open>join\<close>), in what a lookup returns (\<open>view\<close>) and in which keys they can
  hold (\<open>key_ok\<close>). A put that reports an error changes nothing.
\<close>

locale keyed_store =
  fixes rep :: "'m \<Rightarrow> ('k \<rightharpoonup> 'v) \<Rightarrow> bool"
    and key_ok :: "'k \<Rightarrow> bool"
    and put :: "'k \<Rightarrow> 'v \<Rightarrow> 'm \<Rightarrow> (beam_result \<times> 'm) option"
    and get :: "'k \<Rightarrow> 'm \<Rightarrow> 'r option"
    and join :: "'v option \<Rightarrow> 'v \<Rightarrow> 'v"
    and view :: "'v option \<Rightarrow> 'r"
  assumes put_run: "rep m f \<Longrightarrow> key_ok k \<Longrightarrow>
      \<exists>r m'. put k v m = Some (r, m') \<and> rep m' (if r = BEAM_OK then f(k \<mapsto> join (f k) v) else f)"
    and get_run: "rep m f \<Longrightarrow> key_ok k \<Longrightarrow> get k m = Some (view (f k))"
begin

primrec put_all :: "('k \<times> 'v) list \<Rightarrow> 'm \<Rightarrow> (beam_result list \<times> 'm) option" where
  "put_all [] m = Some ([], m)"
| "put_all (kv # kvs) m = do {
     (r, m1) \<leftarrow> put (fst kv) (snd kv) m;
     (rs, m2) \<leftarrow> put_all kvs m1;
     Some (r # rs, m2)
   }"

primrec accepted :: "('k \<times> 'v) list \<Rightarrow> beam_result list \<Rightarrow> ('k \<rightharpoonup> 'v) \<Rightarrow> ('k \<rightharpoonup> 'v)" where
  "accepted [] rs f = f"
| "accepted (kv # kvs) rs f =
     accepted kvs (tl rs) (if hd rs = BEAM_OK then f(fst kv \<mapsto> join (f (fst kv)) (snd kv)) else f)"

lemma put_all_run:
  assumes "rep m f" "\<forall>kv \<in> set kvs. key_ok (fst kv)"
  shows "\<exists>rs m'. put_all kvs m = Some (rs, m') \<and> length rs = length kvs \<and> rep m' (accepted kvs rs f)"
  using assms
proof (induction kvs arbitrary: m f)
  case Nil
  then show ?case by simp
next
  case (Cons kv kvs)
  obtain r m1 where m1: "put (fst kv) (snd kv) m = Some (r, m1)"
    "rep m1 (if r = BEAM_OK then f(fst kv \<mapsto> join (f (fst kv)) (snd kv)) else f)"
    using put_run [OF Cons.prems(1)] Cons.prems(2) by fastforce
  moreover from Cons.IH [OF m1(2)] Cons.prems(2) obtain rs m2 where
    "put_all kvs m1 = Some (rs, m2)" "length rs = length kvs"
    "rep m2 (accepted kvs rs (if r = BEAM_OK then f(fst kv \<mapsto> join (f (fst kv)) (snd kv)) else f))"
    by auto
  ultimately show ?case by simp
qed

lemma accepted_other: "k \<notin> fst ` set kvs \<Longrightarrow> accepted kvs rs f k = f k"
  by (induction kvs arbitrary: rs f) auto

text \<open>Lookups after a sequence of puts see the accepted ones, and other keys are as before.\<close>

lemma get_put_all:
  assumes "rep m f" "\<forall>kv \<in> set kvs. key_ok (fst kv)" "key_ok k"
  shows "\<exists>rs m'. put_all kvs m = Some (rs, m') \<and> get k m' = Some (view (accepted kvs rs f k)) \<and>
    (k \<notin> fst ` set kvs \<longrightarrow> get k m' = get k m)"
proof -
  obtain rs m' where m': "put_all kvs m = Some (rs, m')" "rep m' (accepted kvs rs f)"
    using put_all_run [OF assms(1,2)] by blast
  moreover have "get k m' = Some (view (accepted kvs rs f k))" using m'(2) assms(3) by (rule get_run)
  ultimately show ?thesis using get_run [OF assms(1,3)] accepted_other by auto
qed

end

end
