(* ===== verification/Ets_Refinement.thy ===== *)
theory Ets_Refinement
  imports Beam_Ets Keyed_Store
begin

text \<open>
  An ETS table implements a table of value lists: \<open>ets_abs t ty m V n\<close> says that table \<open>t\<close> of type \<open>ty\<close>
  holds the values \<open>V k\<close> under each key, in the order a lookup meets them, and \<open>n\<close> entries in all.
  Sets are maps in the sense of the interface \<open>keyed_store\<close>.
\<close>

subsection \<open>Representation\<close>

definition elinks :: "(ptr \<rightharpoonup> ets_entry) \<Rightarrow> ptr \<rightharpoonup> ptr" where
  "elinks S = (\<lambda>a. map_option ets_next (S a))"

definition ets_index :: "eterm \<Rightarrow> nat" where
  "ets_index key = unat (hash_eterm key) mod 64"

definition ekey :: "(ptr \<rightharpoonup> ets_entry) \<Rightarrow> ptr \<Rightarrow> eterm" where
  "ekey S a = ets_key (the (S a))"

definition in_buckets :: "(ptr \<rightharpoonup> ets_entry) \<Rightarrow> (nat \<Rightarrow> ptr list) \<Rightarrow> bool" where
  "in_buckets S B \<longleftrightarrow> (\<forall>i < 64. \<forall>a \<in> set (B i). ets_index (ekey S a) = i)"

definition entry_total :: "(nat \<Rightarrow> ptr list) \<Rightarrow> nat" where
  "entry_total B = (\<Sum>i < 64. length (B i))"

definition ets_rep :: "'a ets_machine_scheme \<Rightarrow> ptr \<Rightarrow> beam_ets_table \<Rightarrow> (nat \<Rightarrow> ptr list) \<Rightarrow> bool" where
  "ets_rep m t tb B \<longleftrightarrow> t \<noteq> 0 \<and> ets_tables m t = Some tb \<and> alloc_env (ets_alloc tb) m \<and>
     ets_bucket_count tb = 64 \<and> array_at m (ets_buckets tb) 64 \<and>
     buckets_rep (words m) (elinks (ets_entries m)) (ets_buckets tb) 64 B \<and>
     in_buckets (ets_entries m) B \<and> ets_item_count tb = of_nat (entry_total B) \<and>
     dom (ets_entries m) \<subseteq> fst ` set (live m) \<and> ets_buckets tb \<notin> dom (ets_entries m) \<and>
     t \<in> fst ` set (live m) \<and> t \<notin> dom (ets_entries m) \<and> t \<noteq> ets_buckets tb"

text \<open>The values under a key, in the order a lookup meets them.\<close>

definition ets_vals :: "(ptr \<rightharpoonup> ets_entry) \<Rightarrow> (nat \<Rightarrow> ptr list) \<Rightarrow> eterm \<Rightarrow> eterm list" where
  "ets_vals S B k = map (\<lambda>a. ets_value (the (S a))) (filter (\<lambda>a. ekey S a = k) (B (ets_index k)))"

definition ets_abs :: "ptr \<Rightarrow> beam_ets_type \<Rightarrow> 'a ets_machine_scheme \<Rightarrow> (eterm \<Rightarrow> eterm list) \<Rightarrow> nat \<Rightarrow> bool" where
  "ets_abs t ty m V n \<longleftrightarrow> (\<exists>tb B. ets_rep m t tb B \<and> ets_type tb = ty \<and> V = ets_vals (ets_entries m) B \<and>
     n = entry_total B)"

lemma ets_repD:
  assumes "ets_rep m t tb B"
  shows "t \<noteq> 0" "ets_tables m t = Some tb" "alloc_env (ets_alloc tb) m" "ets_bucket_count tb = 64"
    "array_at m (ets_buckets tb) 64" "buckets_rep (words m) (elinks (ets_entries m)) (ets_buckets tb) 64 B"
    "in_buckets (ets_entries m) B" "ets_item_count tb = of_nat (entry_total B)"
    "dom (ets_entries m) \<subseteq> fst ` set (live m)" "ets_buckets tb \<notin> dom (ets_entries m)"
    "t \<in> fst ` set (live m)" "t \<notin> dom (ets_entries m)" "t \<noteq> ets_buckets tb"
  using assms unfolding ets_rep_def by blast+

lemma ets_index_less [simp]: "ets_index k < 64"
  by (simp add: ets_index_def)

lemma ets_bucket_addr:
  assumes "ets_bucket_count tb = 64"
  shows "ets_bucket tb k = Some (elem_addr (ets_buckets tb) (ets_index k))"
proof -
  have "unat (hash_eterm k) < 2 ^ 64" by (rule order_less_trans [OF unsigned_less]) simp
  then have "unat (ucast (hash_eterm k) mod 64 :: 64 word) = ets_index k"
    by (simp add: unat_mod_distrib ets_index_def unsigned_ucast_eq take_bit_nat_eq_self)
  then have "ucast (hash_eterm k) mod 64 = (of_nat (ets_index k) :: 64 word)"
    by (metis of_nat_unat ucast_id)
  then show ?thesis using assms by (simp add: ets_bucket_def elem_addr_def)
qed

lemma ets_head:
  assumes "ets_rep m t tb B"
  shows "rd m (elem_addr (ets_buckets tb) (ets_index k)) = Some (words m (elem_addr (ets_buckets tb) (ets_index k)))"
    "chain (elinks (ets_entries m)) (words m (elem_addr (ets_buckets tb) (ets_index k))) (B (ets_index k)) 0"
  using array_accessible [OF _ ets_repD(5) [OF assms], of "ets_index k"] ets_repD(3) [OF assms]
    buckets_repD [OF ets_repD(6) [OF assms], of "ets_index k"] by simp_all

lemma bucket_entries:
  assumes "ets_rep m t tb B" "i < 64"
  shows "set (B i) \<subseteq> dom (ets_entries m)" "0 \<notin> set (B i)" "distinct (B i)"
proof -
  note c = buckets_repD [OF ets_repD(6) [OF assms(1)] assms(2)]
  show "set (B i) \<subseteq> dom (ets_entries m)" using chain_dom [OF c] by (auto simp: elinks_def)
  show "0 \<notin> set (B i)" using chain_nonnull [OF c] by blast
  show "distinct (B i)" using c by (rule chain_distinct)
qed

lemma bucket_unique: "in_buckets S B \<Longrightarrow> i < 64 \<Longrightarrow> j < 64 \<Longrightarrow> a \<in> set (B i) \<Longrightarrow> a \<in> set (B j) \<Longrightarrow> i = j"
  unfolding in_buckets_def by metis

subsection \<open>The walk along a bucket\<close>

definition found_in :: "(ptr \<Rightarrow> bool) \<Rightarrow> ptr list \<Rightarrow> ptr" where
  "found_in P as = (case find P as of None \<Rightarrow> 0 | Some a \<Rightarrow> a)"

lemma ets_find_run:
  assumes "chain (elinks (ets_entries m)) p as 0"
  shows "ets_find P p m = Some (found_in (\<lambda>a. P (the (ets_entries m a))) as)"
  using assms
proof (induction as arbitrary: p)
  case Nil
  then show ?case by (simp add: ets_find.simps found_in_def)
next
  case (Cons a as)
  then obtain e where "ets_entries m a = Some e" "chain (elinks (ets_entries m)) (ets_next e) as 0"
    by (auto simp: elinks_def)
  with Cons show ?case by (simp add: ets_find.simps found_in_def)
qed

lemma found_in_cases:
  assumes "0 \<notin> set as"
  obtains (none) "found_in P as = 0" "filter P as = []"
  | (some) xs a ys where "found_in P as = a" "a \<noteq> 0" "as = xs @ a # ys" "P a" "filter P xs = []"
proof (cases "find P as")
  case None
  then have "found_in P as = 0" "filter P as = []"
    by (simp add: found_in_def) (use None in \<open>auto simp: find_None_iff filter_empty_conv\<close>)
  then show ?thesis by (rule none)
next
  case (Some a)
  have "a \<in> set as" "P a" using Some by (auto simp: find_Some_iff)
  obtain i where i: "i < length as" "P (as ! i)" "a = as ! i" "\<forall>j < i. \<not> P (as ! j)"
    using Some by (auto simp: find_Some_iff)
  have "as = take i as @ a # drop (Suc i) as" using i by (simp add: id_take_nth_drop)
  moreover have "filter P (take i as) = []" using i by (auto simp: filter_empty_conv in_set_conv_nth)
  ultimately show ?thesis
    using Some \<open>a \<in> set as\<close> \<open>P a\<close> assms by (intro some [of a "take i as" "drop (Suc i) as"]) (auto simp: found_in_def)
qed

subsection \<open>Changing one bucket\<close>

lemma entry_total_upd:
  assumes "i < 64"
  shows "entry_total (B(i := as)) + length (B i) = entry_total B + length as"
proof -
  have "entry_total (B(i := as)) = length as + (\<Sum>j \<in> {..<64} - {i}. length (B j))"
    using assms by (simp add: entry_total_def sum.remove [of _ i])
  moreover have "entry_total B = length (B i) + (\<Sum>j \<in> {..<64} - {i}. length (B j))"
    using assms by (simp add: entry_total_def sum.remove [of _ i])
  ultimately show ?thesis by simp
qed

lemma ets_rep_upd:
  assumes rep: "ets_rep m t tb B" and i: "i < 64"
    and env: "alloc_env (ets_alloc tb) m'" and tb': "ets_tables m' t = Some (tb\<lparr>ets_item_count := c\<rparr>)"
    and arr: "array_at m' (ets_buckets tb) 64"
    and bk: "buckets_rep (words m') (elinks (ets_entries m')) (ets_buckets tb) 64 (B(i := as))"
    and key: "\<And>a. a \<in> set as \<Longrightarrow> ets_index (ekey (ets_entries m') a) = i"
    and same: "\<And>j a. j < 64 \<Longrightarrow> j \<noteq> i \<Longrightarrow> a \<in> set (B j) \<Longrightarrow> ets_entries m' a = ets_entries m a"
    and c: "c + of_nat (length (B i)) = ets_item_count tb + of_nat (length as)"
    and dom: "dom (ets_entries m') \<subseteq> fst ` set (live m')" "ets_buckets tb \<notin> dom (ets_entries m')"
      "t \<in> fst ` set (live m')" "t \<notin> dom (ets_entries m')"
  shows "ets_rep m' t (tb\<lparr>ets_item_count := c\<rparr>) (B(i := as)) \<and>
    (\<forall>k. ets_index k \<noteq> i \<longrightarrow> ets_vals (ets_entries m') (B(i := as)) k = ets_vals (ets_entries m) B k)"
proof (intro conjI allI impI)
  note D = ets_repD [OF rep]
  have "in_buckets (ets_entries m') (B(i := as))"
    using D(7) key same by (auto simp: in_buckets_def ekey_def)
  moreover have "c = of_nat (entry_total (B(i := as)))"
  proof -
    have "of_nat (entry_total (B(i := as))) + of_nat (length (B i)) =
        (of_nat (entry_total B) + of_nat (length as) :: size_t)"
      using entry_total_upd [OF i, of B as] by (metis of_nat_add)
    also have "\<dots> = c + of_nat (length (B i))" using c D(8) by simp
    finally show ?thesis by simp
  qed
  ultimately show "ets_rep m' t (tb\<lparr>ets_item_count := c\<rparr>) (B(i := as))"
    unfolding ets_rep_def using D(1,4,13) env tb' arr bk dom by simp
next
  fix k assume "ets_index k \<noteq> i"
  then show "ets_vals (ets_entries m') (B(i := as)) k = ets_vals (ets_entries m) B k"
    using same [OF ets_index_less] by (auto simp: ets_vals_def ekey_def cong: filter_cong)
qed


lemma vals_change:
  assumes "\<And>k. ets_index k \<noteq> i \<Longrightarrow> V' k = V k" "\<And>k. ets_index k = i \<Longrightarrow> V' k = (if k = key then vs else V k)"
    "ets_index key = i"
  shows "V' = V(key := vs)"
proof
  fix k show "V' k = (V(key := vs)) k" using assms by (cases "ets_index k = i") auto
qed

text \<open>A new value in an entry.\<close>

lemma elinks_value: "S a = Some e \<Longrightarrow> elinks (S(a \<mapsto> e\<lparr>ets_value := v\<rparr>)) = elinks S"
  by (auto simp: elinks_def)

lemma ets_set_value:
  assumes rep: "ets_rep m t tb B" and B: "B (ets_index key) = xs @ a # ys" and e: "ets_entries m a = Some e"
    and key: "ets_key e = key" and first: "filter (\<lambda>b. ekey (ets_entries m) b = key) xs = []"
  shows "ets_rep (put_entry a (e\<lparr>ets_value := v\<rparr>) m) t tb B"
    "ets_vals ((ets_entries m)(a \<mapsto> e\<lparr>ets_value := v\<rparr>)) B =
      (ets_vals (ets_entries m) B)(key := v # tl (ets_vals (ets_entries m) B key))"
    "ets_vals (ets_entries m) B key = ets_value e # tl (ets_vals (ets_entries m) B key)"
proof -
  let ?S = "(ets_entries m)(a \<mapsto> e\<lparr>ets_value := v\<rparr>)" and ?m = "put_entry a (e\<lparr>ets_value := v\<rparr>) m"
  note D = ets_repD [OF rep]
  have ek: "ekey ?S = ekey (ets_entries m)" using e by (auto simp: ekey_def fun_eq_iff)
  have dom: "dom ?S = dom (ets_entries m)" using e by auto
  have "machine_ok ?m = machine_ok m" by (rule machine_ok_cong) (simp_all add: put_entry_def)
  moreover have "vt_ok (ets_alloc tb) ?m = vt_ok (ets_alloc tb) m" by (rule vt_ok_cong) (simp_all add: put_entry_def)
  ultimately show "ets_rep ?m t tb B"
    using D dom elinks_value [of "ets_entries m" a e, OF e] ek by (simp add: ets_rep_def put_entry_def array_at_def in_buckets_def)
  have dist: "a \<notin> set xs" "a \<notin> set ys" using bucket_entries(3) [OF rep ets_index_less, of key] B by auto
  show "ets_vals (ets_entries m) B key = ets_value e # tl (ets_vals (ets_entries m) B key)"
    using B e key first by (simp add: ets_vals_def ekey_def)
  show "ets_vals ?S B = (ets_vals (ets_entries m) B)(key := v # tl (ets_vals (ets_entries m) B key))"
  proof
    fix k
    show "ets_vals ?S B k = ((ets_vals (ets_entries m) B)(key := v # tl (ets_vals (ets_entries m) B key))) k"
    proof (cases "k = key")
      case True
      have "map (\<lambda>b. ets_value (the (?S b))) (filter P ys) = map (\<lambda>b. ets_value (the (ets_entries m b))) (filter P ys)" for P
        using dist by (intro map_cong) auto
      with True B e key first show ?thesis by (simp add: ets_vals_def ek) (simp add: ekey_def)
    next
      case False
      have "map (\<lambda>b. ets_value (the (?S b))) (filter (\<lambda>b. ekey (ets_entries m) b = k) as) =
          map (\<lambda>b. ets_value (the (ets_entries m b))) (filter (\<lambda>b. ekey (ets_entries m) b = k) as)" for as
        using False e key by (intro map_cong) (auto simp: ekey_def)
      then have "ets_vals ?S B k = ets_vals (ets_entries m) B k" by (simp only: ets_vals_def ek)
      then show ?thesis using False by simp
    qed
  qed
qed


text \<open>A new entry at the head of its bucket.\<close>

lemma ets_sizes [simp]: "good_size sizeof_ets_entry" "good_size sizeof_beam_ets_table" "good_size (8 * ETS_DEFAULT_BUCKETS)"
  by (simp_all add: good_size_def sizeof_ets_entry_def sizeof_beam_ets_table_def ETS_DEFAULT_BUCKETS_def)

lemma ets_frame: "machine.more m' = machine.more m \<Longrightarrow>
    ets_entries m' = ets_entries m \<and> ets_tables m' = ets_tables m \<and> ets_machine.more m' = ets_machine.more m"
  by (cases m; cases m') simp

lemma ets_rep_env:
  assumes rep: "ets_rep m t tb B" and "alloc_env (ets_alloc tb) m'" "words m' = words m" "machine.more m' = machine.more m"
    "set (live m) \<subseteq> set (live m')"
  shows "ets_rep m' t tb B"
proof -
  have "fst ` set (live m) \<subseteq> fst ` set (live m')" using assms(5) by (rule image_mono)
  then have "dom (ets_entries m) \<subseteq> fst ` set (live m')" "t \<in> fst ` set (live m')"
    using ets_repD(9,11) [OF rep] by blast+
  then show ?thesis
    using ets_repD(1,2,4,6,7,8,10,12,13) [OF rep] assms(2,3) ets_frame [OF assms(4)]
      array_at_mono [OF ets_repD(5) [OF rep] assms(5)]
    by (simp add: ets_rep_def)
qed

lemma ets_push:
  assumes rep: "ets_rep m t tb B" and call: "call_alloc (ets_alloc tb) sizeof_ets_entry m = Some (a, m1)" "a \<noteq> 0"
    and i: "i = ets_index key" and slot: "slot = elem_addr (ets_buckets tb) i"
  shows "\<exists>m'. wr slot a (put_entry a \<lparr>ets_key = key, ets_value = v, ets_next = words m slot\<rparr> m1) = Some m' \<and>
    ets_rep (put_ets t (tb\<lparr>ets_item_count := ets_item_count tb + 1\<rparr>) m') t (tb\<lparr>ets_item_count := ets_item_count tb + 1\<rparr>)
      (B(i := a # B i)) \<and>
    ets_vals (ets_entries m') (B(i := a # B i)) = (ets_vals (ets_entries m) B)(key := v # ets_vals (ets_entries m) B key)"
proof -
  note D = ets_repD [OF rep]
  let ?e = "\<lparr>ets_key = key, ets_value = v, ets_next = words m slot\<rparr>"
  let ?S = "(ets_entries m)(a \<mapsto> ?e)" and ?tb = "tb\<lparr>ets_item_count := ets_item_count tb + 1\<rparr>"
  let ?m = "(put_entry a ?e m1)\<lparr>words := (words m)(slot := a)\<rparr>"
  note F = call_alloc_frame [OF call(1)]
  note E = ets_frame [OF F(2)]
  have i64: "i < 64" by (simp add: i)
  have ok: "machine_ok m" using D(3) by simp
  have live: "live m1 = (a, ALIGN sizeof_ets_entry) # live m" using vt.alloc_objs [OF D(3) ets_sizes(1) call] by simp
  have fresh: "a \<notin> fst ` set (live m)" using vt.alloc_fresh(1) [OF D(3) ets_sizes(1) call] .
  then have a_new: "a \<notin> dom (ets_entries m)" using D(9) by blast
  then have a_B: "a \<notin> set (B j)" if "j < 64" for j using bucket_entries(1) [OF rep that] by blast
  have "accessible m slot" unfolding slot using array_accessible [OF ok D(5) i64] .
  then have "accessible m1 slot" by (auto simp: accessible_def live)
  then have wr: "wr slot a (put_entry a ?e m1) = Some ?m"
    using F(1) by (simp add: wr_def put_entry_def accessible_def)
  have env1: "alloc_env (ets_alloc tb) m1" using vt.alloc_ok [OF D(3) ets_sizes(1) call(1)] .
  let ?m' = "put_ets t ?tb ?m"
  have "machine_ok ?m' = machine_ok m1" by (rule machine_ok_cong) (simp_all add: put_ets_def put_entry_def)
  moreover have "vt_ok (ets_alloc tb) ?m' = vt_ok (ets_alloc tb) m1"
    by (rule vt_ok_cong) (simp_all add: put_ets_def put_entry_def)
  ultimately have env: "alloc_env (ets_alloc tb) ?m'" using env1 by simp
  have S: "ets_entries ?m' = ?S" "words ?m' = (words m)(slot := a)" "live ?m' = live m1"
    using E by (simp_all add: put_ets_def put_entry_def)
  have links: "elinks ?S = (elinks (ets_entries m))(a \<mapsto> words m slot)" by (auto simp: elinks_def)
  have key_new: "ekey ?S b = ekey (ets_entries m) b" if "b \<noteq> a" for b using that by (simp add: ekey_def)
  have key_a: "ekey ?S a = key" by (simp add: ekey_def)
  have upd: "ets_rep ?m' t ?tb (B(i := a # B i)) \<and>
    (\<forall>k. ets_index k \<noteq> i \<longrightarrow> ets_vals ?S (B(i := a # B i)) k = ets_vals (ets_entries m) B k)"
  proof (rule ets_rep_upd [OF rep i64 env, where as = "a # B i" and c = "ets_item_count tb + 1", unfolded S])
    show "buckets_rep ((words m)(slot := a)) (elinks ?S) (ets_buckets tb) 64 (B(i := a # B i))"
      unfolding links using buckets_push [OF D(6) i64 array_atD(2) [OF ok D(5)] call(2) a_B, folded slot] .
    show "array_at ?m' (ets_buckets tb) 64" using D(5) by (rule array_at_mono) (auto simp: S(3) live)
    show "ets_index (ekey ?S b) = i" if "b \<in> set (a # B i)" for b
      using that key_a key_new [of b] D(7) i i64 by (cases "b = a") (auto simp: in_buckets_def)
    show "?S b = ets_entries m b" if "j < 64" "b \<in> set (B j)" for j b using that a_B by auto
    show "dom ?S \<subseteq> fst ` set (live m1)" using D(9) by (auto simp: live)
    show "ets_buckets tb \<notin> dom ?S" using D(10) fresh array_at_base [OF D(5)] by auto
    show "t \<in> fst ` set (live m1)" using D(11) by (simp add: live)
    show "t \<notin> dom ?S" using D(11,12) fresh by auto
  qed (simp_all add: put_ets_def)
  have "ets_vals ?S (B(i := a # B i)) = (ets_vals (ets_entries m) B)(key := v # ets_vals (ets_entries m) B key)"
  proof (rule vals_change [where i = i])
    fix k assume k: "ets_index k = i"
    have f: "filter (\<lambda>b. ekey ?S b = k) (B i) = filter (\<lambda>b. ekey (ets_entries m) b = k) (B i)" for k
      using a_B [OF i64] by (intro filter_cong) (auto simp: ekey_def)
    have "map (\<lambda>b. ets_value (the (?S b))) (filter P (B i)) = map (\<lambda>b. ets_value (the (ets_entries m b))) (filter P (B i))" for P
      using a_B [OF i64] by (intro map_cong) auto
    then show "ets_vals ?S (B(i := a # B i)) k = (if k = key then v # ets_vals (ets_entries m) B key else ets_vals (ets_entries m) B k)"
      using k i [symmetric] by (simp add: ets_vals_def f key_a del: map_eq_conv)
  qed (use upd i in auto)
  then show ?thesis using wr upd E by (auto simp: put_entry_def)
qed




subsection \<open>Operations\<close>

lemma ets_absE:
  assumes "ets_abs t ty m V n"
  obtains tb B where "ets_rep m t tb B" "ets_type tb = ty" "V = ets_vals (ets_entries m) B" "n = entry_total B"
  using assms by (auto simp: ets_abs_def)

lemma ets_absI: "ets_rep m t tb B \<Longrightarrow> V = ets_vals (ets_entries m) B \<Longrightarrow> ets_abs t (ets_type tb) m V (entry_total B)"
  by (auto simp: ets_abs_def)

text \<open>The first entry of a key, in terms of the values.\<close>

lemma ets_find_key:
  fixes k :: eterm
  assumes rep: "ets_rep m t tb B"
  defines "h \<equiv> words m (elem_addr (ets_buckets tb) (ets_index k))"
  obtains (none) "ets_find (\<lambda>e. ets_key e = k) h m = Some 0" "ets_vals (ets_entries m) B k = []"
  | (some) xs a ys e where "ets_find (\<lambda>e. ets_key e = k) h m = Some a" "a \<noteq> 0" "B (ets_index k) = xs @ a # ys"
      "ets_entries m a = Some e" "ets_key e = k" "filter (\<lambda>b. ekey (ets_entries m) b = k) xs = []"
proof -
  have run: "ets_find (\<lambda>e. ets_key e = k) h m = Some (found_in (\<lambda>a. ekey (ets_entries m) a = k) (B (ets_index k)))"
    unfolding h_def ekey_def using ets_head(2) [OF rep] by (rule ets_find_run)
  have nz: "0 \<notin> set (B (ets_index k))" using bucket_entries(2) [OF rep ets_index_less] .
  then show thesis
  proof (cases rule: found_in_cases [where P = "\<lambda>a. ekey (ets_entries m) a = k"])
    case none
    then show thesis using run by (intro that(1)) (simp_all add: ets_vals_def)
  next
    case (some xs a ys)
    moreover from this obtain e where "ets_entries m a = Some e" using bucket_entries(1) [OF rep ets_index_less, of k] by auto
    ultimately show thesis using run by (intro that(2) [of a xs ys e]) (auto simp: ekey_def)
  qed
qed

lemma ets_lookup_run:
  assumes "ets_abs t ty m V n"
  shows "beam_ets_lookup t k True m =
    Some (case V k of [] \<Rightarrow> (BEAM_ERR_NOT_FOUND, None) | v # _ \<Rightarrow> (BEAM_OK, Some v))"
  using assms
proof (rule ets_absE)
  fix tb B assume rep: "ets_rep m t tb B" and V: "V = ets_vals (ets_entries m) B"
  note D = ets_repD [OF rep] and H = ets_head [OF rep] and A = ets_bucket_addr [OF ets_repD(4) [OF rep]]
  from rep show ?thesis
  proof (cases rule: ets_find_key [where k = k])
    case none
    then show ?thesis using D(1,2) A H V by (simp add: beam_ets_lookup_def rd_def)
  next
    case (some xs a ys e)
    note set_value = ets_set_value(3) [OF rep some(3,4,5,6)]
    show ?thesis using some(1,2,4) D(1,2) A H set_value V by (cases "V k") (auto simp: beam_ets_lookup_def rd_def)
  qed
qed

text \<open>The abstract effect of an insertion.\<close>

definition ets_added :: "beam_ets_type \<Rightarrow> eterm \<Rightarrow> eterm list \<Rightarrow> eterm list" where
  "ets_added ty v vs =
     (case ty of
        BEAM_ETS_BAG \<Rightarrow> if v \<in> set vs then vs else v # vs
      | BEAM_ETS_DUPLICATE_BAG \<Rightarrow> v # vs
      | _ \<Rightarrow> v # tl vs)"

lemma ets_alloc_entry:
  fixes k v :: eterm
  assumes rep: "ets_rep m t tb B"
  defines "slot \<equiv> elem_addr (ets_buckets tb) (ets_index k)"
  defines "run \<equiv> do {
      (entry, m1) \<leftarrow> call_alloc (ets_alloc tb) sizeof_ets_entry m;
      if entry = 0 then Some (BEAM_ERR_NO_MEMORY, m1)
      else do {
        old \<leftarrow> rd m1 slot;
        m2 \<leftarrow> wr slot entry (put_entry entry \<lparr>ets_key = k, ets_value = v, ets_next = old\<rparr> m1);
        Some (BEAM_OK, put_ets t (tb\<lparr>ets_item_count := ets_item_count tb + 1\<rparr>) m2)
      }
    }"
  shows "\<exists>r m'. run = Some (r, m') \<and>
    (r = BEAM_OK \<and> ets_abs t (ets_type tb) m' ((ets_vals (ets_entries m) B)(k := v # ets_vals (ets_entries m) B k)) (Suc (entry_total B)) \<or>
     r = BEAM_ERR_NO_MEMORY \<and> ets_abs t (ets_type tb) m' (ets_vals (ets_entries m) B) (entry_total B))"
proof -
  note D = ets_repD [OF rep]
  obtain a m1 where call: "call_alloc (ets_alloc tb) sizeof_ets_entry m = Some (a, m1)" using vt.alloc_total [OF D(3)] by blast
  note F = call_alloc_frame [OF call]
  have sub: "set (live m) \<subseteq> set (live m1)"
    using vt.alloc_null [OF D(3) ets_sizes(1)] vt.alloc_objs [OF D(3) ets_sizes(1) call] call by (cases "a = 0") auto
  have env1: "alloc_env (ets_alloc tb) m1" using vt.alloc_ok [OF D(3) ets_sizes(1) call] .
  have rep1: "ets_rep m1 t tb B" using rep env1 F sub by (rule ets_rep_env)
  have same: "ets_entries m1 = ets_entries m" using ets_frame [OF F(2)] by simp
  show ?thesis
  proof (cases "a = 0")
    case True
    then show ?thesis using call rep1 same by (auto simp: run_def ets_abs_def)
  next
    case False
    obtain m2 where m2: "wr slot a (put_entry a \<lparr>ets_key = k, ets_value = v, ets_next = words m slot\<rparr> m1) = Some m2"
      "ets_rep (put_ets t (tb\<lparr>ets_item_count := ets_item_count tb + 1\<rparr>) m2) t (tb\<lparr>ets_item_count := ets_item_count tb + 1\<rparr>)
        (B(ets_index k := a # B (ets_index k)))"
      "ets_vals (ets_entries m2) (B(ets_index k := a # B (ets_index k))) =
        (ets_vals (ets_entries m) B)(k := v # ets_vals (ets_entries m) B k)"
      using ets_push [OF rep call False refl refl, where key = k and v = v] unfolding slot_def by blast
    have "entry_total (B(ets_index k := a # B (ets_index k))) = Suc (entry_total B)"
      using entry_total_upd [of "ets_index k" B "a # B (ets_index k)"] by simp
    with ets_absI [OF m2(2) refl] have "ets_abs t (ets_type tb) (put_ets t (tb\<lparr>ets_item_count := ets_item_count tb + 1\<rparr>) m2)
        ((ets_vals (ets_entries m) B)(k := v # ets_vals (ets_entries m) B k)) (Suc (entry_total B))"
      using m2(3) by (simp add: put_ets_def)
    moreover have "rd m1 slot = Some (words m slot)" using ets_head(1) [OF rep1] F(1) unfolding slot_def by simp
    ultimately show ?thesis using call False m2(1) by (simp add: run_def rd_def)
  qed
qed


lemma ets_insert_run:
  assumes "ets_abs t ty m V n"
  shows "\<exists>r m'. beam_ets_insert t k v m = Some (r, m') \<and>
    (r = BEAM_OK \<and> ets_abs t ty m' (V(k := ets_added ty v (V k))) (n + length (ets_added ty v (V k)) - length (V k)) \<or>
     r = BEAM_ERR_NO_MEMORY \<and> ets_abs t ty m' V n)"
  using assms
proof (rule ets_absE)
  fix tb B assume rep: "ets_rep m t tb B" and ty: "ets_type tb = ty" and V: "V = ets_vals (ets_entries m) B" and n: "n = entry_total B"
  note D = ets_repD [OF rep] and H = ets_head [OF rep] and A = ets_bucket_addr [OF ets_repD(4) [OF rep]]
  note new = ets_alloc_entry [OF rep, where k = k and v = v, folded V n, unfolded ty]
  let ?h = "words m (elem_addr (ets_buckets tb) (ets_index k))"
  consider (set) "ty = BEAM_ETS_SET \<or> ty = BEAM_ETS_ORDERED_SET" | (bag) "ty = BEAM_ETS_BAG" | (dup) "ty = BEAM_ETS_DUPLICATE_BAG"
    by (cases ty) auto
  then show ?thesis
  proof cases
    case set
    then have add: "ets_added ty v vs = v # tl vs" for vs by (auto simp: ets_added_def)
    from rep show ?thesis
    proof (cases rule: ets_find_key [where k = k])
      case none
      with new set show ?thesis using D(1,2) A H ty V by (auto simp: beam_ets_insert_def rd_def add)
    next
      case (some xs a ys e)
      note val = ets_set_value(1,2) [OF rep some(3,4,5,6), of v] ets_set_value(3) [OF rep some(3,4,5,6)]
      have "ets_abs t ty (put_entry a (e\<lparr>ets_value := v\<rparr>) m) (V(k := v # tl (V k))) n"
        using ets_absI [OF val(1) refl] val(2) V n ty by (simp add: put_entry_def)
      moreover have "length (v # tl (V k)) = length (V k)" using val(3) V by (cases "V k") auto
      ultimately show ?thesis using some(1,2,4) set D(1,2) A H ty by (auto simp: beam_ets_insert_def rd_def add)
    qed
  next
    case bag
    have run: "ets_find (\<lambda>e. ets_key e = k \<and> ets_value e = v) ?h m =
        Some (found_in (\<lambda>a. ekey (ets_entries m) a = k \<and> ets_value (the (ets_entries m a)) = v) (B (ets_index k)))"
      unfolding ekey_def using H(2) by (rule ets_find_run)
    have nz: "0 \<notin> set (B (ets_index k))" using bucket_entries(2) [OF rep ets_index_less] .
    then show ?thesis
    proof (cases rule: found_in_cases [where P = "\<lambda>a. ekey (ets_entries m) a = k \<and> ets_value (the (ets_entries m a)) = v"])
      case none
      then have "v \<notin> set (V k)" by (auto simp: V ets_vals_def filter_empty_conv)
      then have "ets_added ty v (V k) = v # V k" using bag by (simp add: ets_added_def)
      with new none run bag show ?thesis using D(1,2) A H ty by (auto simp: beam_ets_insert_def rd_def)
    next
      case (some xs a ys)
      then have "v \<in> set (V k)" by (auto simp: V ets_vals_def)
      then have "ets_added ty v (V k) = V k" using bag by (simp add: ets_added_def)
      with some run bag show ?thesis using D(1,2) A H ty assms by (auto simp: beam_ets_insert_def rd_def)
    qed
  next
    case dup
    then have "ets_added ty v (V k) = v # V k" by (simp add: ets_added_def)
    with new dup show ?thesis using D(1,2) A H ty by (auto simp: beam_ets_insert_def rd_def)
  qed
qed



lemma ets_counter_run:
  assumes "ets_abs t ty m V n"
  shows "V k = [] \<Longrightarrow> beam_ets_update_counter t k inc True m = Some (BEAM_ERR_NOT_FOUND, None, m)"
    and "V k = v # vs \<Longrightarrow> signed64 (sint (eterm_to_small_int v) + sint inc) = Some s \<Longrightarrow>
      \<exists>m'. beam_ets_update_counter t k inc True m = Some (BEAM_OK, Some (make_small_int s), m') \<and>
        ets_abs t ty m' (V(k := make_small_int s # vs)) n"
proof -
  obtain tb B where rep: "ets_rep m t tb B" and ty: "ets_type tb = ty" and V: "V = ets_vals (ets_entries m) B" and n: "n = entry_total B"
    using assms by (rule ets_absE)
  note D = ets_repD [OF rep] and H = ets_head [OF rep] and A = ets_bucket_addr [OF ets_repD(4) [OF rep]]
  show "beam_ets_update_counter t k inc True m = Some (BEAM_ERR_NOT_FOUND, None, m)" if "V k = []"
    using rep
  proof (cases rule: ets_find_key [where k = k])
    case none
    then show ?thesis using D(1,2) A H by (simp add: beam_ets_update_counter_def rd_def)
  next
    case (some xs a ys e)
    then show ?thesis using ets_set_value(3) [OF rep some(3,4,5,6)] that V by simp
  qed
  show "\<exists>m'. beam_ets_update_counter t k inc True m = Some (BEAM_OK, Some (make_small_int s), m') \<and>
      ets_abs t ty m' (V(k := make_small_int s # vs)) n"
    if "V k = v # vs" "signed64 (sint (eterm_to_small_int v) + sint inc) = Some s"
    using rep
  proof (cases rule: ets_find_key [where k = k])
    case none
    then show ?thesis using that(1) V by simp
  next
    case (some xs a ys e)
    note val = ets_set_value(1,2) [OF rep some(3,4,5,6), of "make_small_int s"] ets_set_value(3) [OF rep some(3,4,5,6)]
    have "ets_value e = v" "tl (V k) = vs" using val(3) that(1) V by simp_all
    moreover from this have "ets_abs t ty (put_entry a (e\<lparr>ets_value := make_small_int s\<rparr>) m) (V(k := make_small_int s # vs)) n"
      using ets_absI [OF val(1) refl] val(2) V n ty by (simp add: put_entry_def)
    ultimately show ?thesis
      using some(1,2,4) that(2) D(1,2) A H by (simp add: beam_ets_update_counter_def rd_def Let_def)
  qed
qed

subsection \<open>Deletion\<close>






subsection \<open>Creation and destruction\<close>

lemma ets_create_run:
  assumes env: "alloc_env vt m" and dom: "dom (ets_entries m) \<subseteq> fst ` set (live m)" and name: "name_arg name"
  shows "\<exists>t m'. beam_ets_table_create_typed name ty prot (Some vt) m = Some (t, m') \<and> machine_ok m' \<and>
    (\<forall>vt'. vt_ok vt' m' = vt_ok vt' m) \<and> ets_entries m' = ets_entries m \<and> ets_machine.more m' = ets_machine.more m \<and>
    (if t = 0 then ets_tables m' = ets_tables m \<and> (vt_free vt = FN_SYS \<longrightarrow> fst ` set (live m') = fst ` set (live m))
     else \<exists>tb. t \<notin> fst ` set (live m) \<and> ets_tables m' = (ets_tables m)(t \<mapsto> tb) \<and> ets_rep m' t tb (\<lambda>_. []) \<and>
       ets_type tb = ty \<and> ets_alloc tb = vt \<and> ets_buckets tb \<notin> fst ` set (live m) \<and>
       fst ` set (live m') = insert t (insert (ets_buckets tb) (fst ` set (live m))))"
proof -
  have arg: "alloc_arg_ok (Some vt)" using env by (blast intro: vt_ok_arg)
  obtain t m1 where c1: "call_alloc vt sizeof_beam_ets_table m = Some (t, m1)" and m1: "machine_ok m1"
    "\<forall>vt'. vt_ok vt' m1 = vt_ok vt' m" "words m1 = words m" "machine.more m1 = machine.more m" "set (live m) \<subseteq> set (live m1)"
    "t \<noteq> 0 \<longrightarrow> t \<notin> fst ` set (live m)"
    "fst ` set (live m1) = (if t = 0 then fst ` set (live m) else insert t (fst ` set (live m)))"
    using env ets_sizes(2) by (rule env_alloc)
  note E1 = ets_frame [OF m1(4)]
  show ?thesis
  proof (cases "t = 0")
    case True
    then show ?thesis using arg c1 m1 E1 by (simp add: beam_ets_table_create_typed_def)
  next
    case t: False
    have env1: "alloc_env vt m1" using env m1 by simp
    obtain b m2 where c2: "call_alloc vt (8 * ETS_DEFAULT_BUCKETS) m1 = Some (b, m2)" and m2: "machine_ok m2"
      "\<forall>vt'. vt_ok vt' m2 = vt_ok vt' m1" "words m2 = words m1" "machine.more m2 = machine.more m1" "set (live m1) \<subseteq> set (live m2)"
      "b \<noteq> 0 \<longrightarrow> b \<notin> fst ` set (live m1)"
      "fst ` set (live m2) = (if b = 0 then fst ` set (live m1) else insert b (fst ` set (live m1)))"
      using env1 ets_sizes(3) by (rule env_alloc)
    note E2 = ets_frame [OF m2(4)]
    have env2: "alloc_env vt m2" using env1 m2 by simp
    obtain nm where nm: "(case name of None \<Rightarrow> Some (replicate 32 0) | Some s \<Rightarrow> c_strncpy (replicate 32 0) s 31) = Some nm"
      using name c_strncpy_total [of _ 31 "replicate 32 0"] by (auto simp: name_arg_def split: option.splits)
    show ?thesis
    proof (cases "b = 0")
      case True
      obtain m3 where m3: "call_free vt t m2 = Some m3" "released vt {t} m2 m3" "machine.more m3 = machine.more m2"
        using released_free [OF env2, of t] m2(7) m1(7) t True by auto
      note R = releasedD [OF m3(2)] and E3 = ets_frame [OF m3(3)]
      have "vt_free vt = FN_SYS \<Longrightarrow> fst ` set (live m3) = fst ` set (live m)" using R(7) m2(7) m1(6,7) t True by auto
      then show ?thesis
        using arg c1 c2 t True nm m3(1) R(1,2) m1(2) m2(2) E1 E2 E3 by (simp add: beam_ets_table_create_typed_def)
    next
      case b: False
      have arr: "array_at m2 b 64" using alloc_array [OF env1 _ _ _ b, of 64] c2 by (simp add: ETS_DEFAULT_BUCKETS_def)
      obtain w where w: "wr_list b (replicate 64 0) m2 = Some (m2\<lparr>words := w\<rparr>)" "\<And>i. i < 64 \<Longrightarrow> w (elem_addr b i) = 0"
        using wr_list_array [OF m2(1) arr, of 0 "replicate 64 0"] by (auto simp: elem_addr_def [of b 0])
      let ?tb = "\<lparr>ets_name = nm, ets_type = ty, ets_protection = prot, ets_buckets = b,
        ets_bucket_count = ETS_DEFAULT_BUCKETS, ets_item_count = 0, ets_alloc = vt\<rparr>"
      let ?m' = "put_ets t ?tb (m2\<lparr>words := w\<rparr>)"
      have "machine_ok ?m' = machine_ok m2" by (rule machine_ok_cong) (simp_all add: put_ets_def)
      moreover have vt: "vt_ok vt' ?m' = vt_ok vt' m2" for vt' by (rule vt_ok_cong) (simp_all add: put_ets_def)
      ultimately have ok: "machine_ok ?m'" "alloc_env vt ?m'" using m2(1) env2 by simp_all
      have "ets_entries ?m' = ets_entries m" "live ?m' = live m2" "words ?m' = w" using E1 E2 by (simp_all add: put_ets_def)
      moreover from this have "array_at ?m' b 64" using arr by (simp add: array_at_def)
      moreover have "dom (ets_entries m) \<subseteq> fst ` set (live m2)" "b \<notin> dom (ets_entries m)" "t \<notin> dom (ets_entries m)" "t \<noteq> b"
        using dom m1(6,7) m2(6,7) t b by auto
      ultimately have rep: "ets_rep ?m' t ?tb (\<lambda>_. [])"
        using ok t m2(7) m1(7) b w(2)
        by (simp add: ets_rep_def buckets_rep_def in_buckets_def entry_total_def put_ets_def ETS_DEFAULT_BUCKETS_def)
      have run: "beam_ets_table_create_typed name ty prot (Some vt) m = Some (t, ?m')"
        using arg c1 c2 t b nm w(1) by (simp add: beam_ets_table_create_typed_def ETS_DEFAULT_BUCKETS_def)
      have "b \<notin> fst ` set (live m)" using m2(6) m1(7) b t by simp
      then have "\<exists>tb. t \<notin> fst ` set (live m) \<and> ets_tables ?m' = (ets_tables m)(t \<mapsto> tb) \<and> ets_rep ?m' t tb (\<lambda>_. []) \<and>
          ets_type tb = ty \<and> ets_alloc tb = vt \<and> ets_buckets tb \<notin> fst ` set (live m) \<and>
          fst ` set (live ?m') = insert t (insert (ets_buckets tb) (fst ` set (live m)))"
        using rep m1(6,7) m2(7) t b E1 E2 by (intro exI [of _ ?tb]) (simp add: put_ets_def insert_commute)
      moreover have "ets_entries ?m' = ets_entries m" "ets_machine.more ?m' = ets_machine.more m" "\<forall>vt'. vt_ok vt' ?m' = vt_ok vt' m"
        using E1 E2 m1(2) m2(2) vt by (simp_all add: put_ets_def)
      ultimately show ?thesis using run ok(1) t by (intro exI [of _ t] exI [of _ ?m']) simp
    qed
  qed
qed


lemma free_bucket_run:
  assumes "alloc_env vt m" "chain (elinks (ets_entries m)) p as 0" "set as \<subseteq> fst ` set (live m)"
  shows "\<exists>m'. free_bucket vt p m = Some m' \<and> released vt (set as) m m' \<and> ets_tables m' = ets_tables m \<and>
    ets_entries m' = ets_entries m |` (- set as) \<and> ets_machine.more m' = ets_machine.more m"
  using assms
proof (induction as arbitrary: p m)
  case Nil
  then show ?case by (simp add: free_bucket.simps released_refl)
next
  case (Cons a as)
  then obtain e where e: "ets_entries m a = Some e" "p = a" "a \<noteq> 0" "chain (elinks (ets_entries m)) (ets_next e) as 0"
    by (auto simp: elinks_def)
  have a: "a \<notin> set as" using chain_distinct [OF Cons.prems(2)] by simp
  obtain m0 where m0: "call_free vt a m = Some m0" "released vt {a} m m0" "machine.more m0 = machine.more m"
    using released_free [OF Cons.prems(1), of a] Cons.prems(3) by auto
  note E = ets_frame [OF m0(3)]
  let ?m1 = "m0\<lparr>ets_entries := (ets_entries m)(a := None)\<rparr>"
  have free: "free_entry vt a m = Some ?m1" using m0 E by (simp add: free_entry_def)
  have r1: "released vt {a} m ?m1" using m0(2) by (rule released_cong) simp_all
  note R = releasedD [OF r1]
  have env1: "alloc_env vt ?m1" using R(1,2) Cons.prems(1) by simp
  have "elinks ((ets_entries m)(a := None)) = (elinks (ets_entries m))(a := None)" by (auto simp: elinks_def)
  then have "chain (elinks (ets_entries ?m1)) (ets_next e) as 0" using e(4) a by (simp add: chain_frame)
  moreover have "set as \<subseteq> fst ` set (live ?m1)" using R(6) Cons.prems(3) a by auto
  ultimately obtain m2 where m2: "free_bucket vt (ets_next e) ?m1 = Some m2" "released vt (set as) ?m1 m2" "ets_tables m2 = ets_tables ?m1"
    "ets_entries m2 = ets_entries ?m1 |` (- set as)" "ets_machine.more m2 = ets_machine.more ?m1"
    using Cons.IH [OF env1] by blast
  have "released vt (set (a # as)) m m2" using released_trans [OF r1 m2(2)] by simp
  moreover have "ets_entries m2 = ets_entries m |` (- set (a # as))" unfolding m2(4) by (rule ext) (simp add: restrict_map_def)
  moreover have "free_bucket vt p m = Some m2" using e free m2(1) by (subst free_bucket.simps) simp
  ultimately show ?case using m2(3,5) E by simp
qed

lemma free_buckets_run:
  assumes "alloc_env vt m" "\<And>i. i \<in> set is \<Longrightarrow> chain (elinks (ets_entries m)) (words m (elem_addr bs i)) (B i) 0"
    "\<And>i. i \<in> set is \<Longrightarrow> set (B i) \<subseteq> fst ` set (live m)" "array_at m bs n" "set is \<subseteq> {..<n}" "distinct is"
    "\<And>i j. i \<in> set is \<Longrightarrow> j \<in> set is \<Longrightarrow> i \<noteq> j \<Longrightarrow> set (B i) \<inter> set (B j) = {}" "\<And>i. i \<in> set is \<Longrightarrow> bs \<notin> set (B i)"
  shows "\<exists>m'. free_buckets vt bs is m = Some m' \<and> released vt (\<Union>i \<in> set is. set (B i)) m m' \<and> ets_tables m' = ets_tables m \<and>
    ets_entries m' = ets_entries m |` (- (\<Union>i \<in> set is. set (B i))) \<and> ets_machine.more m' = ets_machine.more m"
  using assms
proof (induction "is" arbitrary: m)
  case Nil
  then show ?case by (simp add: released_refl)
next
  case (Cons i "is")
  have acc: "rd m (elem_addr bs i) = Some (words m (elem_addr bs i))"
    using array_accessible [OF _ Cons.prems(4), of i] Cons.prems(1,5) by simp
  obtain m1 where m1: "free_bucket vt (words m (elem_addr bs i)) m = Some m1" "released vt (set (B i)) m m1" "ets_tables m1 = ets_tables m"
    "ets_entries m1 = ets_entries m |` (- set (B i))" "ets_machine.more m1 = ets_machine.more m"
    using free_bucket_run [OF Cons.prems(1,2,3), of i] by auto
  note R = releasedD [OF m1(2)]
  have env1: "alloc_env vt m1" using R(1,2) Cons.prems(1) by simp
  have dis: "set (B j) \<inter> set (B i) = {}" if "j \<in> set is" for j
    using that Cons.prems(6) Cons.prems(7) [of j i] by auto
  have "\<exists>m'. free_buckets vt bs is m1 = Some m' \<and> released vt (\<Union>i \<in> set is. set (B i)) m1 m' \<and> ets_tables m' = ets_tables m1 \<and>
    ets_entries m' = ets_entries m1 |` (- (\<Union>i \<in> set is. set (B i))) \<and> ets_machine.more m' = ets_machine.more m1"
  proof (rule Cons.IH [OF env1])
    fix j assume j: "j \<in> set is"
    have "chain (elinks (ets_entries m1)) (words m (elem_addr bs j)) (B j) 0 = chain (elinks (ets_entries m)) (words m (elem_addr bs j)) (B j) 0"
      using dis [OF j] by (intro chain_cong) (auto simp: elinks_def m1(4) restrict_map_def)
    then show "chain (elinks (ets_entries m1)) (words m1 (elem_addr bs j)) (B j) 0" using Cons.prems(2) [of j] j R(3) by simp
    show "set (B j) \<subseteq> fst ` set (live m1)" using Cons.prems(3) [of j] dis [OF j] j R(6) by auto
  next
    obtain k where "(bs, k) \<in> set (live m)" "8 * n \<le> unat k" using Cons.prems(4) by (auto simp: array_at_def)
    then show "array_at m1 bs n" using R(5) [of "(bs, k)"] Cons.prems(8) [of i] by (auto simp: array_at_def)
  qed (use Cons.prems(5-8) in auto)
  then obtain m2 where m2: "free_buckets vt bs is m1 = Some m2" "released vt (\<Union>i \<in> set is. set (B i)) m1 m2" "ets_tables m2 = ets_tables m1"
    "ets_entries m2 = ets_entries m1 |` (- (\<Union>i \<in> set is. set (B i)))" "ets_machine.more m2 = ets_machine.more m1" by blast
  have "ets_entries m2 = ets_entries m |` (- (\<Union>i \<in> set (i # is). set (B i)))"
    unfolding m2(4) m1(4) by (rule ext) (simp add: restrict_map_def)
  then show ?case using acc m1 m2 released_trans [OF m1(2) m2(2)] by (simp add: rd_def)
qed

lemma ets_destroy_run:
  assumes rep: "ets_rep m t tb B"
  shows "\<exists>m'. beam_ets_table_destroy t m = Some m' \<and>
    released (ets_alloc tb) (insert t (insert (ets_buckets tb) (\<Union>i < 64. set (B i)))) m m' \<and>
    ets_tables m' = (ets_tables m)(t := None) \<and> ets_entries m' = ets_entries m |` (- (\<Union>i < 64. set (B i))) \<and>
    ets_machine.more m' = ets_machine.more m"
proof -
  note D = ets_repD [OF rep]
  let ?vt = "ets_alloc tb" and ?bs = "ets_buckets tb" and ?E = "\<Union>i \<in> set [0..<64]. set (B i)"
  have sub: "set (B i) \<subseteq> dom (ets_entries m)" if "i < 64" for i using bucket_entries(1) [OF rep that] .
  have "\<exists>m'. free_buckets ?vt ?bs [0..<64] m = Some m' \<and> released ?vt ?E m m' \<and> ets_tables m' = ets_tables m \<and>
    ets_entries m' = ets_entries m |` (- ?E) \<and> ets_machine.more m' = ets_machine.more m"
  proof (rule free_buckets_run [OF D(3)])
    show "chain (elinks (ets_entries m)) (words m (elem_addr ?bs i)) (B i) 0" if "i \<in> set [0..<64]" for i
      using buckets_repD [OF D(6)] that by simp
    show "set (B i) \<subseteq> fst ` set (live m)" "?bs \<notin> set (B i)" if "i \<in> set [0..<64]" for i
      using sub [of i] D(9,10) that by auto
    show "set (B i) \<inter> set (B j) = {}" if "i \<in> set [0..<64]" "j \<in> set [0..<64]" "i \<noteq> j" for i j
      using bucket_unique [OF D(7), of i j] that by auto
  qed (use D(5) in auto)
  then obtain m1 where m1: "free_buckets ?vt ?bs [0..<64] m = Some m1" "released ?vt ?E m m1" "ets_tables m1 = ets_tables m"
    "ets_entries m1 = ets_entries m |` (- ?E)" "ets_machine.more m1 = ets_machine.more m" by blast
  note R1 = releasedD [OF m1(2)]
  have bs0: "?bs \<noteq> 0" using array_atD(3) [OF _ D(5)] D(3) by simp
  have "?E \<subseteq> dom (ets_entries m)" using sub by (intro UN_least) simp
  then have notE: "?bs \<notin> ?E" "t \<notin> ?E" using D(10,12) by blast+
  have "?bs \<in> fst ` set (live m1)" using R1(6) array_at_base [OF D(5)] notE(1) by blast
  then obtain m2 where m2: "call_free ?vt ?bs m1 = Some m2" "released ?vt {?bs} m1 m2" "machine.more m2 = machine.more m1"
    using released_free [where vt = ?vt and m = m1 and p = ?bs] R1(1,2) D(3) by auto
  note R2 = releasedD [OF m2(2)] and E2 = ets_frame [OF m2(3)]
  have "t \<in> fst ` set (live m2)" using R1(6) R2(6) D(11,13) notE(2) by blast
  then obtain m3 where m3: "call_free ?vt t m2 = Some m3" "released ?vt {t} m2 m3" "machine.more m3 = machine.more m2"
    using released_free [where vt = ?vt and m = m2 and p = t] R1(1,2) R2(1,2) D(3) by auto
  note E3 = ets_frame [OF m3(3)]
  let ?m' = "m3\<lparr>ets_tables := (ets_tables m3)(t := None)\<rparr>"
  have "released ?vt (?E \<union> {?bs} \<union> {t}) m m3" using released_trans [OF released_trans [OF m1(2) m2(2)] m3(2)] .
  then have "released ?vt (?E \<union> {?bs} \<union> {t}) m ?m'" by (rule released_cong) simp_all
  moreover have "?E \<union> {?bs} \<union> {t} = insert t (insert ?bs (\<Union>i < 64. set (B i)))" "?E = (\<Union>i < 64. set (B i))"
    by (auto simp: atLeast0LessThan)
  moreover have "beam_ets_table_destroy t m = Some ?m'"
    using D(1,2,4) m1(1) m2(1) m3(1) bs0 by (simp add: beam_ets_table_destroy_def)
  ultimately show ?thesis using m1 E2 E3 by (intro exI [of _ ?m']) simp
qed


subsection \<open>Sets as maps\<close>

definition ets_map :: "ptr \<Rightarrow> 'a ets_machine_scheme \<Rightarrow> (eterm \<rightharpoonup> eterm) \<Rightarrow> bool" where
  "ets_map t m f \<longleftrightarrow> (\<exists>ty V n. ets_abs t ty m V n \<and> (ty = BEAM_ETS_SET \<or> ty = BEAM_ETS_ORDERED_SET) \<and>
     (\<forall>k. V k = (case f k of None \<Rightarrow> [] | Some v \<Rightarrow> [v])))"

definition ets_view :: "eterm option \<Rightarrow> beam_result \<times> eterm option" where
  "ets_view o' = (case o' of None \<Rightarrow> (BEAM_ERR_NOT_FOUND, None) | Some v \<Rightarrow> (BEAM_OK, Some v))"

interpretation ets: keyed_store "ets_map t" "\<lambda>_. True" "beam_ets_insert t" "\<lambda>k. beam_ets_lookup t k True" "\<lambda>_ v. v" ets_view
  for t
proof (unfold_locales, goal_cases)
  case (1 m f k v)
  then obtain ty V n where V: "ets_abs t ty m V n" "ty = BEAM_ETS_SET \<or> ty = BEAM_ETS_ORDERED_SET"
    "\<forall>k. V k = (case f k of None \<Rightarrow> [] | Some v \<Rightarrow> [v])" by (auto simp: ets_map_def)
  have add: "ets_added ty v (V k) = [v]" using V(2,3) by (auto simp: ets_added_def split: option.split)
  obtain r m' where run: "beam_ets_insert t k v m = Some (r, m')" and r:
    "r = BEAM_OK \<and> ets_abs t ty m' (V(k := [v])) (n + 1 - length (V k)) \<or> r = BEAM_ERR_NO_MEMORY \<and> ets_abs t ty m' V n"
    using ets_insert_run [OF V(1), of k v] unfolding add by auto
  have "ets_map t m' (if r = BEAM_OK then f(k \<mapsto> v) else f)"
  proof (cases "r = BEAM_OK")
    case True
    then have "ets_abs t ty m' (V(k := [v])) (n + 1 - length (V k))" using r by simp
    moreover have "\<forall>j. (V(k := [v])) j = (case (f(k \<mapsto> v)) j of None \<Rightarrow> [] | Some v \<Rightarrow> [v])" using V(3) by simp
    ultimately have "ets_map t m' (f(k \<mapsto> v))" using V(2) unfolding ets_map_def by blast
    then show ?thesis using True by simp
  next
    case False
    then show ?thesis using r V(2,3) unfolding ets_map_def by auto
  qed
  with run show ?case by blast
next
  case (2 m f k)
  then obtain ty V n where V: "ets_abs t ty m V n" "\<forall>k. V k = (case f k of None \<Rightarrow> [] | Some v \<Rightarrow> [v])"
    by (auto simp: ets_map_def)
  show ?case using ets_lookup_run [OF V(1), of k] V(2) by (simp add: ets_view_def split: option.split)
qed

subsection \<open>Properties\<close>

definition ets_demo :: "beam_ets_type \<Rightarrow> ets_machine" where
  "ets_demo ty = \<lparr>words = (\<lambda>_. 0), live = [(0x1000, 96), (0x2000, 512)], raw = [],
     malloc_results = [0x3000, 0x4000, 0x5000], sys_states = Map.empty, arenas = Map.empty,
     msgs = Map.empty, mboxes = Map.empty, procs = Map.empty, rq_nodes = Map.empty, run_queues = Map.empty,
     scheds = Map.empty, pools = Map.empty, wargs = Map.empty, ets_entries = Map.empty,
     ets_tables = [0x1000 \<mapsto> \<lparr>ets_name = replicate 32 0, ets_type = ty, ets_protection = BEAM_ETS_PUBLIC,
       ets_buckets = 0x2000, ets_bucket_count = 64, ets_item_count = 0, ets_alloc = sys_vt\<rparr>]\<rparr>"

lemma ets_rep_demo: "ets_rep (ets_demo ty) 0x1000 \<lparr>ets_name = replicate 32 0, ets_type = ty, ets_protection = BEAM_ETS_PUBLIC,
       ets_buckets = 0x2000, ets_bucket_count = 64, ets_item_count = 0, ets_alloc = sys_vt\<rparr> (\<lambda>_. [])"
  by (simp add: ets_rep_def ets_demo_def machine_ok_def array_at_def buckets_rep_def in_buckets_def entry_total_def
      apart_def stop_def block_ok_def aligned8_def arenas_apart_def)

lemma ets_abs_demo: "ets_abs 0x1000 ty (ets_demo ty) (\<lambda>_. []) 0"
  using ets_absI [OF ets_rep_demo [of ty] refl] by (simp add: ets_vals_def [abs_def] entry_total_def)


text \<open>
  C10: an ETS table refines a table of value lists. Inserting into a set replaces the value of the key,
  a bag adds the pair unless it is there, a duplicate bag adds it always; other keys keep their values
  and the item count follows. When no memory is left the table stays as it was.
\<close>

theorem ets_insert_refines:
  assumes "ets_abs t ty m V n"
  shows "\<exists>r m'. beam_ets_insert t k v m = Some (r, m') \<and>
    (r = BEAM_OK \<and> ets_abs t ty m' (V(k := ets_added ty v (V k))) (n + length (ets_added ty v (V k)) - length (V k)) \<or>
     r = BEAM_ERR_NO_MEMORY \<and> ets_abs t ty m' V n)"
  using assms by (rule ets_insert_run)

theorem ets_insert_refines_witness:
  "\<exists>r m'. beam_ets_insert 0x1000 7 8 (ets_demo BEAM_ETS_BAG) = Some (r, m') \<and>
    (r = BEAM_OK \<and> ets_abs 0x1000 BEAM_ETS_BAG m' ((\<lambda>_. [])(7 := [8])) 1 \<or>
     r = BEAM_ERR_NO_MEMORY \<and> ets_abs 0x1000 BEAM_ETS_BAG m' (\<lambda>_. []) 0)"
  using ets_insert_refines [OF ets_abs_demo [of BEAM_ETS_BAG], of 7 8] by (simp add: ets_added_def)



text \<open>
  C12: a set table is a map. A lookup after an accepted insertion returns the new value for its key and
  for every other key what it returned before; after a rejected one every lookup is as before.
\<close>

theorem ets_lookup_insert:
  assumes "ets_map t m f"
  shows "\<exists>r m'. beam_ets_insert t k v m = Some (r, m') \<and> (\<exists>g. ets_map t m' g) \<and>
    (\<forall>j. beam_ets_lookup t j True m' =
      (if r = BEAM_OK \<and> j = k then Some (BEAM_OK, Some v) else beam_ets_lookup t j True m))"
proof -
  obtain r m' where run: "beam_ets_insert t k v m = Some (r, m')" and f: "ets_map t m' (if r = BEAM_OK then f(k \<mapsto> v) else f)"
    using ets.put_run [OF assms TrueI] by blast
  have "beam_ets_lookup t j True m' = (if r = BEAM_OK \<and> j = k then Some (BEAM_OK, Some v) else beam_ets_lookup t j True m)" for j
    using ets.get_run [OF f TrueI, of j] ets.get_run [OF assms TrueI, of j] by (simp add: ets_view_def)
  with run f show ?thesis by blast
qed

theorem ets_lookup_insert_witness:
  "\<exists>r m'. beam_ets_insert 0x1000 7 8 (ets_demo BEAM_ETS_SET) = Some (r, m') \<and>
    beam_ets_lookup 0x1000 7 True m' = (if r = BEAM_OK then Some (BEAM_OK, Some 8) else beam_ets_lookup 0x1000 7 True (ets_demo BEAM_ETS_SET))"
proof -
  have "ets_map 0x1000 (ets_demo BEAM_ETS_SET) Map.empty"
    using ets_abs_demo [of BEAM_ETS_SET] unfolding ets_map_def by auto
  from ets_lookup_insert [OF this, of 7 8] show ?thesis by auto
qed

end
