(* ===== verification/Atom_Refinement.thy ===== *)
theory Atom_Refinement
  imports Beam_Atom Ets_Refinement
begin

text \<open>
  The atom table implements a list of distinct names: \<open>atom_abs t m names\<close> says that the atom with
  number \<open>j\<close> stands for the name \<open>names ! j\<close>. The representation ties together the hash buckets, the
  index map and the bytes of the names, for a table on the system allocator; on an arena the growth
  of the index map loses its contents.
\<close>

subsection \<open>Representation\<close>

definition alinks :: "(ptr \<rightharpoonup> beam_atom_entry) \<Rightarrow> ptr \<rightharpoonup> ptr" where
  "alinks S = (\<lambda>a. map_option ae_next (S a))"

definition atom_slot :: "beam_atom_table \<Rightarrow> u8 list \<Rightarrow> nat" where
  "atom_slot tb bs = unat (hash_atom_name bs) mod unat (at_bucket_count tb)"

definition entry_ok :: "'a atom_machine_scheme \<Rightarrow> ptr \<Rightarrow> nat \<Rightarrow> u8 list \<Rightarrow> bool" where
  "entry_ok m a j bs \<longleftrightarrow> length bs < 2 ^ 60 \<and> (\<exists>e. atom_entries m a = Some e \<and> ae_index e = of_nat j \<and>
     ae_len e = of_nat (length bs) \<and> ae_hash e = hash_atom_name bs \<and> byte_blocks m (ae_name e) = Some (bs @ [0]))"

definition atom_objs :: "'a atom_machine_scheme \<Rightarrow> ptr set" where
  "atom_objs m = dom (atom_entries m) \<union> dom (byte_blocks m)"

definition atom_rep ::
    "'a atom_machine_scheme \<Rightarrow> ptr \<Rightarrow> beam_atom_table \<Rightarrow> (nat \<Rightarrow> ptr list) \<Rightarrow> ptr list \<Rightarrow> u8 list list \<Rightarrow> bool" where
  "atom_rep m t tb B as names \<longleftrightarrow> t \<noteq> 0 \<and> atom_tables m t = Some tb \<and> alloc_env (at_alloc tb) m \<and>
     vt_alloc (at_alloc tb) = FN_SYS \<and> at_bucket_count tb \<noteq> 0 \<and> at_index_map_capacity tb \<noteq> 0 \<and>
     array_at m (at_buckets tb) (unat (at_bucket_count tb)) \<and>
     array_at m (at_index_map tb) (unat (at_index_map_capacity tb)) \<and>
     at_count tb = of_nat (length names) \<and> length as = length names \<and>
     length names \<le> unat (at_index_map_capacity tb) \<and> length names \<le> 2 ^ 32 \<and>
     (\<forall>j < length names. entry_ok m (as ! j) j (names ! j) \<and> words m (elem_addr (at_index_map tb) j) = as ! j) \<and>
     distinct names \<and> distinct as \<and>
     buckets_rep (words m) (alinks (atom_entries m)) (at_buckets tb) (unat (at_bucket_count tb)) B \<and>
     (\<forall>i < unat (at_bucket_count tb). set (B i) = {as ! j | j. j < length names \<and> atom_slot tb (names ! j) = i}) \<and>
     atom_objs m \<subseteq> fst ` set (live m) \<and> t \<in> fst ` set (live m) \<and>
     {at_buckets tb, at_index_map tb, t} \<inter> atom_objs m = {} \<and>
     t \<noteq> at_buckets tb \<and> t \<noteq> at_index_map tb \<and> at_buckets tb \<noteq> at_index_map tb"

definition atom_abs :: "ptr \<Rightarrow> 'a atom_machine_scheme \<Rightarrow> u8 list list \<Rightarrow> bool" where
  "atom_abs t m names \<longleftrightarrow> (\<exists>tb B as. atom_rep m t tb B as names)"

lemma atom_repD:
  assumes "atom_rep m t tb B as names"
  shows "t \<noteq> 0" "atom_tables m t = Some tb" "alloc_env (at_alloc tb) m" "vt_alloc (at_alloc tb) = FN_SYS"
    "at_bucket_count tb \<noteq> 0" "array_at m (at_buckets tb) (unat (at_bucket_count tb))"
    "array_at m (at_index_map tb) (unat (at_index_map_capacity tb))" "at_count tb = of_nat (length names)"
    "length as = length names" "length names \<le> unat (at_index_map_capacity tb)" "length names \<le> 2 ^ 32"
    "\<And>j. j < length names \<Longrightarrow> entry_ok m (as ! j) j (names ! j)"
    "\<And>j. j < length names \<Longrightarrow> words m (elem_addr (at_index_map tb) j) = as ! j"
    "distinct names" "distinct as" "buckets_rep (words m) (alinks (atom_entries m)) (at_buckets tb) (unat (at_bucket_count tb)) B"
    "\<And>i. i < unat (at_bucket_count tb) \<Longrightarrow> set (B i) = {as ! j | j. j < length names \<and> atom_slot tb (names ! j) = i}"
    "atom_objs m \<subseteq> fst ` set (live m)" "t \<in> fst ` set (live m)"
    "{at_buckets tb, at_index_map tb, t} \<inter> atom_objs m = {}"
    "t \<noteq> at_buckets tb" "t \<noteq> at_index_map tb" "at_buckets tb \<noteq> at_index_map tb" "at_index_map_capacity tb \<noteq> 0"
  using assms by (simp_all only: atom_rep_def simp_thms)

lemma atom_slot_less: "at_bucket_count tb \<noteq> 0 \<Longrightarrow> atom_slot tb bs < unat (at_bucket_count tb)"
  by (simp add: atom_slot_def unat_gt_0)

lemma atom_bucket_addr:
  assumes "at_bucket_count tb \<noteq> 0"
  shows "atom_bucket tb (hash_atom_name bs) = Some (elem_addr (at_buckets tb) (atom_slot tb bs))"
proof -
  let ?h = "hash_atom_name bs"
  have "unat ?h < 2 ^ 64" by (rule order_less_trans [OF unsigned_less]) simp
  then have "unat (ucast ?h mod at_bucket_count tb) = atom_slot tb bs"
    by (simp add: unat_mod_distrib atom_slot_def unsigned_ucast_eq take_bit_nat_eq_self)
  then have "ucast ?h mod at_bucket_count tb = (of_nat (atom_slot tb bs) :: 64 word)"
    by (metis of_nat_unat ucast_id)
  then show ?thesis using assms by (simp add: atom_bucket_def elem_addr_def)
qed

subsection \<open>Searching\<close>

lemma same_name_run:
  assumes "entry_ok m a j nm" "length bs < 2 ^ 60" "atom_entries m a = Some e"
  shows "same_name (hash_atom_name bs) bs e m = Some (nm = bs)"
proof -
  have e: "ae_len e = of_nat (length nm)" "ae_hash e = hash_atom_name nm" "byte_blocks m (ae_name e) = Some (nm @ [0])" "length nm < 2 ^ 60"
    using assms(1,3) by (auto simp: entry_ok_def)
  show ?thesis
  proof (cases "length nm = length bs")
    case True
    then show ?thesis using e by (auto simp: same_name_def)
  next
    case False
    then have "(of_nat (length nm) :: size_t) \<noteq> of_nat (length bs)"
      using e(4) assms(2) word_of_nat_eq [where 'a = 64, of "length nm" "length bs"] by auto
    then show ?thesis using e False by (auto simp: same_name_def)
  qed
qed

lemma atom_find_run:
  assumes "chain (alinks (atom_entries m)) p xs 0" "length bs < 2 ^ 60"
    "\<And>a. a \<in> set xs \<Longrightarrow> \<exists>j. entry_ok m a j (nm a)"
  shows "atom_find (hash_atom_name bs) bs p m = Some (found_in (\<lambda>a. nm a = bs) xs)"
  using assms(1,3)
proof (induction xs arbitrary: p)
  case Nil
  then show ?case by (simp add: atom_find.simps found_in_def)
next
  case (Cons a xs)
  then obtain e where e: "atom_entries m a = Some e" "chain (alinks (atom_entries m)) (ae_next e) xs 0" "p = a" "a \<noteq> 0"
    by (auto simp: alinks_def)
  obtain j where "entry_ok m a j (nm a)" using Cons.prems(2) [of a] by auto
  then have "same_name (hash_atom_name bs) bs e m = Some (nm a = bs)" using assms(2) e(1) by (rule same_name_run)
  with e Cons.IH [OF e(2)] Cons.prems(2) show ?case
    by (subst atom_find.simps) (simp add: found_in_def)
qed

lemma bucket_atoms:
  assumes rep: "atom_rep m t tb B as names" and i: "i < unat (at_bucket_count tb)"
  shows "set (B i) \<subseteq> set as" "0 \<notin> set (B i)" "set as \<subseteq> dom (atom_entries m)"
    "\<And>a. a \<in> set as \<Longrightarrow> \<exists>j < length names. a = as ! j"
proof -
  note D = atom_repD [OF rep]
  show "set (B i) \<subseteq> set as" using D(17) [OF i] D(9) by auto
  show "0 \<notin> set (B i)" using chain_nonnull [OF buckets_repD [OF D(16) i]] by blast
  show *: "\<And>a. a \<in> set as \<Longrightarrow> \<exists>j < length names. a = as ! j" using D(9) by (metis in_set_conv_nth)
  show "set as \<subseteq> dom (atom_entries m)"
  proof
    fix a assume "a \<in> set as"
    then obtain j where "j < length names" "a = as ! j" using * by blast
    then show "a \<in> dom (atom_entries m)" using D(12) [of j] by (auto simp: entry_ok_def)
  qed
qed

text \<open>A name is found exactly when it is in the table, and then by its own entry.\<close>

lemma find_entry_run:
  assumes rep: "atom_rep m t tb B as names" and len: "unat len = length bs" "length bs < 2 ^ 60"
  shows "\<exists>a. atom_table_find_entry t (Some (bs @ r)) len m = Some a \<and>
    (if bs \<in> set names then \<exists>j < length names. names ! j = bs \<and> a = as ! j \<and> a \<noteq> 0 else a = 0)"
proof -
  note D = atom_repD [OF rep]
  let ?i = "atom_slot tb bs"
  have i: "?i < unat (at_bucket_count tb)" using D(5) by (rule atom_slot_less)
  define nm where "nm a = names ! (SOME j. j < length names \<and> a = as ! j)" for a
  have nm: "nm (as ! j) = names ! j" if "j < length names" for j
  proof -
    have "(SOME k. k < length names \<and> as ! j = as ! k) = j"
      using that D(9,15) by (intro some_equality) (auto simp: nth_eq_iff_index_eq)
    then show ?thesis by (simp add: nm_def)
  qed
  have ent: "\<exists>j. entry_ok m a j (nm a)" if a: "a \<in> set (B ?i)" for a
  proof -
    obtain j where "j < length names" "a = as ! j" using a D(17) [OF i] by auto
    then show ?thesis using D(12) [of j] nm [of j] by auto
  qed
  have run: "atom_table_find_entry t (Some (bs @ r)) len m = Some (found_in (\<lambda>a. nm a = bs) (B ?i))"
    using D(1,2) len atom_bucket_addr [OF D(5), of bs] array_accessible [OF _ D(6) i] D(3)
      atom_find_run [OF buckets_repD [OF D(16) i] len(2) ent]
    by (simp add: atom_table_find_entry_def read_bytes_def rd_def)
  show ?thesis
  proof (cases "bs \<in> set names")
    case True
    then obtain j where j: "j < length names" "names ! j = bs" by (auto simp: in_set_conv_nth)
    have "as ! j \<in> set (B ?i)" using j D(17) [OF i] by auto
    then have ne: "filter (\<lambda>a. nm a = bs) (B ?i) \<noteq> []" using nm [OF j(1)] j(2) by (auto simp: filter_empty_conv)
    from bucket_atoms(2) [OF rep i] show ?thesis
    proof (cases rule: found_in_cases [where P = "\<lambda>a. nm a = bs"])
      case none
      then show ?thesis using ne by simp
    next
      case (some xs a ys)
      have "a \<in> set (B ?i)" using some(3) by simp
      then obtain k where k: "k < length names" "a = as ! k" using D(17) [OF i] by auto
      then show ?thesis using run True some nm [of k] by auto
    qed
  next
    case False
    have "nm a \<noteq> bs" if a: "a \<in> set (B ?i)" for a
    proof -
      obtain j where "j < length names" "a = as ! j" using a D(17) [OF i] by auto
      then show ?thesis using False nm [of j] by auto
    qed
    then have "find (\<lambda>a. nm a = bs) (B ?i) = None" by (simp add: find_None_iff)
    then have "found_in (\<lambda>a. nm a = bs) (B ?i) = 0" by (simp add: found_in_def)
    then show ?thesis using run False by simp
  qed
qed


lemma read_section_run:
  assumes rep: "atom_rep m t tb B as names" and len: "unat len = length bs" "length bs < 2 ^ 60"
  shows "bs \<notin> set names \<Longrightarrow> intern_read_section t (Some (bs @ r)) len m = Some None"
    and "j < length names \<Longrightarrow> names ! j = bs \<Longrightarrow> intern_read_section t (Some (bs @ r)) len m = Some (Some (atom_eterm (of_nat j)))"
proof -
  obtain a where a: "atom_table_find_entry t (Some (bs @ r)) len m = Some a"
    "if bs \<in> set names then \<exists>j < length names. names ! j = bs \<and> a = as ! j \<and> a \<noteq> 0 else a = 0"
    using find_entry_run [OF rep len] by blast
  show "intern_read_section t (Some (bs @ r)) len m = Some None" if "bs \<notin> set names"
    using a that by (simp add: intern_read_section_def)
  show "intern_read_section t (Some (bs @ r)) len m = Some (Some (atom_eterm (of_nat j)))" if j: "j < length names" "names ! j = bs"
  proof -
    have "bs \<in> set names" using j by auto
    then obtain k where k: "k < length names" "names ! k = bs" "a = as ! k" "a \<noteq> 0" using a(2) by auto
    have "k = j" using k(1,2) j atom_repD(14) [OF rep] by (metis nth_eq_iff_index_eq)
    then obtain e where "atom_entries m a = Some e" "ae_index e = of_nat j"
      using atom_repD(12) [OF rep k(1)] k(3) by (auto simp: entry_ok_def)
    then show ?thesis using a(1) k(4) by (simp add: intern_read_section_def)
  qed
qed

lemma atom_tagged: "atom_eterm i AND 0x0F = TAG_IMMED1_ATOM" "atom_index (atom_eterm i) = i"
proof -
  have "take_bit 4 (push_bit 4 (ucast i :: 64 word) OR 11) = 11"
    by (simp add: take_bit_or take_bit_push_bit)
  then show "atom_eterm i AND 0x0F = TAG_IMMED1_ATOM"
    by (simp add: atom_eterm_def tag_values take_bit_eq_mask masks64)
  have "drop_bit 4 (11 :: 64 word) = 0" by (simp add: drop_bit_eq_div)
  moreover have "ucast (drop_bit 4 (push_bit 4 (ucast i :: 64 word))) = i"
    by (rule bit_word_eqI) (auto simp: bit_simps)
  ultimately show "atom_index (atom_eterm i) = i"
    by (simp add: atom_index_def atom_eterm_def tag_values drop_bit_or)
qed

lemma atom_lookup_run:
  assumes rep: "atom_rep m t tb B as names" and j: "j < length names"
  shows "\<exists>p. beam_atom_lookup t (atom_eterm (of_nat j)) m = Some p \<and> byte_blocks m p = Some (names ! j @ [0])"
proof -
  note D = atom_repD [OF rep]
  have j32: "j < 2 ^ 32" using j D(11) by simp
  have "unat (of_nat j :: u32) = j" using j32 by (intro unat_of_nat_small) simp
  then have u: "unat (ucast (of_nat j :: u32) :: size_t) = j" using j32 by (simp add: unsigned_ucast_eq take_bit_nat_eq_self)
  then have off: "ucast (of_nat j :: u32) = (of_nat j :: size_t)" by (metis of_nat_unat ucast_id)
  have cnt: "unat (at_count tb) = length names" unfolding D(8) using D(11) by (intro unat_of_nat_small) simp
  obtain e where e: "atom_entries m (as ! j) = Some e" "byte_blocks m (ae_name e) = Some (names ! j @ [0])"
    using D(12) [OF j] by (auto simp: entry_ok_def)
  have "rd m (elem_addr (at_index_map tb) j) = Some (as ! j)"
    using array_accessible [OF _ D(7), of j] D(3,10) D(13) [OF j] j by simp
  moreover have "as ! j \<noteq> 0"
  proof
    assume "as ! j = 0"
    then have "0 \<in> atom_objs m" using e by (auto simp: atom_objs_def)
    then show False using D(3,18) null_not_live by blast
  qed
  moreover have "\<not> at_count tb \<le> of_nat j" using u cnt j off by (simp add: word_le_nat_alt)
  ultimately show ?thesis
    using D(1,2) atom_tagged off e by (simp add: beam_atom_lookup_def Let_def elem_addr_def rd_def)
qed


subsection \<open>Growing the index map\<close>

lemma atom_frame: "machine.more m' = machine.more m \<Longrightarrow>
    atom_entries m' = atom_entries m \<and> atom_tables m' = atom_tables m \<and> byte_blocks m' = byte_blocks m \<and>
    atom_machine.more m' = atom_machine.more m"
  by (cases m; cases m') simp

lemma entry_ok_cong:
  "atom_entries m' a = atom_entries m a \<Longrightarrow> (\<And>p. p \<in> dom (byte_blocks m) \<Longrightarrow> byte_blocks m' p = byte_blocks m p) \<Longrightarrow>
   entry_ok m a j bs \<Longrightarrow> entry_ok m' a j bs"
  unfolding entry_ok_def by (metis domI)

lemma atom_rep_upd:
  assumes rep: "atom_rep m t tb B as names" and env: "alloc_env (at_alloc tb) m'"
    and tb': "atom_tables m' t = Some tb'" "at_alloc tb' = at_alloc tb" "at_buckets tb' = at_buckets tb"
      "at_bucket_count tb' = at_bucket_count tb" "at_count tb' = at_count tb"
    and cap: "at_index_map_capacity tb' \<noteq> 0" "length names \<le> unat (at_index_map_capacity tb')"
    and arr: "array_at m' (at_buckets tb) (unat (at_bucket_count tb))" "array_at m' (at_index_map tb') (unat (at_index_map_capacity tb'))"
    and S: "atom_entries m' = atom_entries m" "byte_blocks m' = byte_blocks m"
    and w: "\<And>i. i < unat (at_bucket_count tb) \<Longrightarrow> words m' (elem_addr (at_buckets tb) i) = words m (elem_addr (at_buckets tb) i)"
      "\<And>j. j < length names \<Longrightarrow> words m' (elem_addr (at_index_map tb') j) = words m (elem_addr (at_index_map tb) j)"
    and live: "atom_objs m \<subseteq> fst ` set (live m')" "t \<in> fst ` set (live m')" "at_index_map tb' \<notin> atom_objs m"
      "t \<noteq> at_index_map tb'" "at_buckets tb \<noteq> at_index_map tb'"
  shows "atom_rep m' t tb' B as names"
proof -
  note D = atom_repD [OF rep]
  have objs: "atom_objs m' = atom_objs m" using S by (simp add: atom_objs_def)
  have "entry_ok m' (as ! j) j (names ! j) \<and> words m' (elem_addr (at_index_map tb') j) = as ! j" if "j < length names" for j
    using D(12,13) [OF that] w(2) [OF that] S by (simp add: entry_ok_def)
  moreover have "buckets_rep (words m') (alinks (atom_entries m')) (at_buckets tb) (unat (at_bucket_count tb)) B"
    using D(16) w(1) S(1) by (simp add: buckets_rep_def)
  moreover have "atom_slot tb' = atom_slot tb" using tb'(4) by (simp add: atom_slot_def fun_eq_iff)
  moreover have "{at_buckets tb', at_index_map tb', t} \<inter> atom_objs m' = {}" using D(20) live(3) objs tb'(3) by auto
  ultimately show ?thesis
    unfolding atom_rep_def using D(1,4,5,8,9,11,14,15,17,21) env tb' cap arr live objs by (simp del: Int_insert_left)
qed

lemma grow_run:
  assumes rep: "atom_rep m t tb B as names" and n: "length names < 2 ^ 32"
  obtains (full) m1 where "grow_index_map tb m = Some (None, m1)" "atom_rep m1 t tb B as names"
  | (room) tb' m1 where "grow_index_map tb m = Some (Some tb', m1)" "atom_rep (put_atoms t tb' m1) t tb' B as names"
      "length names < unat (at_index_map_capacity tb')"
proof -
  note D = atom_repD [OF rep]
  have ok: "machine_ok m" using D(3) by simp
  have cnt: "unat (at_count tb) = length names" unfolding D(8) using n by (intro unat_of_nat_small) simp
  show thesis
  proof (cases "at_count tb \<ge> at_index_map_capacity tb")
    case False
    then have g: "grow_index_map tb m = Some (Some tb, m)" by (simp add: grow_index_map_def)
    have "put_atoms t tb m = m" using D(2) by (simp add: put_atoms_def fun_upd_idem)
    then show ?thesis using g rep False cnt by (intro room [of tb m]) (simp_all add: word_le_nat_alt)
  next
    case True
    let ?c = "unat (at_index_map_capacity tb)" and ?new = "at_index_map_capacity tb * 2"
    have c: "?c = length names" using True D(10) cnt by (simp add: word_le_nat_alt)
    have c0: "0 < ?c" using D(24) by (simp add: unat_gt_0)
    have "unat ?new = ?c * 2" using c n by (simp add: unat_word_ariths)
    then have new: "?new = of_nat (?c * 2)" by (metis of_nat_unat ucast_id)
    have unew: "unat ?new = ?c * 2" by fact
    obtain q m1 where q: "call_realloc (at_alloc tb) (at_index_map tb) (8 * of_nat (?c * 2)) m = Some (q, m1)" "machine_ok m1"
      "\<forall>vt'. vt_ok vt' m1 = vt_ok vt' m" "machine.more m1 = machine.more m" "q = 0 \<longrightarrow> live m1 = live m \<and> words m1 = words m"
      "q \<noteq> 0 \<longrightarrow> array_at m1 q (?c * 2) \<and> (\<forall>i < ?c. words m1 (elem_addr q i) = words m (elem_addr (at_index_map tb) i)) \<and>
         fst ` set (live m1) = insert q (fst ` set (live m) - {at_index_map tb}) \<and> q \<notin> fst ` set (live m) - {at_index_map tb} \<and>
         (\<forall>b \<in> set (live m). fst b \<noteq> at_index_map tb \<longrightarrow> b \<in> set (live m1) \<and> (\<forall>a. in_block a b \<longrightarrow> words m1 a = words m a))"
      by (rule sys_realloc_array [OF D(3,4,7), of "?c * 2"]) (use c c0 n in simp_all)
    note F = atom_frame [OF q(4)]
    have env1: "alloc_env (at_alloc tb) m1" using D(3) q(2,3) by simp
    have run: "grow_index_map tb m = Some (if q = 0 then None else Some (tb\<lparr>at_index_map := q, at_index_map_capacity := ?new\<rparr>), m1)"
      using True q(1) [folded new] by (simp add: grow_index_map_def Let_def)
    show ?thesis
    proof (cases "q = 0")
      case null: True
      have "atom_rep m1 t tb B as names"
        by (rule atom_rep_upd [OF rep env1]) (use q(5) null F D in \<open>simp_all add: array_at_def\<close>)
      then show ?thesis using run null by (intro full [of m1]) simp_all
    next
      case False
      let ?tb = "tb\<lparr>at_index_map := q, at_index_map_capacity := ?new\<rparr>"
      let ?m = "put_atoms t ?tb m1"
      have "machine_ok ?m = machine_ok m1" by (rule machine_ok_cong) (simp_all add: put_atoms_def)
      moreover have "vt_ok (at_alloc tb) ?m = vt_ok (at_alloc tb) m1" by (rule vt_ok_cong) (simp_all add: put_atoms_def)
      ultimately have env: "alloc_env (at_alloc tb) ?m" using env1 by simp
      have lv: "live ?m = live m1" "words ?m = words m1" by (simp_all add: put_atoms_def)
      have Q: "array_at m1 q (?c * 2)" "\<And>i. i < ?c \<Longrightarrow> words m1 (elem_addr q i) = words m (elem_addr (at_index_map tb) i)"
        "fst ` set (live m1) = insert q (fst ` set (live m) - {at_index_map tb})" "q \<notin> fst ` set (live m) - {at_index_map tb}"
        "\<And>b. b \<in> set (live m) \<Longrightarrow> fst b \<noteq> at_index_map tb \<Longrightarrow> b \<in> set (live m1)"
        "\<And>a b. b \<in> set (live m) \<Longrightarrow> fst b \<noteq> at_index_map tb \<Longrightarrow> in_block a b \<Longrightarrow> words m1 a = words m a"
        using q(6) False by blast+
      obtain k where k: "(at_buckets tb, k) \<in> set (live m)" "8 * unat (at_bucket_count tb) \<le> unat k"
        using D(6) by (auto simp: array_at_def)
      have notim: "at_index_map tb \<notin> atom_objs m" using D(20) by auto
      have "atom_rep ?m t ?tb B as names"
      proof (rule atom_rep_upd [OF rep env])
        show "array_at ?m (at_buckets tb) (unat (at_bucket_count tb))"
          using Q(5) [OF k(1)] D(23) k(2) lv(1) by (auto simp: array_at_def)
        show "array_at ?m (at_index_map ?tb) (unat (at_index_map_capacity ?tb))" using Q(1) unew lv(1) by (simp add: array_at_def)
        show "words ?m (elem_addr (at_buckets tb) i) = words m (elem_addr (at_buckets tb) i)" if "i < unat (at_bucket_count tb)" for i
          using Q(6) [OF k(1) _ elem_in_block [OF ok k that]] D(23) lv(2) by simp
        show "words ?m (elem_addr (at_index_map ?tb) j) = words m (elem_addr (at_index_map tb) j)" if "j < length names" for j
          using Q(2) that c lv(2) by simp
        show "atom_objs m \<subseteq> fst ` set (live ?m)" using D(18) notim Q(3) lv(1) by auto
        show "t \<in> fst ` set (live ?m)" using D(19,22) Q(3) lv(1) by auto
        show "at_index_map ?tb \<notin> atom_objs m" using Q(4) D(18) notim by auto
        show "t \<noteq> at_index_map ?tb" using Q(4) D(19,22) by auto
        show "at_buckets tb \<noteq> at_index_map ?tb" using Q(4) array_at_base [OF D(6)] D(23) by auto
        show "at_index_map_capacity ?tb \<noteq> 0" using unew c0 by auto
        show "length names \<le> unat (at_index_map_capacity ?tb)" using unew c by simp
      qed (use F in \<open>simp_all add: put_atoms_def\<close>)
      then show ?thesis using run False unew c c0 by (intro room [of ?tb m1]) simp_all
    qed
  qed
qed


subsection \<open>Insertion\<close>

lemma indexed_snoc:
  assumes "length as = length xs"
  shows "{(as @ [a]) ! j | j. j < Suc (length xs) \<and> P ((xs @ [x]) ! j)} =
    {as ! j | j. j < length xs \<and> P (xs ! j)} \<union> (if P x then {a} else {})"
proof -
  have "{f j | j. j < Suc n \<and> Q j} = {f j | j. j < n \<and> Q j} \<union> (if Q n then {f n} else {})" for f :: "nat \<Rightarrow> 'a" and Q n
    by (auto simp: less_Suc_eq)
  moreover have "{(as @ [a]) ! j | j. j < length xs \<and> P ((xs @ [x]) ! j)} = {as ! j | j. j < length xs \<and> P (xs ! j)}"
    using assms by (intro Collect_cong ex_cong) (auto simp: nth_append)
  ultimately show ?thesis using assms by (simp add: nth_append)
qed

lemma atom_link:
  fixes p :: ptr
  assumes rep: "atom_rep m t tb B as names" and room: "length names < unat (at_index_map_capacity tb)" "length names < 2 ^ 32"
    and new: "bs \<notin> set names" "length bs < 2 ^ 60" "unat len = length bs"
    and a: "a \<noteq> 0" "a \<in> fst ` set (live m)" "a \<notin> atom_objs m" "a \<notin> {t, at_buckets tb, at_index_map tb}"
    and p: "p \<in> fst ` set (live m)" "p \<notin> atom_objs m" "p \<notin> {t, at_buckets tb, at_index_map tb}"
  defines "slot \<equiv> elem_addr (at_buckets tb) (atom_slot tb bs)"
  defines "e \<equiv> \<lparr>ae_name = p, ae_len = len, ae_hash = hash_atom_name bs, ae_index = ucast (at_count tb), ae_next = words m slot\<rparr>"
  shows "\<exists>m6 m7. wr slot a (put_atom a e (put_bytes p (bs @ [0]) m)) = Some m6 \<and>
    wr (at_index_map tb + 8 * at_count tb) a m6 = Some m7 \<and>
    atom_rep (put_atoms t (tb\<lparr>at_count := at_count tb + 1\<rparr>) m7) t (tb\<lparr>at_count := at_count tb + 1\<rparr>)
      (B(atom_slot tb bs := a # B (atom_slot tb bs))) (as @ [a]) (names @ [bs])"
proof -
  note D = atom_repD [OF rep]
  let ?i = "atom_slot tb bs" and ?n = "length names" and ?tb = "tb\<lparr>at_count := at_count tb + 1\<rparr>" and ?nb = "unat (at_bucket_count tb)"
  let ?im = "elem_addr (at_index_map tb) ?n"
  let ?m5 = "put_atom a e (put_bytes p (bs @ [0]) m)"
  let ?w = "(words m)(slot := a, ?im := a)"
  let ?m7 = "?m5\<lparr>words := ?w\<rparr>"
  let ?m' = "put_atoms t ?tb ?m7"
  have ok: "machine_ok m" using D(3) by simp
  have i: "?i < ?nb" using D(5) by (rule atom_slot_less)
  have cnt: "at_count tb = of_nat ?n" "ucast (at_count tb) = (of_nat ?n :: u32)"
    unfolding D(8) by (simp_all add: ucast_of_nat_32)
  have acc: "accessible m slot" unfolding slot_def using array_accessible [OF ok D(6) i] .
  have acc_im: "accessible m ?im" using array_accessible [OF ok D(7) room(1)] .
  have addr: "at_index_map tb + 8 * at_count tb = ?im" by (simp add: elem_addr_def cnt(1))
  have wr1: "wr slot a ?m5 = Some (?m5\<lparr>words := (words m)(slot := a)\<rparr>)"
    using acc by (simp add: wr_def accessible_def put_atom_def put_bytes_def)
  have wr2: "wr (at_index_map tb + 8 * at_count tb) a (?m5\<lparr>words := (words m)(slot := a)\<rparr>) = Some ?m7"
    unfolding addr using acc_im by (simp add: wr_def accessible_def put_atom_def put_bytes_def)
  have "machine_ok ?m' = machine_ok m" by (rule machine_ok_cong) (simp_all add: put_atoms_def put_atom_def put_bytes_def)
  moreover have "vt_ok (at_alloc tb) ?m' = vt_ok (at_alloc tb) m"
    by (rule vt_ok_cong) (simp_all add: put_atoms_def put_atom_def put_bytes_def)
  ultimately have env: "alloc_env (at_alloc tb) ?m'" using D(3) by simp
  have S: "atom_entries ?m' = (atom_entries m)(a \<mapsto> e)" "byte_blocks ?m' = (byte_blocks m)(p \<mapsto> bs @ [0])"
    "words ?m' = ?w" "live ?m' = live m" "atom_tables ?m' t = Some ?tb"
    by (simp_all add: put_atoms_def put_atom_def put_bytes_def)
  have objs: "atom_objs ?m' = insert a (insert p (atom_objs m))" by (auto simp: atom_objs_def S)
  have a_as: "a \<notin> set as" using bucket_atoms(3) [OF rep i] a(3) by (auto simp: atom_objs_def)
  have slots: "elem_addr (at_index_map tb) j \<noteq> slot" if "j < unat (at_index_map_capacity tb)" for j
    unfolding slot_def using arrays_apart [OF ok D(7,6) _ that i] D(23) by simp
  have im_inj: "elem_addr (at_index_map tb) j \<noteq> ?im" if "j < ?n" for j
    using elem_addr_inj [OF array_atD(2) [OF ok D(7)], of j ?n] that room(1) by simp
  have old: "entry_ok ?m' (as ! j) j (names ! j) \<and> ?w (elem_addr (at_index_map tb) j) = as ! j" if j: "j < ?n" for j
  proof -
    have "as ! j \<noteq> a" using a_as j D(9) by (metis nth_mem)
    then have "entry_ok ?m' (as ! j) j (names ! j)"
      using D(12) [OF j] p(2) by (intro entry_ok_cong [of ?m' _ m]) (auto simp: S atom_objs_def)
    then show ?thesis using D(13) [OF j] slots [of j] im_inj [OF j] j room(1) by simp
  qed
  have fresh: "entry_ok ?m' a ?n bs"
  proof -
    have "len = of_nat (length bs)" using new(3) by (metis of_nat_unat ucast_id)
    then show ?thesis using new(2) cnt(2) unfolding entry_ok_def S by (simp add: e_def)
  qed
  have links: "alinks ((atom_entries m)(a \<mapsto> e)) = (alinks (atom_entries m))(a \<mapsto> words m slot)"
    by (auto simp: alinks_def e_def)
  have "buckets_rep ((words m)(slot := a)) (alinks ((atom_entries m)(a \<mapsto> e))) (at_buckets tb) ?nb (B(?i := a # B ?i))"
    unfolding links slot_def using a_as bucket_atoms(1) [OF rep]
    by (intro buckets_push [OF D(16) i array_atD(2) [OF ok D(6)] a(1)]) blast
  moreover have "?w (elem_addr (at_buckets tb) k) = ((words m)(slot := a)) (elem_addr (at_buckets tb) k)" if "k < ?nb" for k
    using arrays_apart [OF ok D(6,7,23) that room(1)] by simp
  ultimately have bk: "buckets_rep ?w (alinks ((atom_entries m)(a \<mapsto> e))) (at_buckets tb) ?nb (B(?i := a # B ?i))"
    by (simp add: buckets_rep_def)
  have sets: "set ((B(?i := a # B ?i)) k) = {(as @ [a]) ! j | j. j < length (names @ [bs]) \<and> atom_slot tb ((names @ [bs]) ! j) = k}"
    if k: "k < ?nb" for k
  proof -
    have "{(as @ [a]) ! j | j. j < length (names @ [bs]) \<and> atom_slot tb ((names @ [bs]) ! j) = k} =
        {as ! j | j. j < ?n \<and> atom_slot tb (names ! j) = k} \<union> (if ?i = k then {a} else {})"
      using indexed_snoc [OF D(9), of a "\<lambda>s. atom_slot tb s = k" bs] by simp
    then show ?thesis using D(17) [OF k] by auto
  qed
  have slot_eq: "atom_slot ?tb = atom_slot tb" by (simp add: atom_slot_def fun_eq_iff)
  have "atom_rep ?m' t ?tb (B(?i := a # B ?i)) (as @ [a]) (names @ [bs])"
    unfolding atom_rep_def
  proof (intro conjI allI impI)
    fix j assume j: "j < length (names @ [bs])"
    show "entry_ok ?m' ((as @ [a]) ! j) j ((names @ [bs]) ! j)" "words ?m' (elem_addr (at_index_map ?tb) j) = (as @ [a]) ! j"
      using j old [of j] fresh D(9) S(3) by (auto simp: nth_append less_Suc_eq)
  next
    show "set ((B(?i := a # B ?i)) k) = {(as @ [a]) ! j | j. j < length (names @ [bs]) \<and> atom_slot ?tb ((names @ [bs]) ! j) = k}"
      if "k < unat (at_bucket_count ?tb)" for k
      using sets [of k] that unfolding slot_eq by simp
    show "buckets_rep (words ?m') (alinks (atom_entries ?m')) (at_buckets ?tb) (unat (at_bucket_count ?tb)) (B(?i := a # B ?i))"
      using bk by (simp add: S)
    show "{at_buckets ?tb, at_index_map ?tb, t} \<inter> atom_objs ?m' = {}" using D(20) a(4) p(3) by (auto simp: objs)
    show "atom_objs ?m' \<subseteq> fst ` set (live ?m')" using D(18) a(2) p(1) by (auto simp: objs S)
    show "array_at ?m' (at_buckets ?tb) (unat (at_bucket_count ?tb))" "array_at ?m' (at_index_map ?tb) (unat (at_index_map_capacity ?tb))"
      using D(6,7) array_at_cong [OF S(4)] by simp_all
    show "machine_ok ?m'" "vt_ok (at_alloc ?tb) ?m'" using env by simp_all
    show "atom_tables ?m' t = Some ?tb" by (rule S(5))
    show "t \<in> fst ` set (live ?m')" unfolding S(4) by (rule D(19))
  qed (use D(1,4,5,8-11,14,15,19,21-24) room new a_as in \<open>simp_all add: S\<close>)
  then show ?thesis using wr1 wr2 by blast
qed


lemma atom_rep_alloc:
  assumes rep: "atom_rep m t tb B as names" and m': "machine_ok m'" "\<forall>vt'. vt_ok vt' m' = vt_ok vt' m" "words m' = words m"
    "machine.more m' = machine.more m" "set (live m) \<subseteq> set (live m')"
  shows "atom_rep m' t tb B as names"
proof (rule atom_rep_upd [OF rep])
  note D = atom_repD [OF rep] and F = atom_frame [OF m'(4)]
  have sub: "fst ` set (live m) \<subseteq> fst ` set (live m')" using m'(5) by (rule image_mono)
  show "alloc_env (at_alloc tb) m'" using D(3) m'(1,2) by simp
  show "array_at m' (at_buckets tb) (unat (at_bucket_count tb))" using D(6) m'(5) by (rule array_at_mono)
  show "array_at m' (at_index_map tb) (unat (at_index_map_capacity tb))" using D(7) m'(5) by (rule array_at_mono)
  show "atom_objs m \<subseteq> fst ` set (live m')" "t \<in> fst ` set (live m')" using D(18,19) sub by blast+
  show "at_index_map tb \<notin> atom_objs m" using D(20) by blast
qed (use atom_repD [OF rep] atom_frame [OF m'(4)] m'(3) in simp_all)

lemma atom_rep_free:
  assumes rep: "atom_rep m t tb B as names" and a: "a \<notin> atom_objs m" "a \<notin> {t, at_buckets tb, at_index_map tb}"
    and m': "released vt {a} m m'" "machine.more m' = machine.more m"
  shows "atom_rep m' t tb B as names"
proof (rule atom_rep_upd [OF rep])
  note D = atom_repD [OF rep] and F = atom_frame [OF m'(2)] and R = releasedD [OF m'(1)]
  show "alloc_env (at_alloc tb) m'" using D(3) R(1,2) by simp
  have "array_at m' b n" if "array_at m b n" "b \<noteq> a" for b n
    using that R(5) unfolding array_at_def by (metis fst_conv singletonD)
  then show "array_at m' (at_buckets tb) (unat (at_bucket_count tb))" "array_at m' (at_index_map tb) (unat (at_index_map_capacity tb))"
    using D(6,7) a(2) by auto
  show "atom_objs m \<subseteq> fst ` set (live m')" "t \<in> fst ` set (live m')" using D(18,19) R(6) a by blast+
  show "at_index_map tb \<notin> atom_objs m" using D(20) by blast
qed (use atom_repD [OF rep] atom_frame [OF m'(2)] releasedD(3) [OF m'(1)] in simp_all)

lemma atom_sizes [simp]: "good_size sizeof_beam_atom_entry" "good_size sizeof_beam_atom_table"
  by (simp_all add: good_size_def sizeof_beam_atom_entry_def sizeof_beam_atom_table_def)

lemma atom_insert_run:
  assumes rep: "atom_rep m t tb B as names" and n: "length names < 2 ^ 32"
    and new: "bs \<notin> set names" "length bs < 2 ^ 60" "unat len = length bs"
  shows "\<exists>r m'. atom_table_insert t (Some (bs @ rest)) len m = Some (r, m') \<and>
    (r = 0 \<and> atom_abs t m' names \<or> r = atom_eterm (of_nat (length names)) \<and> atom_abs t m' (names @ [bs]))"
proof -
  note D = atom_repD [OF rep]
  have rb: "read_bytes (bs @ rest) len = Some bs" using new(3) by (simp add: read_bytes_def)
  from rep n show ?thesis
  proof (cases rule: grow_run)
    case (full m1)
    then show ?thesis using D(1,2) by (auto simp: atom_table_insert_def atom_abs_def)
  next
    case (room tb1 m1)
    let ?m2 = "put_atoms t tb1 m1"
    note D2 = atom_repD [OF room(2)]
    let ?slot = "elem_addr (at_buckets tb1) (atom_slot tb1 bs)"
    obtain a m3 where a: "call_alloc (at_alloc tb1) sizeof_beam_atom_entry ?m2 = Some (a, m3)" and m3: "machine_ok m3"
      "\<forall>vt'. vt_ok vt' m3 = vt_ok vt' ?m2" "words m3 = words ?m2" "machine.more m3 = machine.more ?m2" "set (live ?m2) \<subseteq> set (live m3)"
      "a \<noteq> 0 \<longrightarrow> a \<notin> fst ` set (live ?m2)" "fst ` set (live m3) = (if a = 0 then fst ` set (live ?m2) else insert a (fst ` set (live ?m2)))"
      using D2(3) atom_sizes(1) by (rule env_alloc)
    have rep3: "atom_rep m3 t tb1 B as names" using room(2) m3(1-5) by (rule atom_rep_alloc)
    note D3 = atom_repD [OF rep3]
    show ?thesis
    proof (cases "a = 0")
      case True
      then show ?thesis
        using D(1,2) room(1) rb atom_bucket_addr [OF D2(5), of bs] a rep3
        by (auto simp: atom_table_insert_def Let_def atom_abs_def)
    next
      case a0: False
      have "unat (len + 1) = length bs + 1" using new(2,3) by (simp add: unat_word_ariths)
      then have gs: "good_size (len + 1)" unfolding good_size_def using new(2) by (simp add: word_less_nat_alt word_le_nat_alt)
      obtain p m4 where p: "call_alloc (at_alloc tb1) (len + 1) m3 = Some (p, m4)" and m4: "machine_ok m4"
        "\<forall>vt'. vt_ok vt' m4 = vt_ok vt' m3" "words m4 = words m3" "machine.more m4 = machine.more m3" "set (live m3) \<subseteq> set (live m4)"
        "p \<noteq> 0 \<longrightarrow> p \<notin> fst ` set (live m3)" "fst ` set (live m4) = (if p = 0 then fst ` set (live m3) else insert p (fst ` set (live m3)))"
        using D3(3) gs by (rule env_alloc)
      have rep4: "atom_rep m4 t tb1 B as names" using rep3 m4(1-5) by (rule atom_rep_alloc)
      note D4 = atom_repD [OF rep4]
      have objs: "atom_objs m4 = atom_objs ?m2" "atom_objs m3 = atom_objs ?m2"
        using atom_frame [OF m4(4)] atom_frame [OF m3(4)] by (simp_all add: atom_objs_def)
      have fixed: "{t, at_buckets tb1, at_index_map tb1} \<subseteq> fst ` set (live ?m2)"
        using D2(19) array_at_base [OF D2(6)] array_at_base [OF D2(7)] by simp
      have a_new: "a \<notin> atom_objs m4" "a \<notin> {t, at_buckets tb1, at_index_map tb1}" "a \<in> fst ` set (live m4)"
        using m3(6,7) m4(7) a0 D2(18) fixed objs(1) by auto
      show ?thesis
      proof (cases "p = 0")
        case True
        obtain m5 where m5: "call_free (at_alloc tb1) a m4 = Some m5" "released (at_alloc tb1) {a} m4 m5" "machine.more m5 = machine.more m4"
          using released_free [OF D4(3) a_new(3)] by blast
        have "atom_rep m5 t tb1 B as names" using rep4 a_new(1,2) m5(2,3) by (rule atom_rep_free)
        then show ?thesis
          using D(1,2) room(1) rb atom_bucket_addr [OF D2(5), of bs] a a0 p True m5(1)
          by (auto simp: atom_table_insert_def Let_def atom_abs_def)
      next
        case p0: False
        have "p \<notin> fst ` set (live m3)" "fst ` set (live ?m2) \<subseteq> fst ` set (live m3)" using m4(6) p0 m3(7) by auto
        then have "p \<notin> fst ` set (live ?m2)" by blast
        then have p_new: "p \<notin> atom_objs m4" "p \<notin> {t, at_buckets tb1, at_index_map tb1}" "p \<in> fst ` set (live m4)"
          unfolding objs(1) m4(7) using p0 D2(18) fixed by (blast, blast, simp)
        obtain m6 m7 where m7: "wr ?slot a (put_atom a \<lparr>ae_name = p, ae_len = len, ae_hash = hash_atom_name bs,
              ae_index = ucast (at_count tb1), ae_next = words m4 ?slot\<rparr> (put_bytes p (bs @ [0]) m4)) = Some m6"
            "wr (at_index_map tb1 + 8 * at_count tb1) a m6 = Some m7"
            "atom_rep (put_atoms t (tb1\<lparr>at_count := at_count tb1 + 1\<rparr>) m7) t (tb1\<lparr>at_count := at_count tb1 + 1\<rparr>)
              (B(atom_slot tb1 bs := a # B (atom_slot tb1 bs))) (as @ [a]) (names @ [bs])"
          using atom_link [OF rep4 room(3) n new a0 a_new(3,1,2) p_new(3,1,2)] by blast
        have "rd (put_bytes p (bs @ [0]) m4) ?slot = Some (words m4 ?slot)"
          using array_accessible [OF m4(1) D4(6) atom_slot_less [OF D2(5)]] by (simp add: put_bytes_def accessible_def)
        moreover have "ucast (at_count tb1) = (of_nat (length names) :: u32)" using D2(8) by (simp add: ucast_of_nat_32)
        ultimately have "atom_table_insert t (Some (bs @ rest)) len m =
            Some (atom_eterm (of_nat (length names)), put_atoms t (tb1\<lparr>at_count := at_count tb1 + 1\<rparr>) m7)"
          using D(1,2) room(1) rb atom_bucket_addr [OF D2(5), of bs] a a0 p p0 m7(1,2)
          by (simp add: atom_table_insert_def Let_def rd_def)
        then show ?thesis using m7(3) by (auto simp: atom_abs_def)
      qed
    qed
  qed
qed


subsection \<open>Interning\<close>

text \<open>The number of the atom for a name: its place in the table, or the next free one.\<close>

definition atom_no :: "u8 list list \<Rightarrow> u8 list \<Rightarrow> nat" where
  "atom_no names bs = length (takeWhile (\<lambda>n. n \<noteq> bs) names)"

definition interned :: "u8 list list \<Rightarrow> u8 list \<Rightarrow> u8 list list" where
  "interned names bs = (if bs \<in> set names then names else names @ [bs])"

lemma atom_no_mem: "bs \<in> set names \<Longrightarrow> atom_no names bs < length names \<and> names ! atom_no names bs = bs"
  by (induction names) (auto simp: atom_no_def)

lemma atom_no_new: "bs \<notin> set names \<Longrightarrow> atom_no names bs = length names"
  by (induction names) (auto simp: atom_no_def)

lemma write_section_run:
  assumes "atom_abs t m names" "length names < 2 ^ 32" "length bs < 2 ^ 60" "unat len = length bs"
  shows "\<exists>r m'. intern_write_section t (Some (bs @ rest)) len m = Some (r, m') \<and>
    (r = 0 \<and> bs \<notin> set names \<and> atom_abs t m' names \<or>
     r = atom_eterm (of_nat (atom_no names bs)) \<and> atom_abs t m' (interned names bs))"
proof -
  obtain tb B as where rep: "atom_rep m t tb B as names" using assms(1) by (auto simp: atom_abs_def)
  show ?thesis
  proof (cases "bs \<in> set names")
    case True
    note no = atom_no_mem [OF True]
    then have "intern_write_section t (Some (bs @ rest)) len m = Some (atom_eterm (of_nat (atom_no names bs)), m)"
      using read_section_run(2) [OF rep assms(4,3), of "atom_no names bs"] by (simp add: intern_write_section_def)
    then show ?thesis using assms(1) True by (simp add: interned_def)
  next
    case False
    obtain r m' where "atom_table_insert t (Some (bs @ rest)) len m = Some (r, m')"
      "r = 0 \<and> atom_abs t m' names \<or> r = atom_eterm (of_nat (length names)) \<and> atom_abs t m' (names @ [bs])"
      using atom_insert_run [OF rep assms(2) False assms(3,4)] by blast
    then show ?thesis
      using read_section_run(1) [OF rep assms(4,3) False] False atom_no_new [OF False]
      by (simp add: intern_write_section_def interned_def)
  qed
qed

lemma intern_length_run:
  assumes "atom_abs t m names" "length names < 2 ^ 32" "length bs < 2 ^ 60" "unat len = length bs"
  shows "\<exists>r m'. beam_atom_intern_length t (Some (bs @ rest)) len m = Some (r, m') \<and>
    (r = 0 \<and> bs \<notin> set names \<and> atom_abs t m' names \<or>
     r = atom_eterm (of_nat (atom_no names bs)) \<and> atom_abs t m' (interned names bs))"
proof -
  obtain tb B as where rep: "atom_rep m t tb B as names" using assms(1) by (auto simp: atom_abs_def)
  note D = atom_repD [OF rep]
  show ?thesis
  proof (cases "bs \<in> set names")
    case True
    note no = atom_no_mem [OF True]
    then have "beam_atom_intern_length t (Some (bs @ rest)) len m = Some (atom_eterm (of_nat (atom_no names bs)), m)"
      using read_section_run(2) [OF rep assms(4,3), of "atom_no names bs"] D(1) by (simp add: beam_atom_intern_length_def)
    then show ?thesis using assms(1) True by (simp add: interned_def)
  next
    case False
    then show ?thesis
      using write_section_run [OF assms] read_section_run(1) [OF rep assms(4,3) False] D(1)
      by (simp add: beam_atom_intern_length_def)
  qed
qed

lemma intern_run:
  assumes "atom_abs t m names" "length names < 2 ^ 32" "length s < 2 ^ 60" "is_c_string s"
  shows "\<exists>r m'. beam_atom_intern t (Some (s @ 0 # rest)) m = Some (r, m') \<and>
    (r = 0 \<and> s \<notin> set names \<and> atom_abs t m' names \<or>
     r = atom_eterm (of_nat (atom_no names s)) \<and> atom_abs t m' (interned names s))"
proof -
  have "t \<noteq> 0" using assms(1) by (auto simp: atom_abs_def atom_rep_def)
  then have "beam_atom_intern t (Some (s @ 0 # rest)) m = beam_atom_intern_length t (Some (s @ 0 # rest)) (of_nat (length s)) m"
    using assms(4) by (simp add: beam_atom_intern_def beam_atom_intern_length_def Let_def)
  moreover have "unat (of_nat (length s) :: size_t) = length s" using assms(3) by (intro unat_of_nat_small) simp
  ultimately show ?thesis using intern_length_run [OF assms(1,2,3), of "of_nat (length s)" "0 # rest"] by simp
qed

lemma atom_abs_lookup:
  assumes "atom_abs t m names" "j < length names"
  shows "\<exists>p. beam_atom_lookup t (atom_eterm (of_nat j)) m = Some p \<and> byte_blocks m p = Some (names ! j @ [0])"
proof -
  obtain tb B as where "atom_rep m t tb B as names" using assms(1) by (auto simp: atom_abs_def)
  then show ?thesis using assms(2) by (rule atom_lookup_run)
qed

lemma interned_nth: "atom_no names bs < length (interned names bs) \<and> interned names bs ! atom_no names bs = bs"
  using atom_no_mem atom_no_new by (auto simp: interned_def nth_append)


subsection \<open>Properties\<close>

definition atom_demo :: "beam_allocator_i \<Rightarrow> eterm \<Rightarrow> (ptr \<rightharpoonup> arena_alloc_state) \<Rightarrow> atom_machine" where
  "atom_demo vt w ars = \<lparr>words = (\<lambda>a. if a = 0x2000 \<or> a = 0x3000 then 0 else w),
     live = [(0x1000, 128), (0x2000, 8), (0x3000, 8)], raw = [],
     malloc_results = [0x4000, 0x5000, 0x6000, 0x7000], sys_states = Map.empty, arenas = ars,
     msgs = Map.empty, mboxes = Map.empty, procs = Map.empty, rq_nodes = Map.empty, run_queues = Map.empty,
     scheds = Map.empty, pools = Map.empty, wargs = Map.empty, ets_entries = Map.empty, ets_tables = Map.empty,
     byte_blocks = Map.empty, atom_entries = Map.empty,
     atom_tables = [0x1000 \<mapsto> \<lparr>at_alloc = vt, at_buckets = 0x2000, at_index_map = 0x3000, at_bucket_count = 1,
       at_count = 0, at_index_map_capacity = 1\<rparr>]\<rparr>"

definition arena_vt :: beam_allocator_i where
  "arena_vt = \<lparr>vt_ctx = 0x8000, vt_alloc = FN_ARENA, vt_realloc = FN_ARENA, vt_free = FN_ARENA\<rparr>"

definition arena_atoms :: atom_machine where
  "arena_atoms = atom_demo arena_vt 0x99 [0x8000 \<mapsto> \<lparr>buffer = 0x9000, capacity = 0x1000, offset = 0, alloc_count = 0\<rparr>]"

lemma atom_abs_demo: "atom_abs 0x1000 (atom_demo sys_vt 0 Map.empty) []"
proof -
  have "atom_rep (atom_demo sys_vt 0 Map.empty) 0x1000 \<lparr>at_alloc = sys_vt, at_buckets = 0x2000, at_index_map = 0x3000,
      at_bucket_count = 1, at_count = 0, at_index_map_capacity = 1\<rparr> (\<lambda>_. []) [] []"
    by (simp add: atom_rep_def atom_demo_def machine_ok_def array_at_def buckets_rep_def atom_objs_def
        apart_def stop_def block_ok_def aligned8_def arenas_apart_def elem_addr_def sys_vt_def vt_ok_def)
  then show ?thesis by (auto simp: atom_abs_def)
qed

lemma atom_demo_intern: "fst (the (beam_atom_intern 0x1000 (Some [111, 107, 0]) (atom_demo sys_vt 0 Map.empty))) \<noteq> 0"
  by (simp add: atom_demo_def sys_vt_def beam_defs Let_def)

lemma atom_demo_write: "fst (the (intern_write_section 0x1000 (Some [111, 107]) 2 (atom_demo sys_vt 0 Map.empty))) \<noteq> 0"
  by (simp add: atom_demo_def sys_vt_def beam_defs Let_def)

lemma atom_eterm_nz: "atom_eterm i \<noteq> 0"
  using atom_tagged(1) [of i] by (auto simp: tag_values)

text \<open>
  C13: the atom table is a list of distinct names. Interning a name returns the atom of its place in the
  list and adds the name at the end when it is new; only then may it fail, and then it leaves the
  list as it was. Growing the index map is part of the operation.
\<close>

theorem atom_intern_refines:
  assumes "atom_abs t m names" "length names < 2 ^ 32" "length s < 2 ^ 60" "is_c_string s"
  shows "\<exists>r m'. beam_atom_intern t (Some (s @ 0 # rest)) m = Some (r, m') \<and>
    (r = 0 \<and> s \<notin> set names \<and> atom_abs t m' names \<or>
     r = atom_eterm (of_nat (atom_no names s)) \<and> atom_abs t m' (interned names s))"
  using assms by (rule intern_run)

theorem atom_intern_refines_witness:
  "\<exists>r m'. beam_atom_intern 0x1000 (Some [111, 107, 0]) (atom_demo sys_vt 0 Map.empty) = Some (r, m') \<and>
    (r = 0 \<and> atom_abs 0x1000 m' [] \<or> r = atom_eterm 0 \<and> atom_abs 0x1000 m' [[111, 107]])"
  using atom_intern_refines [OF atom_abs_demo, of "[111, 107]" "[]"]
  by (simp add: is_c_string_def interned_def atom_no_def)

text \<open>
  C14: an atom that was interned reads back as the name it was interned under, with its terminator, and
  every older atom still reads back as its own name.
\<close>

theorem atom_lookup_intern:
  assumes "atom_abs t m names" "length names < 2 ^ 32" "length s < 2 ^ 60" "is_c_string s"
    "beam_atom_intern t (Some (s @ 0 # rest)) m = Some (r, m')" "r \<noteq> 0"
  shows "(\<exists>p. beam_atom_lookup t r m' = Some p \<and> byte_blocks m' p = Some (s @ [0])) \<and>
    (\<forall>j < length names. \<exists>p. beam_atom_lookup t (atom_eterm (of_nat j)) m' = Some p \<and> byte_blocks m' p = Some (names ! j @ [0]))"
proof (intro conjI allI impI)
  have r: "r = atom_eterm (of_nat (atom_no names s))" and abs: "atom_abs t m' (interned names s)"
    using intern_run [OF assms(1-4), of rest] assms(5,6) by auto
  note no = interned_nth [of names s]
  show "\<exists>p. beam_atom_lookup t r m' = Some p \<and> byte_blocks m' p = Some (s @ [0])"
    using atom_abs_lookup [OF abs, of "atom_no names s"] no r by simp
  show "\<exists>p. beam_atom_lookup t (atom_eterm (of_nat j)) m' = Some p \<and> byte_blocks m' p = Some (names ! j @ [0])"
    if "j < length names" for j
    using atom_abs_lookup [OF abs, of j] that by (cases "s \<in> set names") (simp_all add: interned_def nth_append)
qed

theorem atom_lookup_intern_witness:
  "\<exists>m' p. beam_atom_intern 0x1000 (Some [111, 107, 0]) (atom_demo sys_vt 0 Map.empty) = Some (atom_eterm 0, m') \<and>
    beam_atom_lookup 0x1000 (atom_eterm 0) m' = Some p \<and> byte_blocks m' p = Some [111, 107, 0]"
proof -
  obtain m' where "beam_atom_intern 0x1000 (Some [111, 107, 0]) (atom_demo sys_vt 0 Map.empty) = Some (atom_eterm 0, m')"
    using intern_run [OF atom_abs_demo, of "[111, 107]" "[]"] atom_demo_intern
    by (auto simp: is_c_string_def interned_def atom_no_def)
  then show ?thesis using atom_lookup_intern [OF atom_abs_demo, of "[111, 107]" "[]" "atom_eterm 0" m'] atom_eterm_nz [of 0]
    by (auto simp: is_c_string_def)
qed

text \<open>
  C15: two threads that both missed a name under the shared lock and then run their exclusive sections
  one after the other, with any number of other interns in between, get the same atom: the second one
  finds the entry of the first and changes nothing.
\<close>

theorem atom_intern_race:
  assumes "atom_abs t m names" "length names < 2 ^ 32" "length bs < 2 ^ 60" "unat len = length bs"
    "intern_write_section t (Some (bs @ rest)) len m = Some (r, m1)" "r \<noteq> 0" "atom_abs t m2 (interned names bs @ later)"
  shows "intern_write_section t (Some (bs @ rest')) len m2 = Some (r, m2)"
proof -
  have r: "r = atom_eterm (of_nat (atom_no names bs))" using write_section_run [OF assms(1-4), of rest] assms(5,6) by auto
  obtain tb B as where rep: "atom_rep m2 t tb B as (interned names bs @ later)" using assms(7) by (auto simp: atom_abs_def)
  have "atom_no names bs < length (interned names bs @ later)" "(interned names bs @ later) ! atom_no names bs = bs"
    using interned_nth [of names bs] by (simp_all add: nth_append)
  from read_section_run(2) [OF rep assms(4,3) this, of rest'] show ?thesis using r by (simp add: intern_write_section_def)
qed

theorem atom_intern_race_witness:
  "\<exists>m1. intern_write_section 0x1000 (Some [111, 107]) 2 (atom_demo sys_vt 0 Map.empty) = Some (atom_eterm 0, m1) \<and>
    intern_write_section 0x1000 (Some [111, 107]) 2 m1 = Some (atom_eterm 0, m1)"
proof -
  obtain m1 where m1: "intern_write_section 0x1000 (Some [111, 107]) 2 (atom_demo sys_vt 0 Map.empty) = Some (atom_eterm 0, m1)"
    "atom_abs 0x1000 m1 [[111, 107]]"
    using write_section_run [OF atom_abs_demo, of "[111, 107]" 2 "[]"] atom_demo_write by (auto simp: interned_def atom_no_def)
  then show ?thesis
    using atom_intern_race [OF atom_abs_demo, of "[111, 107]" 2 "[]" "atom_eterm 0" m1 m1 "[]" "[]"] atom_eterm_nz [of 0]
    by (simp add: interned_def)
qed

text \<open>
  On an arena the index map is not copied when it grows, since the arena's realloc only allocates.
  After two interns into a table of capacity one, the lookup of the first atom follows whatever pointer
  the fresh memory held.
\<close>


theorem atom_growth_on_arena:
  "(do { (a, m1) \<leftarrow> beam_atom_intern 0x1000 (Some [97, 0]) arena_atoms;
         (b, m2) \<leftarrow> beam_atom_intern 0x1000 (Some [98, 0]) m1;
         Some (a, b, beam_atom_lookup 0x1000 a m1 = None, beam_atom_lookup 0x1000 a m2 = None) }) =
    Some (atom_eterm 0, atom_eterm 1, False, True)"
  by (simp add: arena_atoms_def arena_vt_def atom_demo_def beam_defs Let_def cong: bind_weak_cong)

lemma intern_name_cong:
  assumes "read_bytes a len = read_bytes b len"
  shows "atom_table_find_entry t (Some a) len m = atom_table_find_entry t (Some b) len m"
    "atom_table_insert t (Some a) len m = atom_table_insert t (Some b) len m"
  unfolding atom_table_find_entry_def atom_table_insert_def option.sel assms by simp_all

lemma intern_section_cong:
  assumes "read_bytes a len = read_bytes b len"
  shows "intern_read_section t (Some a) len m = intern_read_section t (Some b) len m"
    "intern_write_section t (Some a) len m = intern_write_section t (Some b) len m"
  unfolding intern_write_section_def intern_read_section_def intern_name_cong [OF assms] by (rule refl)+

text \<open>
  Interning a terminated string is interning its bytes with their number, from any buffer that starts
  with them; the terminator and what follows it are never looked at.
\<close>

theorem intern_equals_intern_length:
  assumes "is_c_string s"
  shows "beam_atom_intern t (Some (s @ 0 # r)) m = beam_atom_intern_length t (Some (s @ r')) (of_nat (length s)) m"
proof -
  have "unat (of_nat (length s) :: size_t) \<le> length s" by (simp add: unsigned_of_nat)
  then have "read_bytes (s @ 0 # r) (of_nat (length s)) = read_bytes (s @ r') (of_nat (length s))"
    by (simp add: read_bytes_def)
  note C = intern_section_cong [OF this]
  show ?thesis using assms
    by (simp add: beam_atom_intern_def beam_atom_intern_length_def Let_def C)
qed

theorem intern_equals_intern_length_witness:
  "beam_atom_intern 0x1000 (Some [111, 107, 0]) (atom_demo sys_vt 0 Map.empty) =
   beam_atom_intern_length 0x1000 (Some [111, 107, 33]) 2 (atom_demo sys_vt 0 Map.empty)"
  using intern_equals_intern_length [of "[111, 107]" "0x1000" "[]" _ "[33]"] by (simp add: is_c_string_def)

end
