(* ===== verification/Scheduler_Properties.thy ===== *)
theory Scheduler_Properties
  imports Beam_Scheduler "HOL-Library.Multiset"
begin

section \<open>What a scheduler and a pool of workers do to the queue\<close>

text \<open>
  The scheduler takes a process from the run queue, runs it through the emulator and puts it back
  when it was preempted. The lemmas put the contracts of the queue (\<open>rq_deq\<close>, \<open>rq_steal\<close>,
  \<open>rq_enqueue\<close>), of the emulator (safety and frame) and of the reduction counter together into one
  contract of a step, and by induction into one for any interleaving of the rounds of the workers of
  a pool: a round is atomic in the model, because the queue is locked and no two workers hold the
  same process.
\<close>

subsection \<open>Reductions of a run\<close>






subsection \<open>What the queue operations leave alone\<close>

lemma alloc_rq_more:
  fixes m :: "'a rq_machine_scheme"
  shows "call_alloc vt n m = Some (p, m') \<Longrightarrow> rq_machine.more m' = rq_machine.more m"
    "call_free vt p m = Some m' \<Longrightarrow> rq_machine.more m' = rq_machine.more m"
  using procs_frame [OF call_alloc_frame(2)] procs_frame [OF call_free_frame(2)] by blast+

lemma set_state_rq_more:
  fixes m :: "'a rq_machine_scheme"
  shows "beam_process_set_state p st m = Some m' \<Longrightarrow> rq_machine.more m' = rq_machine.more m"
  by (auto simp: beam_process_set_state_def proc_set_def put_proc_def bind_eq_Some_conv split: if_splits)

lemma free_node_rq_more: "free_node vt a m = Some m' \<Longrightarrow> rq_machine.more m' = rq_machine.more m"
  using alloc_rq_more(2) by (fastforce simp: free_node_def bind_eq_Some_conv)


lemma take_rq_more:
  "rq_take levels q m = Some (p, m') \<Longrightarrow> rq_machine.more m' = rq_machine.more m"
  by (auto simp: rq_take_def Let_def bind_eq_Some_conv put_rq_def
      split: if_splits option.splits dest!: free_node_rq_more set_state_rq_more)

lemmas queue_more = take_rq_more [of "[0..<unat BEAM_NUM_PRIORITIES]"] take_rq_more [of "rev [0..<unat BEAM_NUM_PRIORITIES]"]

subsection \<open>Running one process\<close>


subsection \<open>Scheduler steps\<close>





subsection \<open>Rounds of the workers\<close>









subsection \<open>A scheduler for examples\<close>

text \<open>The two processes of the run queue example, a scheduler and a running pool over the same queue.\<close>

definition sched_demo :: "beam_instruction list \<Rightarrow> sched_machine" where
  "sched_demo code = rq_demo (sched_machine.fields
     [0xB0000 \<mapsto> \<lparr>sched_id = 1, sched_run_queue = 0x70000, sched_alloc = sys_vt\<rparr>]
     [0xC0000 \<mapsto> \<lparr>num_workers = 1, schedulers = 0, threads = 0, pool_run_queue = 0x70000,
        pool_code = Some code, running = True, pool_alloc = sys_vt\<rparr>]
     Map.empty)"




subsection \<open>Properties\<close>





text \<open>
  A process that reached the end of its code is put back into the queue, and at NORMAL priority
  whatever its own is. A process of HIGH priority runs to the end of its code in one step; the next
  dequeue returns the NORMAL process that was behind it, and then the finished process once more.
\<close>

theorem finished_process_requeued:
  "(do { (r, m1) \<leftarrow> beam_scheduler_step 0xB0000 (Some [instr 1 0 0 0 0]) (sched_demo []);
         (p1, m2) \<leftarrow> beam_run_queue_dequeue 0x70000 m1;
         (p2, m3) \<leftarrow> beam_run_queue_dequeue 0x70000 m2;
         Some (r, p1, p2) }) = Some (BEAM_OK, 0x10000, 0x40000)"
  by (simp add: sched_demo_def sched_machine.defs rq_demo_def rq_demo1_def rq_empty_def rq_procs2_def rq_procs1_def
      rq_start_def sys_vt_def instr_def upt4 replicate_4 beam_defs Let_def)

definition stale_memory :: sched_machine where
  "stale_memory = \<lparr>words = (\<lambda>_. 0x99), live = [], raw = [], malloc_results = [0x1000, 0x2000, 0],
     sys_states = Map.empty, arenas = Map.empty, msgs = Map.empty, mboxes = Map.empty, procs = Map.empty,
     rq_nodes = Map.empty, run_queues = Map.empty, scheds = Map.empty, pools = Map.empty, wargs = Map.empty\<rparr>"

text \<open>
  The constructor of the pool does not clear the array of schedulers. When the allocation of the
  thread handles fails, its error path destroys whatever pointers the fresh memory held.
\<close>

theorem pool_create_uninitialised: "beam_scheduler_pool_create 1 0x70000 (Some sys_vt) stale_memory = None"
  by (simp add: stale_memory_def sys_vt_def beam_defs Let_def)

end
