(* ===== verification/Name_Table.thy ===== *)
theory Name_Table
  imports Beam_CString Keyed_Store
begin

text \<open>
  The code server and the node table keep names in fields of 64 bytes, search them with
  \<^verbatim>\<open>strcmp\<close> and fill them with \<^verbatim>\<open>strncpy\<close>. The loop and the copy are the same in both components; a
  field that was zeroed holds every name of at most 63 bytes with its terminator.
\<close>

definition name_field :: "u8 list \<Rightarrow> u8 list" where
  "name_field s = s @ 0 # replicate (63 - length s) 0"

definition name_ok :: "u8 list \<Rightarrow> bool" where
  "name_ok s \<longleftrightarrow> is_c_string s \<and> length s \<le> 63"

text \<open>The loop of a search: the first position whose field equals the name.\<close>

fun find_name :: "u8 list list \<Rightarrow> u8 list \<Rightarrow> nat list \<Rightarrow> nat option option" where
  "find_name fs s [] = Some None"
| "find_name fs s (i # is) =
     (if length fs \<le> i then None
      else do {
        eq \<leftarrow> c_streq (fs ! i) s;
        if eq then Some (Some i) else find_name fs s is
      })"

definition set_name :: "u8 list \<Rightarrow> u8 list \<Rightarrow> u8 list option" where
  "set_name field s = c_strncpy field s 63"

lemmas [beam_defs] = set_name_def

definition first_index :: "'a \<Rightarrow> 'a list \<Rightarrow> nat option" where
  "first_index x xs = (if x \<in> set xs then Some (length (takeWhile (\<lambda>y. y \<noteq> x) xs)) else None)"

lemma first_indexD:
  assumes "first_index x xs = Some i"
  shows "i < length xs" "xs ! i = x"
proof -
  have x: "x \<in> set xs" and i: "i = length (takeWhile (\<lambda>y. y \<noteq> x) xs)"
    using assms by (auto simp: first_index_def split: if_splits)
  have "takeWhile (\<lambda>y. y \<noteq> x) xs \<noteq> xs" using x by (metis (mono_tags) takeWhile_eq_all_conv)
  then show less: "i < length xs"
    unfolding i by (metis le_neq_implies_less length_takeWhile_le takeWhile_eq_take take_all_iff order_refl)
  show "xs ! i = x" using nth_length_takeWhile less unfolding i by blast
qed

lemma first_index_None: "first_index x xs = None \<longleftrightarrow> x \<notin> set xs"
  by (simp add: first_index_def)

lemma find_name_run:
  assumes "\<forall>i < length ss. fs ! i = name_field (ss ! i)" "\<forall>s \<in> set ss. name_ok s" "length ss \<le> length fs" "is_c_string s"
  shows "find_name fs (s @ 0 # r) [0..<length ss] = Some (first_index s ss)"
proof -
  have "find_name fs (s @ 0 # r) [k..<length ss] = Some (map_option ((+) k) (first_index s (drop k ss)))" if "k \<le> length ss" for k
    using that
  proof (induction rule: inc_induct)
    case base
    then show ?case by (simp add: first_index_def)
  next
    case (step k)
    have "name_ok (ss ! k)" using assms(2) step.hyps by simp
    then have "c_streq (fs ! k) (s @ 0 # r) = Some (ss ! k = s)"
      using assms(1,4) step.hyps c_streq_string [of "ss ! k" s] by (simp add: name_field_def name_ok_def)
    then show ?case
      using step.IH step.hyps assms(3) by (simp add: upt_conv_Cons Cons_nth_drop_Suc [symmetric] first_index_def)
  qed
  from this [of 0] show ?thesis by (cases "first_index s ss") simp_all
qed

lemma set_name_zeroed: "name_ok s \<Longrightarrow> set_name (replicate 64 0) (s @ 0 # r) = Some (name_field s)"
  using c_strncpy_zeroed [of s 63 r] by (simp add: set_name_def name_ok_def name_field_def)

lemma set_name_cut:
  assumes "is_c_string s" "63 < length s"
  shows "set_name (replicate 64 0) (s @ 0 # r) = Some (name_field (take 63 s))"
  using c_strncpy_string [of s 63 "replicate 64 0" r] assms by (simp add: set_name_def name_field_def)

end
