(* ===== verification/Beam_Code_Server.thy ===== *)
theory Beam_Code_Server
  imports Name_Table Beam_Decode
begin

text \<open>
  The code server, \<^verbatim>\<open>src/emulator/beam_code_server.c\<close>: an array of 128 names and loaded files, filled
  from the front. It owns the files it was given and frees them with itself.
\<close>

subsection \<open>State\<close>

definition MAX_LOADED_MODULES :: nat where "MAX_LOADED_MODULES = 128"

record module_entry =
  me_name :: "u8 list"
  me_file :: ptr

record beam_code_server =
  cs_modules :: "module_entry list"
  cs_count :: size_t
  cs_alloc :: beam_allocator_i

record server_machine = code_machine +
  code_servers :: "ptr \<rightharpoonup> beam_code_server"

definition sizeof_beam_code_server :: size_t where "sizeof_beam_code_server = 9256"

definition put_server :: "ptr \<Rightarrow> beam_code_server \<Rightarrow> 'a server_machine_scheme \<Rightarrow> 'a server_machine_scheme" where
  "put_server cs c m = m\<lparr>code_servers := (code_servers m)(cs \<mapsto> c)\<rparr>"

definition empty_module :: module_entry where
  "empty_module = \<lparr>me_name = replicate 64 0, me_file = 0\<rparr>"

subsection \<open>Operations\<close>

definition beam_code_server_create ::
    "beam_allocator_i option \<Rightarrow> 'a server_machine_scheme \<Rightarrow> (ptr \<times> 'a server_machine_scheme) option" where
  "beam_code_server_create al m =
     (if \<not> alloc_arg_ok al then Some (0, m)
      else do {
        (cs, m1) \<leftarrow> call_alloc (the al) sizeof_beam_code_server m;
        if cs = 0 then Some (0, m1)
        else Some (cs, put_server cs
          \<lparr>cs_modules = replicate MAX_LOADED_MODULES empty_module, cs_count = 0, cs_alloc = the al\<rparr> m1)
      })"

fun destroy_modules :: "module_entry list \<Rightarrow> nat list \<Rightarrow> 'a server_machine_scheme \<Rightarrow> 'a server_machine_scheme option" where
  "destroy_modules es [] m = Some m"
| "destroy_modules es (i # is) m =
     (if length es \<le> i then None
      else do {
        m1 \<leftarrow> (if me_file (es ! i) \<noteq> 0 then beam_file_destroy (me_file (es ! i)) m else Some m);
        destroy_modules es is m1
      })"

definition beam_code_server_destroy :: "ptr \<Rightarrow> 'a server_machine_scheme \<Rightarrow> 'a server_machine_scheme option" where
  "beam_code_server_destroy cs m =
     (if cs = 0 then Some m
      else do {
        c \<leftarrow> code_servers m cs;
        m1 \<leftarrow> destroy_modules (cs_modules c) [0..<unat (cs_count c)] m;
        m2 \<leftarrow> call_free (cs_alloc c) cs m1;
        Some (m2\<lparr>code_servers := (code_servers m2)(cs := None)\<rparr>)
      })"

definition beam_code_server_register_module ::
    "ptr \<Rightarrow> u8 list option \<Rightarrow> ptr \<Rightarrow> 'a server_machine_scheme \<Rightarrow> (beam_result \<times> 'a server_machine_scheme) option" where
  "beam_code_server_register_module cs mod_name file m =
     (if cs = 0 \<or> mod_name = None \<or> file = 0 then Some (BEAM_ERR_INVALID_ARG, m)
      else do {
        c \<leftarrow> code_servers m cs;
        if unat (cs_count c) \<ge> MAX_LOADED_MODULES then Some (BEAM_ERR_NO_MEMORY, m)
        else do {
          found \<leftarrow> find_name (map me_name (cs_modules c)) (the mod_name) [0..<unat (cs_count c)];
          if found \<noteq> None then Some (BEAM_OK, m)
          else do {
            let i = unat (cs_count c);
            nm \<leftarrow> set_name (me_name (cs_modules c ! i)) (the mod_name);
            Some (BEAM_OK, put_server cs
              (c\<lparr>cs_modules := (cs_modules c)[i := \<lparr>me_name = nm, me_file = file\<rparr>], cs_count := cs_count c + 1\<rparr>) m)
          }
        }
      })"

definition beam_code_server_lookup_module ::
    "ptr \<Rightarrow> u8 list option \<Rightarrow> 'a server_machine_scheme \<Rightarrow> ptr option" where
  "beam_code_server_lookup_module cs mod_name m =
     (if cs = 0 \<or> mod_name = None then Some 0
      else do {
        c \<leftarrow> code_servers m cs;
        found \<leftarrow> find_name (map me_name (cs_modules c)) (the mod_name) [0..<unat (cs_count c)];
        Some (case found of None \<Rightarrow> 0 | Some i \<Rightarrow> me_file (cs_modules c ! i))
      })"

definition beam_code_server_module_count :: "ptr \<Rightarrow> 'a server_machine_scheme \<Rightarrow> size_t option" where
  "beam_code_server_module_count cs m = (if cs = 0 then Some 0 else map_option cs_count (code_servers m cs))"

lemmas code_server_defs =
  MAX_LOADED_MODULES_def sizeof_beam_code_server_def put_server_def empty_module_def beam_code_server_create_def
  beam_code_server_destroy_def beam_code_server_register_module_def beam_code_server_lookup_module_def
  beam_code_server_module_count_def

lemmas [beam_defs] = code_server_defs

end
