(* ===== verification/Beam_Node_Table.thy ===== *)
theory Beam_Node_Table
  imports Beam_Code_Server
begin

text \<open>
  The table of distributed nodes, \<^verbatim>\<open>src/global/dist_node.c\<close>: an array of 64 names with a port and a
  flag. Each operation runs under the table's lock and is one atomic step.
\<close>

subsection \<open>State\<close>

definition MAX_DIST_NODES :: nat where "MAX_DIST_NODES = 64"

record dist_node_entry =
  dn_name :: "u8 list"
  dn_port :: u16
  dn_connected :: bool

record beam_node_table =
  nt_nodes :: "dist_node_entry list"
  nt_count :: size_t
  nt_alloc :: beam_allocator_i

record node_machine = server_machine +
  node_tables :: "ptr \<rightharpoonup> beam_node_table"

definition sizeof_beam_node_table :: size_t where "sizeof_beam_node_table = 4448"

definition put_nodes :: "ptr \<Rightarrow> beam_node_table \<Rightarrow> 'a node_machine_scheme \<Rightarrow> 'a node_machine_scheme" where
  "put_nodes nt t m = m\<lparr>node_tables := (node_tables m)(nt \<mapsto> t)\<rparr>"

definition empty_node :: dist_node_entry where
  "empty_node = \<lparr>dn_name = replicate 64 0, dn_port = 0, dn_connected = False\<rparr>"

subsection \<open>Operations\<close>

definition beam_node_table_create ::
    "beam_allocator_i option \<Rightarrow> 'a node_machine_scheme \<Rightarrow> (ptr \<times> 'a node_machine_scheme) option" where
  "beam_node_table_create al m =
     (if \<not> alloc_arg_ok al then Some (0, m)
      else do {
        (nt, m1) \<leftarrow> call_alloc (the al) sizeof_beam_node_table m;
        if nt = 0 then Some (0, m1)
        else Some (nt, put_nodes nt
          \<lparr>nt_nodes = replicate MAX_DIST_NODES empty_node, nt_count = 0, nt_alloc = the al\<rparr> m1)
      })"

definition beam_node_table_destroy :: "ptr \<Rightarrow> 'a node_machine_scheme \<Rightarrow> 'a node_machine_scheme option" where
  "beam_node_table_destroy nt m =
     (if nt = 0 then Some m
      else do {
        t \<leftarrow> node_tables m nt;
        m1 \<leftarrow> call_free (nt_alloc t) nt m;
        Some (m1\<lparr>node_tables := (node_tables m1)(nt := None)\<rparr>)
      })"

definition beam_node_table_connect_port ::
    "ptr \<Rightarrow> u8 list option \<Rightarrow> u16 \<Rightarrow> 'a node_machine_scheme \<Rightarrow> (beam_result \<times> 'a node_machine_scheme) option" where
  "beam_node_table_connect_port nt node_name port m =
     (if nt = 0 \<or> node_name = None then Some (BEAM_ERR_INVALID_ARG, m)
      else do {
        t \<leftarrow> node_tables m nt;
        found \<leftarrow> find_name (map dn_name (nt_nodes t)) (the node_name) [0..<unat (nt_count t)];
        case found of
          Some i \<Rightarrow> Some (BEAM_OK, put_nodes nt
            (t\<lparr>nt_nodes := (nt_nodes t)[i := (nt_nodes t ! i)\<lparr>dn_connected := True, dn_port := port\<rparr>]\<rparr>) m)
        | None \<Rightarrow>
            if unat (nt_count t) \<ge> MAX_DIST_NODES then Some (BEAM_ERR_NO_MEMORY, m)
            else do {
              let i = unat (nt_count t);
              nm \<leftarrow> set_name (dn_name (nt_nodes t ! i)) (the node_name);
              Some (BEAM_OK, put_nodes nt
                (t\<lparr>nt_nodes := (nt_nodes t)[i := \<lparr>dn_name = nm, dn_port = port, dn_connected = True\<rparr>],
                   nt_count := nt_count t + 1\<rparr>) m)
            }
      })"

definition beam_node_table_connect ::
    "ptr \<Rightarrow> u8 list option \<Rightarrow> 'a node_machine_scheme \<Rightarrow> (beam_result \<times> 'a node_machine_scheme) option" where
  "beam_node_table_connect nt node_name m = beam_node_table_connect_port nt node_name 4369 m"

definition beam_node_epmd_register :: "u8 list option \<Rightarrow> u16 \<Rightarrow> beam_result" where
  "beam_node_epmd_register node_name port =
     (if node_name = None \<or> port = 0 then BEAM_ERR_INVALID_ARG else BEAM_OK)"

definition beam_node_table_is_connected :: "ptr \<Rightarrow> u8 list option \<Rightarrow> 'a node_machine_scheme \<Rightarrow> bool option" where
  "beam_node_table_is_connected nt node_name m =
     (if nt = 0 \<or> node_name = None then Some False
      else do {
        t \<leftarrow> node_tables m nt;
        found \<leftarrow> find_name (map dn_name (nt_nodes t)) (the node_name) [0..<unat (nt_count t)];
        Some (case found of None \<Rightarrow> False | Some i \<Rightarrow> dn_connected (nt_nodes t ! i))
      })"

definition beam_node_table_count :: "ptr \<Rightarrow> 'a node_machine_scheme \<Rightarrow> size_t option" where
  "beam_node_table_count nt m = (if nt = 0 then Some 0 else map_option nt_count (node_tables m nt))"

lemmas node_table_defs =
  MAX_DIST_NODES_def sizeof_beam_node_table_def put_nodes_def empty_node_def beam_node_table_create_def
  beam_node_table_destroy_def beam_node_table_connect_port_def beam_node_table_connect_def
  beam_node_epmd_register_def beam_node_table_is_connected_def beam_node_table_count_def

lemmas [beam_defs] = node_table_defs

end
