(* ===== verification/Registry_Refinement.thy ===== *)
theory Registry_Refinement
  imports Beam_Node_Table Load_Properties
begin

text \<open>
  The code server and the node table implement the interface of a keyed store. Both are an array whose
  first entries hold distinct names and whose rest is zero (\<open>registry\<close>), read as a map from names to
  files or ports; names of more than 63 bytes are outside the map.
\<close>

subsection \<open>Arrays of named entries\<close>

definition registry :: "('e \<Rightarrow> u8 list) \<Rightarrow> 'e \<Rightarrow> nat \<Rightarrow> 'e list \<Rightarrow> nat \<Rightarrow> u8 list list \<Rightarrow> bool" where
  "registry nm e0 N es n ss \<longleftrightarrow> length es = N \<and> length ss = n \<and> n \<le> N \<and> distinct ss \<and> (\<forall>s \<in> set ss. name_ok s) \<and>
     (\<forall>i < n. nm (es ! i) = name_field (ss ! i)) \<and> (\<forall>i. n \<le> i \<longrightarrow> i < N \<longrightarrow> es ! i = e0)"

definition registry_map :: "('e \<Rightarrow> 'v) \<Rightarrow> 'e list \<Rightarrow> u8 list list \<Rightarrow> (u8 list \<rightharpoonup> 'v)" where
  "registry_map val es ss s = map_option (\<lambda>i. val (es ! i)) (first_index s ss)"

lemma registry_find:
  assumes "registry nm e0 N es n ss" "is_c_string s"
  shows "find_name (map nm es) (s @ 0 # r) [0..<n] = Some (first_index s ss)"
  using find_name_run [of ss "map nm es" s r] assms by (auto simp: registry_def)

lemma registry_add:
  assumes "registry nm e0 N es n ss" "n < N" "s \<notin> set ss" "name_ok s" "nm e = name_field s"
  shows "registry nm e0 N (es[n := e]) (Suc n) (ss @ [s])"
  using assms by (auto simp: registry_def nth_list_update nth_append)

lemma registry_update:
  assumes "registry nm e0 N es n ss" "i < n" "nm e = nm (es ! i)"
  shows "registry nm e0 N (es[i := e]) n ss"
  using assms by (auto simp: registry_def nth_list_update)

lemma first_index_add: "first_index s (ss @ [t]) = (if s \<in> set ss then first_index s ss else if s = t then Some (length ss) else None)"
proof -
  have "takeWhile (\<lambda>y. y \<noteq> s) (ss @ [t]) = takeWhile (\<lambda>y. y \<noteq> s) ss" if "s \<in> set ss"
    using that by (intro takeWhile_append1) auto
  moreover have "takeWhile (\<lambda>y. y \<noteq> s) (ss @ [s]) = ss" if "s \<notin> set ss" using that by (subst takeWhile_append2) auto
  ultimately show ?thesis by (auto simp: first_index_def)
qed

lemma registry_map_add:
  assumes "registry nm e0 N es n ss" "n < N" "s \<notin> set ss"
  shows "registry_map val (es[n := e]) (ss @ [s]) = (registry_map val es ss)(s \<mapsto> val e)"
proof
  fix t
  have len: "length ss = n" "length es = N" using assms(1) by (simp_all add: registry_def)
  then show "registry_map val (es[n := e]) (ss @ [s]) t = ((registry_map val es ss)(s \<mapsto> val e)) t"
    using assms(2,3) first_indexD(1) [of t ss] first_index_None [of t ss]
    by (cases "first_index t ss") (auto simp: registry_map_def first_index_add nth_list_update)
qed

lemma registry_map_update:
  assumes "registry nm e0 N es n ss" "first_index s ss = Some i"
  shows "registry_map val (es[i := e]) ss = (registry_map val es ss)(s \<mapsto> val e)"
proof
  fix t
  have i: "i < length es" using first_indexD(1) [OF assms(2)] assms(1) by (simp add: registry_def)
  show "registry_map val (es[i := e]) ss t = ((registry_map val es ss)(s \<mapsto> val e)) t"
    using i assms(2) first_indexD(2) [of t ss] first_indexD(2) [OF assms(2)]
    by (cases "first_index t ss") (auto simp: registry_map_def nth_list_update)
qed

lemma registry_empty:
  assumes "nm e0 = replicate 64 0"
  shows "registry nm e0 N (replicate N e0) 0 []"
  by (simp add: registry_def)

subsection \<open>The code server as a map\<close>

definition server_map :: "ptr \<Rightarrow> 'a server_machine_scheme \<Rightarrow> (u8 list \<rightharpoonup> ptr) \<Rightarrow> bool" where
  "server_map cs m f \<longleftrightarrow> cs \<noteq> 0 \<and> (\<exists>c ss. code_servers m cs = Some c \<and>
     registry me_name empty_module MAX_LOADED_MODULES (cs_modules c) (unat (cs_count c)) ss \<and>
     f = registry_map me_file (cs_modules c) ss)"

definition keep_first :: "'v option \<Rightarrow> 'v \<Rightarrow> 'v" where
  "keep_first o' v = (case o' of None \<Rightarrow> v | Some w \<Rightarrow> w)"

definition file_view :: "ptr option \<Rightarrow> ptr" where
  "file_view o' = (case o' of None \<Rightarrow> 0 | Some p \<Rightarrow> p)"

lemma server_register_run:
  assumes "server_map cs m f" "name_ok s"
  shows "\<exists>r m'. beam_code_server_register_module cs (Some (c_string s)) file m = Some (r, m') \<and>
    (r = BEAM_OK \<longleftrightarrow> file \<noteq> 0 \<and> (\<exists>c. code_servers m cs = Some c \<and> unat (cs_count c) < MAX_LOADED_MODULES)) \<and>
    server_map cs m' (if r = BEAM_OK then f(s \<mapsto> keep_first (f s) file) else f)"
proof -
  obtain c ss where c: "cs \<noteq> 0" "code_servers m cs = Some c"
    and R: "registry me_name empty_module MAX_LOADED_MODULES (cs_modules c) (unat (cs_count c)) ss"
    and f: "f = registry_map me_file (cs_modules c) ss" using assms(1) by (auto simp: server_map_def)
  have s: "is_c_string s" using assms(2) by (simp add: name_ok_def)
  note find = registry_find [OF R s, of "[]"]
  consider (bad) "file = 0" | (full) "file \<noteq> 0" "MAX_LOADED_MODULES \<le> unat (cs_count c)"
    | (old) i where "file \<noteq> 0" "unat (cs_count c) < MAX_LOADED_MODULES" "first_index s ss = Some i"
    | (new) "file \<noteq> 0" "unat (cs_count c) < MAX_LOADED_MODULES" "first_index s ss = None"
    by (metis not_le_imp_less not_Some_eq)
  then show ?thesis
  proof cases
    case bad
    then show ?thesis using assms(1) by (simp add: beam_code_server_register_module_def)
  next
    case full
    then show ?thesis using assms(1) c by (simp add: beam_code_server_register_module_def)
  next
    case old
    then have "f(s \<mapsto> keep_first (f s) file) = f" by (auto simp: f registry_map_def keep_first_def)
    then show ?thesis using old assms(1) c find by (simp add: beam_code_server_register_module_def c_string_def)
  next
    case new
    let ?i = "unat (cs_count c)" and ?e = "\<lparr>me_name = name_field s, me_file = file\<rparr>"
    let ?c = "c\<lparr>cs_modules := (cs_modules c)[?i := ?e], cs_count := cs_count c + 1\<rparr>"
    have notin: "s \<notin> set ss" using new(3) by (simp add: first_index_None)
    have "cs_modules c ! ?i = empty_module" using R new(2) by (simp add: registry_def)
    then have nm: "set_name (me_name (cs_modules c ! ?i)) (s @ [0]) = Some (name_field s)"
      using set_name_zeroed [OF assms(2), of "[]"] by (simp add: empty_module_def)
    have cnt: "unat (cs_count c + 1) = Suc ?i"
      using new(2) unat_add_1 [of "cs_count c" 128] by (simp add: MAX_LOADED_MODULES_def)
    have "server_map cs (put_server cs ?c m) (f(s \<mapsto> file))"
      using c(1) registry_add [OF R new(2) notin assms(2), of ?e] registry_map_add [OF R new(2) notin, of me_file ?e] cnt
      by (auto simp: server_map_def put_server_def f)
    moreover have "f s = None" using new(3) by (simp add: f registry_map_def)
    ultimately show ?thesis
      using new c find nm by (simp add: beam_code_server_register_module_def c_string_def keep_first_def)
  qed
qed

lemma server_lookup_run:
  assumes "server_map cs m f" "name_ok s"
  shows "beam_code_server_lookup_module cs (Some (c_string s)) m = Some (file_view (f s))"
proof -
  obtain c ss where c: "cs \<noteq> 0" "code_servers m cs = Some c"
    and R: "registry me_name empty_module MAX_LOADED_MODULES (cs_modules c) (unat (cs_count c)) ss"
    and f: "f = registry_map me_file (cs_modules c) ss" using assms(1) by (auto simp: server_map_def)
  have "is_c_string s" using assms(2) by (simp add: name_ok_def)
  from registry_find [OF R this, of "[]"] c show ?thesis
    by (cases "first_index s ss") (simp_all add: beam_code_server_lookup_module_def c_string_def f registry_map_def file_view_def)
qed

interpretation server: keyed_store "server_map cs" name_ok "\<lambda>s. beam_code_server_register_module cs (Some (c_string s))"
  "\<lambda>s. beam_code_server_lookup_module cs (Some (c_string s))" keep_first file_view
  for cs
  by unfold_locales (use server_register_run in blast, rule server_lookup_run)

subsection \<open>The node table as a map\<close>

definition node_map :: "ptr \<Rightarrow> 'a node_machine_scheme \<Rightarrow> (u8 list \<rightharpoonup> u16) \<Rightarrow> bool" where
  "node_map nt m f \<longleftrightarrow> nt \<noteq> 0 \<and> (\<exists>t ss. node_tables m nt = Some t \<and>
     registry dn_name empty_node MAX_DIST_NODES (nt_nodes t) (unat (nt_count t)) ss \<and>
     (\<forall>i < unat (nt_count t). dn_connected (nt_nodes t ! i)) \<and> f = registry_map dn_port (nt_nodes t) ss)"

lemma node_connect_run:
  assumes "node_map nt m f" "name_ok s"
  shows "\<exists>r m'. beam_node_table_connect_port nt (Some (c_string s)) port m = Some (r, m') \<and>
    node_map nt m' (if r = BEAM_OK then f(s \<mapsto> port) else f)"
proof -
  obtain t ss where t: "nt \<noteq> 0" "node_tables m nt = Some t"
    and R: "registry dn_name empty_node MAX_DIST_NODES (nt_nodes t) (unat (nt_count t)) ss"
    and con: "\<forall>i < unat (nt_count t). dn_connected (nt_nodes t ! i)"
    and f: "f = registry_map dn_port (nt_nodes t) ss" using assms(1) by (auto simp: node_map_def)
  have s: "is_c_string s" using assms(2) by (simp add: name_ok_def)
  note find = registry_find [OF R s, of "[]"]
  have len: "length (nt_nodes t) = MAX_DIST_NODES" "length ss = unat (nt_count t)" "unat (nt_count t) \<le> MAX_DIST_NODES"
    using R by (simp_all add: registry_def)
  consider (full) "MAX_DIST_NODES \<le> unat (nt_count t)" "first_index s ss = None" | (old) i where "first_index s ss = Some i"
    | (new) "unat (nt_count t) < MAX_DIST_NODES" "first_index s ss = None"
    by (metis not_le_imp_less not_Some_eq)
  then show ?thesis
  proof cases
    case full
    then show ?thesis using assms(1) t find by (simp add: beam_node_table_connect_port_def c_string_def)
  next
    case (old i)
    let ?e = "(nt_nodes t ! i)\<lparr>dn_connected := True, dn_port := port\<rparr>"
    have i: "i < unat (nt_count t)" using first_indexD(1) [OF old] len(2) by simp
    have "node_map nt (put_nodes nt (t\<lparr>nt_nodes := (nt_nodes t)[i := ?e]\<rparr>) m) (f(s \<mapsto> port))"
      using t(1) registry_update [OF R i, of ?e] registry_map_update [OF R old, of dn_port ?e] con i len
      by (auto simp: node_map_def put_nodes_def f nth_list_update)
    then show ?thesis using t find old by (simp add: beam_node_table_connect_port_def c_string_def)
  next
    case new
    let ?i = "unat (nt_count t)" and ?e = "\<lparr>dn_name = name_field s, dn_port = port, dn_connected = True\<rparr>"
    let ?t = "t\<lparr>nt_nodes := (nt_nodes t)[?i := ?e], nt_count := nt_count t + 1\<rparr>"
    have notin: "s \<notin> set ss" using new(2) by (simp add: first_index_None)
    have "nt_nodes t ! ?i = empty_node" using R new(1) by (simp add: registry_def)
    then have nm: "set_name (dn_name (nt_nodes t ! ?i)) (s @ [0]) = Some (name_field s)"
      using set_name_zeroed [OF assms(2), of "[]"] by (simp add: empty_node_def)
    have cnt: "unat (nt_count t + 1) = Suc ?i"
      using new(1) unat_add_1 [of "nt_count t" 64] by (simp add: MAX_DIST_NODES_def)
    have "\<forall>i < Suc ?i. dn_connected ((nt_nodes t)[?i := ?e] ! i)" using con len(1) new(1) by (simp add: nth_list_update less_Suc_eq)
    then have "node_map nt (put_nodes nt ?t m) (f(s \<mapsto> port))"
      using t(1) registry_add [OF R new(1) notin assms(2), of ?e] registry_map_add [OF R new(1) notin, of dn_port ?e] cnt
      by (auto simp: node_map_def put_nodes_def f)
    then show ?thesis using new t find nm by (simp add: beam_node_table_connect_port_def c_string_def)
  qed
qed

lemma node_connected_run:
  assumes "node_map nt m f" "name_ok s"
  shows "beam_node_table_is_connected nt (Some (c_string s)) m = Some (f s \<noteq> None)"
proof -
  obtain t ss where t: "nt \<noteq> 0" "node_tables m nt = Some t"
    and R: "registry dn_name empty_node MAX_DIST_NODES (nt_nodes t) (unat (nt_count t)) ss"
    and con: "\<forall>i < unat (nt_count t). dn_connected (nt_nodes t ! i)"
    and f: "f = registry_map dn_port (nt_nodes t) ss" using assms(1) by (auto simp: node_map_def)
  have "is_c_string s" using assms(2) by (simp add: name_ok_def)
  note find = registry_find [OF R this, of "[]"]
  have "length ss = unat (nt_count t)" using R by (simp add: registry_def)
  then show ?thesis
    using find t con first_indexD(1) [of s ss]
    by (cases "first_index s ss") (simp_all add: beam_node_table_is_connected_def c_string_def f registry_map_def)
qed

interpretation nodes: keyed_store "node_map nt" name_ok "\<lambda>s. beam_node_table_connect_port nt (Some (c_string s))"
  "\<lambda>s. beam_node_table_is_connected nt (Some (c_string s))" "\<lambda>_ v. v" "\<lambda>o'. o' \<noteq> None"
  for nt
  by unfold_locales (rule node_connect_run, assumption+, rule node_connected_run)

subsection \<open>Properties\<close>

definition registry_demo :: node_machine where
  "registry_demo = \<lparr>words = (\<lambda>_. 0), live = [], raw = [], malloc_results = [], sys_states = Map.empty,
     arenas = Map.empty, msgs = Map.empty, mboxes = Map.empty, procs = Map.empty, rq_nodes = Map.empty,
     run_queues = Map.empty, scheds = Map.empty, pools = Map.empty, wargs = Map.empty, ets_entries = Map.empty,
     ets_tables = Map.empty, byte_blocks = Map.empty, atom_entries = Map.empty, atom_tables = Map.empty,
     beam_files = Map.empty, beam_modules = Map.empty, instr_arrays = Map.empty,
     code_servers = [0x1000 \<mapsto> \<lparr>cs_modules = replicate MAX_LOADED_MODULES empty_module, cs_count = 0, cs_alloc = sys_vt\<rparr>],
     node_tables = [0x2000 \<mapsto> \<lparr>nt_nodes = replicate MAX_DIST_NODES empty_node, nt_count = 0, nt_alloc = sys_vt\<rparr>]\<rparr>"

lemma registry_demo_maps: "server_map 0x1000 registry_demo Map.empty" "node_map 0x2000 registry_demo Map.empty"
  by (auto simp: server_map_def node_map_def registry_demo_def registry_def registry_map_def first_index_def)

text \<open>
  C20: the code server is a map from names of at most 63 bytes to files that keeps the first file of a
  name. A registration succeeds exactly when it has a file and the array has room; after it a lookup of
  the name returns the first file registered under it, and lookups of other names are as before.
\<close>

theorem code_server_lookup_register:
  assumes "server_map cs m f" "name_ok s"
  shows "\<exists>r m'. beam_code_server_register_module cs (Some (c_string s)) file m = Some (r, m') \<and>
    (r = BEAM_OK \<longleftrightarrow> file \<noteq> 0 \<and> (\<exists>c. code_servers m cs = Some c \<and> unat (cs_count c) < MAX_LOADED_MODULES)) \<and>
    (\<exists>g. server_map cs m' g) \<and>
    (\<forall>t. name_ok t \<longrightarrow> beam_code_server_lookup_module cs (Some (c_string t)) m' =
      (if r = BEAM_OK \<and> t = s \<and> f s = None then Some file else beam_code_server_lookup_module cs (Some (c_string t)) m))"
proof -
  obtain r m' where run: "beam_code_server_register_module cs (Some (c_string s)) file m = Some (r, m')"
    "r = BEAM_OK \<longleftrightarrow> file \<noteq> 0 \<and> (\<exists>c. code_servers m cs = Some c \<and> unat (cs_count c) < MAX_LOADED_MODULES)"
    and g: "server_map cs m' (if r = BEAM_OK then f(s \<mapsto> keep_first (f s) file) else f)"
    using server_register_run [OF assms] by blast
  have "beam_code_server_lookup_module cs (Some (c_string t)) m' =
      (if r = BEAM_OK \<and> t = s \<and> f s = None then Some file else beam_code_server_lookup_module cs (Some (c_string t)) m)"
    if "name_ok t" for t
    using server.get_run [OF g that] server.get_run [OF assms(1) that]
    by (auto simp: file_view_def keep_first_def split: option.splits)
  with run g show ?thesis by blast
qed

theorem code_server_lookup_register_witness:
  "\<exists>m'. beam_code_server_register_module 0x1000 (Some (c_string [0x61])) 0x5000 registry_demo = Some (BEAM_OK, m') \<and>
    beam_code_server_lookup_module 0x1000 (Some (c_string [0x61])) m' = Some 0x5000 \<and>
    beam_code_server_lookup_module 0x1000 (Some (c_string [0x62])) m' = beam_code_server_lookup_module 0x1000 (Some (c_string [0x62])) registry_demo"
proof -
  have ok: "name_ok [0x61]" "name_ok [0x62]" by (simp_all add: name_ok_def is_c_string_def)
  have "\<exists>c. code_servers registry_demo 0x1000 = Some c \<and> unat (cs_count c) < MAX_LOADED_MODULES"
    by (simp add: registry_demo_def MAX_LOADED_MODULES_def)
  then show ?thesis
    using code_server_lookup_register [OF registry_demo_maps(1) ok(1), of "0x5000"] ok by fastforce
qed

text \<open>
  A name of more than 63 bytes is cut off when it is registered, so a lookup does not find it: the
  registration reports success and the lookup returns null.
\<close>

theorem code_server_truncates:
  assumes "server_map cs m f" "is_c_string s" "63 < length s" "file \<noteq> 0" "code_servers m cs = Some c"
    "unat (cs_count c) < MAX_LOADED_MODULES"
  shows "\<exists>m'. beam_code_server_register_module cs (Some (c_string s)) file m = Some (BEAM_OK, m') \<and>
    beam_code_server_lookup_module cs (Some (c_string s)) m' = Some 0"
proof -
  obtain ss where cs: "cs \<noteq> 0" and R: "registry me_name empty_module MAX_LOADED_MODULES (cs_modules c) (unat (cs_count c)) ss"
    using assms(1,5) by (auto simp: server_map_def)
  let ?i = "unat (cs_count c)" and ?e = "\<lparr>me_name = name_field (take 63 s), me_file = file\<rparr>"
  let ?ss = "ss @ [take 63 s]"
  have ok: "\<forall>n \<in> set ?ss. name_ok n"
    using R assms(2) by (auto simp: registry_def name_ok_def is_c_string_def dest: in_set_takeD)
  have "length (take 63 s) \<noteq> length s" using assms(3) by simp
  then have notin: "s \<notin> set ?ss" using ok assms(3) by (auto simp: name_ok_def simp del: length_take)
  have find: "find_name (map me_name (cs_modules c)) (s @ [0]) [0..<?i] = Some None"
    using registry_find [OF R assms(2), of "[]"] notin by (simp add: first_index_def)
  have "cs_modules c ! ?i = empty_module" using R assms(6) by (simp add: registry_def)
  then have nm: "set_name (me_name (cs_modules c ! ?i)) (s @ [0]) = Some (name_field (take 63 s))"
    using set_name_cut [OF assms(2,3), of "[]"] by (simp add: empty_module_def)
  have cnt: "unat (cs_count c + 1) = Suc ?i"
    using assms(6) unat_add_1 [of "cs_count c" 128] by (simp add: MAX_LOADED_MODULES_def)
  have "find_name (map me_name ((cs_modules c)[?i := ?e])) (s @ [0]) [0..<length ?ss] = Some (first_index s ?ss)"
    by (rule find_name_run) (use R assms(2,6) ok in \<open>auto simp: registry_def nth_list_update nth_append less_Suc_eq\<close>)
  then have "find_name (map me_name ((cs_modules c)[?i := ?e])) (s @ [0]) [0..<Suc ?i] = Some None"
    using notin R by (simp add: first_index_None registry_def del: upt_Suc)
  then show ?thesis
    using cs assms(4-6) find nm cnt
    by (simp add: beam_code_server_register_module_def beam_code_server_lookup_module_def c_string_def put_server_def del: upt_Suc)
qed

theorem code_server_truncates_witness:
  "\<exists>m'. beam_code_server_register_module 0x1000 (Some (c_string (replicate 64 0x61))) 0x5000 registry_demo = Some (BEAM_OK, m') \<and>
    beam_code_server_lookup_module 0x1000 (Some (c_string (replicate 64 0x61))) m' = Some 0"
proof -
  have "\<exists>c. code_servers registry_demo 0x1000 = Some c \<and> unat (cs_count c) < MAX_LOADED_MODULES"
    by (simp add: registry_demo_def MAX_LOADED_MODULES_def)
  moreover have "is_c_string (replicate 64 0x61)" "63 < length (replicate 64 (0x61 :: u8))" by (simp_all add: is_c_string_def)
  ultimately show ?thesis
    using code_server_truncates [OF registry_demo_maps(1), of "replicate 64 0x61" "0x5000"] by auto
qed

text \<open>
  The node table is a map of connected nodes: after an accepted connect its node is reported as
  connected, and every other node as before.
\<close>

theorem node_table_connects:
  assumes "node_map nt m f" "name_ok s" "name_ok t"
  shows "\<exists>r m'. beam_node_table_connect_port nt (Some (c_string s)) port m = Some (r, m') \<and> (\<exists>g. node_map nt m' g) \<and>
    beam_node_table_is_connected nt (Some (c_string t)) m' =
      (if r = BEAM_OK \<and> t = s then Some True else beam_node_table_is_connected nt (Some (c_string t)) m)"
proof -
  obtain r m' where run: "beam_node_table_connect_port nt (Some (c_string s)) port m = Some (r, m')"
    and g: "node_map nt m' (if r = BEAM_OK then f(s \<mapsto> port) else f)"
    using nodes.put_run [OF assms(1,2)] by blast
  with nodes.get_run [OF g assms(3)] nodes.get_run [OF assms(1,3)] show ?thesis by auto
qed

end
