(* ===== verification/Beam_GC.thy ===== *)
theory Beam_GC
  imports Process_Lifecycle
begin

text \<open>
  The garbage collector, \<^verbatim>\<open>src/memory/beam_gc.c\<close>: it copies the terms reachable from the registers and
  the stack of a process into a new heap of the same size and frees the old one. The copy is
  recursive and keeps no forwarding pointers. The first argument of the model's copy bounds the depth
  of the recursion, the frames on the C stack; \<open>None\<close> is a recursion that goes deeper or an access to
  memory that is not in use.
\<close>

subsection \<open>Copying a term\<close>

text \<open>The loop over the elements of a tuple; \<open>copy\<close> is the recursive call.\<close>

fun copy_elems ::
    "(eterm \<Rightarrow> size_t \<Rightarrow> 'a machine_scheme \<Rightarrow> (eterm \<times> size_t \<times> 'a machine_scheme) option) \<Rightarrow> ptr \<Rightarrow> eterm \<Rightarrow>
     size_t \<Rightarrow> nat list \<Rightarrow> size_t \<Rightarrow> 'a machine_scheme \<Rightarrow> (size_t \<times> 'a machine_scheme) option" where
  "copy_elems copy to_space t new_idx [] to_top m = Some (to_top, m)"
| "copy_elems copy to_space t new_idx (i # is) to_top m = do {
     elem \<leftarrow> beam_tuple_element m t (of_nat i);
     (v, top1, m1) \<leftarrow> copy elem to_top m;
     m2 \<leftarrow> wr (to_space + 8 * (new_idx + 1 + of_nat i)) v m1;
     copy_elems copy to_space t new_idx is top1 m2
   }"

primrec gc_copy_term ::
    "nat \<Rightarrow> ptr \<Rightarrow> size_t \<Rightarrow> eterm \<Rightarrow> size_t \<Rightarrow> 'a machine_scheme \<Rightarrow> (eterm \<times> size_t \<times> 'a machine_scheme) option" where
  "gc_copy_term 0 to_space to_cap t to_top m = None"
| "gc_copy_term (Suc depth) to_space to_cap t to_top m =
     (if beam_is_small_int t \<or> beam_is_atom t \<or> beam_is_nil t then Some (t, to_top, m)
      else do {
        tuple \<leftarrow> beam_is_tuple m t;
        if tuple then do {
          arity \<leftarrow> beam_tuple_arity m t;
          let words_needed = arity + 1;
          if to_top + words_needed > to_cap then Some (t, to_top, m)
          else do {
            m1 \<leftarrow> wr (to_space + 8 * to_top) (make_small_int arity) m;
            (top1, m2) \<leftarrow> copy_elems (gc_copy_term depth to_space to_cap) to_space t to_top
              [0..<unat arity] (to_top + words_needed) m1;
            Some (to_space + 8 * to_top OR TAG_PRIMARY_BOXED, top1, m2)
          }
        } else if beam_is_list t then
          (if to_top + 2 > to_cap then Some (t, to_top, m)
           else do {
             hd_term \<leftarrow> beam_list_head m t;
             tl_term \<leftarrow> beam_list_tail m t;
             (h, top1, m1) \<leftarrow> gc_copy_term depth to_space to_cap hd_term (to_top + 2) m;
             m2 \<leftarrow> wr (to_space + 8 * to_top) h m1;
             (tl', top2, m3) \<leftarrow> gc_copy_term depth to_space to_cap tl_term top1 m2;
             m4 \<leftarrow> wr (to_space + 8 * (to_top + 1)) tl' m3;
             Some (to_space + 8 * to_top OR TAG_PRIMARY_LIST, top2, m4)
           })
        else Some (t, to_top, m)
      })"

subsection \<open>Collecting a process\<close>

fun copy_regs ::
    "nat \<Rightarrow> ptr \<Rightarrow> size_t \<Rightarrow> eterm list \<Rightarrow> size_t \<Rightarrow> 'a machine_scheme \<Rightarrow>
     (eterm list \<times> size_t \<times> 'a machine_scheme) option" where
  "copy_regs depth to_space cap [] to_top m = Some ([], to_top, m)"
| "copy_regs depth to_space cap (x # xs) to_top m = do {
     (x', top1, m1) \<leftarrow> (if x \<noteq> 0 then gc_copy_term depth to_space cap x to_top m else Some (x, to_top, m));
     (xs', top2, m2) \<leftarrow> copy_regs depth to_space cap xs top1 m1;
     Some (x' # xs', top2, m2)
   }"

fun copy_stack ::
    "nat \<Rightarrow> ptr \<Rightarrow> ptr \<Rightarrow> size_t \<Rightarrow> size_t \<Rightarrow> nat list \<Rightarrow> size_t \<Rightarrow> 'a machine_scheme \<Rightarrow>
     (size_t \<times> 'a machine_scheme) option" where
  "copy_stack depth to_space hp old_cap new_cap [] to_top m = Some (to_top, m)"
| "copy_stack depth to_space hp old_cap new_cap (s # ss) to_top m = do {
     let offset_from_bottom = old_cap - of_nat s;
     let to_stack_idx = new_cap - offset_from_bottom;
     t \<leftarrow> rd m (hp + 8 * of_nat s);
     (t', top1, m1) \<leftarrow> gc_copy_term depth to_space new_cap t to_top m;
     m2 \<leftarrow> wr (to_space + 8 * to_stack_idx) t' m1;
     copy_stack depth to_space hp old_cap new_cap ss top1 m2
   }"

definition beam_gc_collect_process ::
    "nat \<Rightarrow> ptr \<Rightarrow> 'a proc_machine_scheme \<Rightarrow> (beam_result \<times> 'a proc_machine_scheme) option" where
  "beam_gc_collect_process depth proc m =
     (if proc = 0 then Some (BEAM_ERR_INVALID_ARG, m)
      else do {
        pr \<leftarrow> procs m proc;
        if heap pr = 0 then Some (BEAM_ERR_INVALID_ARG, m)
        else do {
          let old_cap = heap_capacity pr;
          let new_cap = old_cap;
          (to_space, m1) \<leftarrow> call_alloc (proc_alloc pr) (8 * new_cap) m;
          if to_space = 0 then Some (BEAM_ERR_NO_MEMORY, m1)
          else do {
            (xs, top1, m2) \<leftarrow> copy_regs depth to_space new_cap (x_regs (frame pr)) 0 m1;
            let new_stack_top = new_cap - (old_cap - stack_top pr);
            (top2, m3) \<leftarrow> copy_stack depth to_space (heap pr) old_cap new_cap
              [unat (stack_top pr)..<unat old_cap] top1 m2;
            m4 \<leftarrow> call_free (proc_alloc pr) (heap pr) m3;
            Some (BEAM_OK, put_proc proc
              (pr\<lparr>heap := to_space, heap_capacity := new_cap, heap_top := top2, stack_top := new_stack_top,
                  frame := (frame pr)\<lparr>x_regs := xs\<rparr>\<rparr>) m4)
          }
        }
      })"

lemmas [beam_defs] = beam_gc_collect_process_def

end
