(* ===== verification/GC_Copy.thy ===== *)
theory GC_Copy
  imports Beam_GC Bucket_Array
begin

text \<open>
  What the copying collector writes and that it copies lists faithfully. A copy only writes the part of
  the new heap between the old and the new top (\<open>extends\<close>, \<open>gc_copy_frame\<close>); a tree of list cells and
  immediate terms (\<open>tm_at\<close>) is found again in that part. The last section puts the copies of all
  registers and stack slots together.
\<close>

declare gc_copy_term.simps(2) [simp del]

subsection \<open>What a copy writes\<close>

definition slots :: "ptr \<Rightarrow> nat \<Rightarrow> nat \<Rightarrow> ptr set" where
  "slots base i j = elem_addr base ` {i..<j}"

definition extends :: "ptr set \<Rightarrow> 'a machine_scheme \<Rightarrow> 'a machine_scheme \<Rightarrow> bool" where
  "extends S m m' \<longleftrightarrow> (\<exists>w. m' = m\<lparr>words := w\<rparr> \<and> (\<forall>a. a \<notin> S \<longrightarrow> w a = words m a))"

lemma slots_mono: "i' \<le> i \<Longrightarrow> j \<le> j' \<Longrightarrow> slots base i j \<subseteq> slots base i' j'"
  by (auto simp: slots_def)

lemma extends_refl [simp]: "extends S m m"
  by (auto simp: extends_def intro!: exI [of _ "words m"])

lemma extends_trans: "extends S m m1 \<Longrightarrow> extends S' m1 m2 \<Longrightarrow> S \<union> S' \<subseteq> U \<Longrightarrow> extends U m m2"
  by (auto simp: extends_def) (metis (no_types, lifting) Un_subset_iff subsetD)

lemma extends_wr: "wr p v m = Some m' \<Longrightarrow> p \<in> S \<Longrightarrow> extends S m m'"
  by (auto simp: extends_def wr_Some_iff)

lemma extendsD:
  assumes "extends S m m'"
  shows "a \<notin> S \<Longrightarrow> words m' a = words m a" "live m' = live m" "machine_ok m' = machine_ok m" "array_at m' b n = array_at m b n"
    "accessible m' p = accessible m p" "machine.more m' = machine.more m" "vt_ok vt m' = vt_ok vt m"
proof -
  obtain w where w: "m' = m\<lparr>words := w\<rparr>" "\<forall>a. a \<notin> S \<longrightarrow> w a = words m a" using assms by (auto simp: extends_def)
  show "machine_ok m' = machine_ok m" by (rule machine_ok_cong) (simp_all add: w(1))
  show "vt_ok vt m' = vt_ok vt m" by (rule vt_ok_cong) (simp_all add: w(1))
qed (use assms in \<open>auto simp: extends_def array_at_def\<close>)

lemma slots_disjoint:
  assumes "machine_ok m" "array_at m base n" "j \<le> i' \<or> j' \<le> i" "j \<le> n" "j' \<le> n"
  shows "slots base i j \<inter> slots base i' j' = {}"
  using elem_addr_inj [OF array_atD(2) [OF assms(1,2)]] assms(3-5) unfolding slots_def by (fastforce simp: less_le_trans)

lemma elem_addr_word: "base + 8 * to_top = elem_addr base (unat to_top)"
  by (simp add: elem_addr_def)

text \<open>Adding to an index that stays below a bound does not wrap around.\<close>

lemma index_add:
  fixes to_top cap :: size_t
  assumes "unat cap < 2 ^ 60" "unat to_top \<le> unat cap" "n < 2 ^ 60"
  shows "unat (to_top + of_nat n) = unat to_top + n"
proof -
  have "unat (of_nat n :: size_t) = n" using assms(3) by (intro unat_of_nat_small) simp
  then show ?thesis using assms by (subst unat_add_no_wrap) simp_all
qed

definition copy_ok :: "ptr \<Rightarrow> size_t \<Rightarrow> (eterm \<Rightarrow> size_t \<Rightarrow> 'a machine_scheme \<Rightarrow> (eterm \<times> size_t \<times> 'a machine_scheme) option) \<Rightarrow> bool" where
  "copy_ok ts cap copy \<longleftrightarrow> (\<forall>t to_top m t' to_top' m'. copy t to_top m = Some (t', to_top', m') \<longrightarrow> unat to_top \<le> unat cap \<longrightarrow>
     unat to_top \<le> unat to_top' \<and> unat to_top' \<le> unat cap \<and> extends (slots ts (unat to_top) (unat to_top')) m m')"

lemma copy_elems_frame:
  assumes copy: "copy_ok ts cap copy" and cap: "unat cap < 2 ^ 60"
  shows "copy_elems copy ts t new_idx is to_top m = Some (to_top', m') \<Longrightarrow> \<forall>i \<in> set is. i < n \<Longrightarrow> n < 2 ^ 59 \<Longrightarrow>
    unat new_idx + n + 1 \<le> unat to_top \<Longrightarrow> unat to_top \<le> unat cap \<Longrightarrow>
    unat to_top \<le> unat to_top' \<and> unat to_top' \<le> unat cap \<and> extends (slots ts (unat new_idx + 1) (unat to_top')) m m'"
proof (induction "is" arbitrary: to_top m)
  case Nil
  then show ?case by simp
next
  case (Cons i "is")
  obtain e v top1 m1 m2 where run: "beam_tuple_element m t (of_nat i) = Some e" "copy e to_top m = Some (v, top1, m1)"
    "wr (ts + 8 * (new_idx + 1 + of_nat i)) v m1 = Some m2" "copy_elems copy ts t new_idx is top1 m2 = Some (to_top', m')"
    using Cons.prems(1) by (auto simp: bind_eq_Some_conv)
  have A: "unat to_top \<le> unat top1" "unat top1 \<le> unat cap" "extends (slots ts (unat to_top) (unat top1)) m m1"
    using copy run(2) Cons.prems(5) unfolding copy_ok_def by blast+
  have B: "unat top1 \<le> unat to_top'" "unat to_top' \<le> unat cap" "extends (slots ts (unat new_idx + 1) (unat to_top')) m2 m'"
    using Cons.IH [OF run(4)] Cons.prems A by auto
  have "ts + 8 * (new_idx + 1 + of_nat i) = elem_addr ts (unat new_idx + 1 + i)" by (simp add: elem_addr_def)
  moreover have "elem_addr ts (unat new_idx + 1 + i) \<in> slots ts (unat new_idx + 1) (unat to_top')"
    unfolding slots_def using Cons.prems A(1) B(1) by (intro imageI) auto
  ultimately have W: "extends (slots ts (unat new_idx + 1) (unat to_top')) m1 m2" using extends_wr [OF run(3)] by simp
  have "slots ts (unat to_top) (unat top1) \<subseteq> slots ts (unat new_idx + 1) (unat to_top')"
    using Cons.prems B(1) by (intro slots_mono) auto
  then have "extends (slots ts (unat new_idx + 1) (unat to_top')) m m'"
    using extends_trans [OF extends_trans [OF A(3) W, of "slots ts (unat new_idx + 1) (unat to_top')"] B(3)] by simp
  then show ?case using A B by simp
qed

lemma drop_6_less: "unat (drop_bit 6 (w :: 64 word)) < 2 ^ 58"
proof -
  have w: "unat w < 2 ^ 64" using unsigned_less [of w] by simp
  then have "unat (drop_bit 6 w) = unat w div 64"
    by (simp only: unsigned_drop_bit_eq) (simp add: drop_bit_eq_div take_bit_nat_eq_self)
  then show ?thesis using w by simp
qed

lemma tuple_arity_less:
  assumes "beam_tuple_arity m t = Some n"
  shows "unat n < 2 ^ 58"
  using assms drop_6_less by (auto simp: beam_tuple_arity_def bind_eq_Some_conv split: if_splits)

text \<open>The three ways a copy can go: the term is returned as it is, or it is a tuple or a list cell with room for it.\<close>

lemma gc_copy_cases:
  assumes run: "gc_copy_term (Suc depth) ts cap t to_top m = Some (t', to_top', m')"
    and cap: "unat cap < 2 ^ 60" and le: "unat to_top \<le> unat cap"
  obtains (same) "t' = t" "to_top' = to_top" "m' = m"
    | (tuple) n m1 where "beam_tuple_arity m t = Some (of_nat n)" "unat to_top + n + 1 \<le> unat cap" "n < 2 ^ 58"
        "wr (elem_addr ts (unat to_top)) (make_small_int (of_nat n)) m = Some m1"
        "copy_elems (gc_copy_term depth ts cap) ts t to_top [0..<n] (to_top + of_nat (Suc n)) m1 = Some (to_top', m')"
        "t' = elem_addr ts (unat to_top) OR TAG_PRIMARY_BOXED"
    | (cell) x y h top1 m1 m2 t2 m3 where "beam_is_list t" "unat to_top + 2 \<le> unat cap"
        "gc_copy_term depth ts cap x (to_top + of_nat 2) m = Some (h, top1, m1)"
        "wr (elem_addr ts (unat to_top)) h m1 = Some m2" "gc_copy_term depth ts cap y top1 m2 = Some (t2, to_top', m3)"
        "wr (elem_addr ts (unat to_top + 1)) t2 m3 = Some m'"
proof (cases "beam_is_small_int t \<or> beam_is_atom t \<or> beam_is_nil t")
  case True
  then show thesis using run same by (simp add: gc_copy_term.simps(2))
next
  case imm: False
  obtain b where b: "beam_is_tuple m t = Some b" using run imm by (auto simp: gc_copy_term.simps(2) bind_eq_Some_conv)
  have up: "elem_addr ts (unat to_top + 1) = ts + 8 * (to_top + 1)" "elem_addr ts (unat to_top) = ts + 8 * to_top"
    by (simp_all add: elem_addr_def)
  show thesis
  proof (cases b)
    case True
    obtain n where n: "beam_tuple_arity m t = Some n" using run imm b True by (auto simp: gc_copy_term.simps(2) bind_eq_Some_conv)
    note n58 = tuple_arity_less [OF n]
    have sum: "unat (to_top + (n + 1)) = unat to_top + unat n + 1"
      using index_add [OF cap le, of "Suc (unat n)"] n58 by (simp add: algebra_simps)
    show thesis
    proof (cases "to_top + (n + 1) > cap")
      case True
      then show thesis using run imm b n \<open>b\<close> same by (simp add: gc_copy_term.simps(2))
    next
      case False
      then have fits: "unat to_top + unat n + 1 \<le> unat cap" using sum by (simp add: not_less word_le_nat_alt)
      obtain m1 where "wr (ts + 8 * to_top) (make_small_int n) m = Some m1"
        "copy_elems (gc_copy_term depth ts cap) ts t to_top [0..<unat n] (to_top + (n + 1)) m1 = Some (to_top', m')"
        "t' = ts + 8 * to_top OR TAG_PRIMARY_BOXED"
        using run imm b n \<open>b\<close> False by (auto simp: gc_copy_term.simps(2) bind_eq_Some_conv)
      then show thesis using tuple [of "unat n" m1] n n58 fits up(2) by (simp add: algebra_simps)
    qed
  next
    case nb: False
    have sum: "unat (to_top + 2) = unat to_top + 2" using index_add [OF cap le, of 2] by simp
    show thesis
    proof (cases "beam_is_list t \<and> \<not> to_top + 2 > cap")
      case True
      then have "unat to_top + 2 \<le> unat cap" using sum by (simp add: not_less word_le_nat_alt)
      moreover obtain x y h top1 m1 m2 t2 m3 where "gc_copy_term depth ts cap x (to_top + 2) m = Some (h, top1, m1)"
        "wr (ts + 8 * to_top) h m1 = Some m2" "gc_copy_term depth ts cap y top1 m2 = Some (t2, to_top', m3)"
        "wr (ts + 8 * (to_top + 1)) t2 m3 = Some m'"
        using run imm b nb True by (auto simp: gc_copy_term.simps(2) bind_eq_Some_conv)
      ultimately show thesis using True cell [of x h top1 m1 m2 y t2 m3] up by simp
    next
      case False
      then show thesis using run imm b nb same by (auto simp: gc_copy_term.simps(2) split: if_splits)
    qed
  qed
qed

lemma gc_copy_frame: "unat cap < 2 ^ 60 \<Longrightarrow> copy_ok ts cap (gc_copy_term depth ts cap)"
proof (induction depth)
  case 0
  then show ?case by (simp add: copy_ok_def)
next
  case (Suc depth)
  note copy = Suc.IH [OF Suc.prems]
  show ?case
    unfolding copy_ok_def
  proof (intro allI impI)
    fix t to_top m t' to_top' and m' :: "'a machine_scheme"
    assume run: "gc_copy_term (Suc depth) ts cap t to_top m = Some (t', to_top', m')" and to_top: "unat to_top \<le> unat cap"
    show "unat to_top \<le> unat to_top' \<and> unat to_top' \<le> unat cap \<and> extends (slots ts (unat to_top) (unat to_top')) m m'"
    using run Suc.prems to_top
    proof (cases rule: gc_copy_cases)
      case same
      then show ?thesis using to_top by simp
    next
      case (tuple n m1)
      have t1: "unat (to_top + of_nat (Suc n)) = unat to_top + Suc n" using tuple(2,3) Suc.prems to_top by (intro index_add) auto
      have F: "unat to_top + Suc n \<le> unat to_top'" "unat to_top' \<le> unat cap" "extends (slots ts (unat to_top + 1) (unat to_top')) m1 m'"
        using copy_elems_frame [OF copy Suc.prems tuple(5), of n] tuple(2,3) t1 by auto
      have "extends (slots ts (unat to_top) (unat to_top')) m m1"
        by (rule extends_wr [OF tuple(4)]) (use F(1) in \<open>auto simp: slots_def\<close>)
      then have "extends (slots ts (unat to_top) (unat to_top')) m m'"
        using F(3) by (rule extends_trans) (simp add: slots_mono)
      then show ?thesis using F by simp
    next
      case (cell x y h top1 m1 m2 t2 m3)
      have t1: "unat (to_top + of_nat 2) = unat to_top + 2" using cell(2) Suc.prems to_top by (intro index_add) auto
      have A: "unat to_top + 2 \<le> unat top1" "unat top1 \<le> unat cap" "extends (slots ts (unat to_top + 2) (unat top1)) m m1"
        using copy cell(3) t1 cell(2) unfolding copy_ok_def by fastforce+
      have B: "unat top1 \<le> unat to_top'" "unat to_top' \<le> unat cap" "extends (slots ts (unat top1) (unat to_top')) m2 m3"
        using copy cell(5) A(2) unfolding copy_ok_def by blast+
      let ?S = "slots ts (unat to_top) (unat to_top')"
      have W: "extends ?S m1 m2" "extends ?S m3 m'"
        by (rule extends_wr [OF cell(4)] extends_wr [OF cell(6)]; use A(1) B(1) in \<open>auto simp: slots_def\<close>)+
      have sub: "slots ts (unat to_top + 2) (unat top1) \<subseteq> ?S" "slots ts (unat top1) (unat to_top') \<subseteq> ?S"
        using A(1) B(1) by (simp_all add: slots_mono)
      have "extends ?S m m2" using A(3) W(1) by (rule extends_trans) (use sub in simp)
      then have "extends ?S m m3" using B(3) by (rule extends_trans) (use sub in simp)
      then have "extends ?S m m'" using W(2) by (rule extends_trans) simp
      then show ?thesis using A B by simp
    qed
  qed
qed


subsection \<open>Lists and immediate terms\<close>

text \<open>Terms made of list cells and immediate terms, and where they lie in memory.\<close>

datatype tm = Imm eterm | Cell tm tm

primrec cells :: "tm \<Rightarrow> nat" where
  "cells (Imm w) = 0"
| "cells (Cell a b) = 2 + cells a + cells b"

primrec depth :: "tm \<Rightarrow> nat" where
  "depth (Imm w) = 1"
| "depth (Cell a b) = Suc (max (depth a) (depth b))"

definition immed :: "eterm \<Rightarrow> bool" where
  "immed w \<longleftrightarrow> w AND 3 \<noteq> TAG_PRIMARY_LIST \<and> w AND 3 \<noteq> TAG_PRIMARY_BOXED"

fun tm_at :: "ptr set \<Rightarrow> 'a machine_scheme \<Rightarrow> eterm \<Rightarrow> tm \<Rightarrow> bool" where
  "tm_at A m t (Imm w) \<longleftrightarrow> t = w \<and> immed w"
| "tm_at A m t (Cell a b) \<longleftrightarrow> beam_is_list t \<and> {term_ptr t, term_ptr t + 8} \<subseteq> A \<and>
     accessible m (term_ptr t) \<and> accessible m (term_ptr t + 8) \<and>
     tm_at A m (words m (term_ptr t)) a \<and> tm_at A m (words m (term_ptr t + 8)) b"

lemma tm_at_frame:
  assumes "tm_at A m t v" "\<forall>a \<in> A. words m' a = words m a \<and> (accessible m a \<longrightarrow> accessible m' a)" "A \<subseteq> B"
  shows "tm_at B m' t v"
  using assms
proof (induction v arbitrary: t)
  case (Cell a b)
  then show ?case using Cell.prems(3) by auto
qed simp

lemma tm_at_mono: "tm_at A m t v \<Longrightarrow> A \<subseteq> B \<Longrightarrow> tm_at B m t v"
  by (rule tm_at_frame) auto

lemma tm_at_extends:
  assumes "tm_at A m t v" "extends S m m'" "A \<inter> S = {}" "A \<subseteq> B"
  shows "tm_at B m' t v"
  using assms(1) by (rule tm_at_frame) (use assms(2-4) extendsD [OF assms(2)] in auto)

lemma gc_copy_immed:
  assumes "immed t"
  shows "gc_copy_term (Suc n) ts cap t to_top m = Some (t, to_top, m)"
  using assms by (simp add: gc_copy_term.simps(2) immed_def beam_is_tuple_def boxed_test_def beam_is_list_def)

lemma list_not_immediate:
  assumes "beam_is_list t"
  shows "\<not> beam_is_small_int t" "\<not> beam_is_atom t" "\<not> beam_is_nil t" "beam_is_tuple m t = Some False"
proof -
  have 1: "t AND 3 = 1" using assms by (simp add: beam_is_list_def TAG_PRIMARY_LIST_def)
  have "(t AND 15) AND 3 = 1" using 1 by (simp add: and_15_and_3)
  then show "\<not> beam_is_small_int t" "\<not> beam_is_atom t" by (auto simp: beam_is_small_int_def beam_is_atom_def tag_values)
  show "\<not> beam_is_nil t" using 1 by (auto simp: beam_is_nil_def tag_values)
  show "beam_is_tuple m t = Some False" using 1 by (simp add: beam_is_tuple_def boxed_test_def TAG_PRIMARY_BOXED_def)
qed

lemma tm_at_cell:
  assumes "aligned8 e" "{e, e + 8} \<subseteq> A" "accessible m e" "accessible m (e + 8)" "tm_at A m (words m e) a" "tm_at A m (words m (e + 8)) b"
  shows "tm_at A m (e OR TAG_PRIMARY_LIST) (Cell a b)"
  using assms list_reads(1) tagged_pointer(3) [OF assms(1)] by (simp add: term_ptr_def TAG_PRIMARY_LIST_def)

lemma gc_copy_run:
  assumes "tm_at A m t v" "depth v \<le> n" "machine_ok m" "array_at m ts (unat cap)" "A \<inter> slots ts 0 (unat cap) = {}"
    "unat to_top + cells v \<le> unat cap" "unat cap < 2 ^ 60"
  shows "\<exists>t' to_top' m'. gc_copy_term n ts cap t to_top m = Some (t', to_top', m') \<and> unat to_top' = unat to_top + cells v \<and>
    extends (slots ts (unat to_top) (unat to_top')) m m' \<and> tm_at (slots ts (unat to_top) (unat to_top')) m' t' v"
  using assms
proof (induction v arbitrary: n t to_top m)
  case (Imm w)
  then show ?case by (cases n) (auto simp: gc_copy_immed)
next
  case (Cell a b)
  obtain d where d: "n = Suc d" "depth a \<le> d" "depth b \<le> d" using Cell.prems(2) by (cases n) auto
  let ?p = "term_ptr t" and ?S = "slots ts 0 (unat cap)"
  have T: "beam_is_list t" "accessible m ?p" "accessible m (?p + 8)" "tm_at A m (words m ?p) a" "tm_at A m (words m (?p + 8)) b"
    using Cell.prems(1) by auto
  have t2: "unat (to_top + 2) = unat to_top + 2" using index_add [OF Cell.prems(7), of to_top 2] Cell.prems(6) by simp
  obtain h top1 m1 where H: "gc_copy_term d ts cap (words m ?p) (to_top + 2) m = Some (h, top1, m1)"
    "unat top1 = unat to_top + 2 + cells a" "extends (slots ts (unat to_top + 2) (unat top1)) m m1"
    "tm_at (slots ts (unat to_top + 2) (unat top1)) m1 h a"
    using Cell.IH(1) [OF T(4) d(2) Cell.prems(3-5), of "to_top + 2"] Cell.prems(6,7) t2 by auto
  note E1 = extendsD [OF H(3)]
  have i0: "unat to_top < unat cap" "unat to_top + 1 < unat cap" using Cell.prems(6) by simp_all
  have acc: "accessible m1 (elem_addr ts (unat to_top))" using array_accessible [OF Cell.prems(3,4) i0(1)] E1 by simp
  let ?m2 = "m1\<lparr>words := (words m1)(elem_addr ts (unat to_top) := h)\<rparr>"
  have W2: "wr (elem_addr ts (unat to_top)) h m1 = Some ?m2" using acc by (simp add: wr_def)
  have E2: "extends (slots ts (unat to_top) (unat to_top + 1)) m1 ?m2" using extends_wr [OF W2] by (simp add: slots_def)
  have sub: "slots ts i j \<subseteq> ?S" if "j \<le> unat cap" for i j using that by (intro slots_mono) simp_all
  have m2: "extends ?S m ?m2"
    using H(3) E2 by (rule extends_trans) (use sub H(2) Cell.prems(6) in simp)
  have tl2: "tm_at A ?m2 (words m (?p + 8)) b"
    using tm_at_extends [OF T(5) m2 Cell.prems(5) order_refl] .
  have ok2: "machine_ok ?m2" "array_at ?m2 ts (unat cap)" using extendsD(3,4) [OF m2] Cell.prems(3,4) by simp_all
  obtain tl' top2 m3 where L: "gc_copy_term d ts cap (words m (?p + 8)) top1 ?m2 = Some (tl', top2, m3)"
    "unat top2 = unat top1 + cells b" "extends (slots ts (unat top1) (unat top2)) ?m2 m3" "tm_at (slots ts (unat top1) (unat top2)) m3 tl' b"
    using Cell.IH(2) [OF tl2 d(3) ok2 Cell.prems(5), of top1] Cell.prems(6,7) H(2) by auto
  note E3 = extendsD [OF L(3)]
  have acc3: "accessible m3 (elem_addr ts (unat to_top + 1))" using array_accessible [OF ok2 i0(2)] E3 by simp
  let ?m4 = "m3\<lparr>words := (words m3)(elem_addr ts (unat to_top + 1) := tl')\<rparr>"
  have W4: "wr (elem_addr ts (unat to_top + 1)) tl' m3 = Some ?m4" using acc3 by (simp add: wr_def)
  have E4: "extends (slots ts (unat to_top + 1) (unat to_top + 2)) m3 ?m4" using extends_wr [OF W4] by (simp add: slots_def)
  have bnd: "unat top1 \<le> unat top2" "unat top2 \<le> unat cap" "unat to_top + 2 \<le> unat top1"
    using H(2) L(2) Cell.prems(6) by simp_all
  let ?U = "slots ts (unat to_top) (unat top2)" and ?e = "elem_addr ts (unat to_top)"
  have mono: "slots ts (unat to_top + 2) (unat top1) \<subseteq> ?U" "slots ts (unat to_top) (unat to_top + 1) \<subseteq> ?U"
    "slots ts (unat top1) (unat top2) \<subseteq> ?U" "slots ts (unat to_top + 1) (unat to_top + 2) \<subseteq> ?U"
    using bnd by (simp_all add: slots_mono)
  have "extends ?U m ?m2" using H(3) E2 by (rule extends_trans) (use mono in simp)
  then have "extends ?U m m3" using L(3) by (rule extends_trans) (use mono in simp)
  then have ext: "extends ?U m ?m4" using E4 by (rule extends_trans) (use mono in simp)
  note dis = slots_disjoint [OF Cell.prems(3,4)]
  have "tm_at (slots ts (unat to_top + 2) (unat top1)) ?m2 h a"
    by (rule tm_at_extends [OF H(4) E2 _ order_refl]) (use dis bnd in simp)
  then have "tm_at (slots ts (unat to_top + 2) (unat top1)) m3 h a"
    by (rule tm_at_extends [OF _ L(3) _ order_refl]) (use dis bnd in simp)
  then have ha: "tm_at ?U ?m4 h a"
    by (rule tm_at_extends [OF _ E4 _ mono(1)]) (use dis bnd in simp)
  have tb: "tm_at ?U ?m4 tl' b"
    by (rule tm_at_extends [OF L(4) E4 _ mono(3)]) (use dis bnd in simp)
  have "?e \<notin> slots ts (unat top1) (unat top2)" "?e \<notin> slots ts (unat to_top + 1) (unat to_top + 2)"
    using dis [of "unat to_top + 1" "unat top1" "unat top2" "unat to_top"] dis [of "unat to_top + 1" "unat to_top + 1" "unat to_top + 2" "unat to_top"]
      bnd by (auto simp: slots_def)
  then have we: "words ?m4 ?e = h" using extendsD(1) [OF E4, of ?e] extendsD(1) [OF L(3), of ?e] by simp
  have al: "aligned8 ?e" using array_accessible [OF Cell.prems(3,4) i0(1)] by (simp add: accessible_def)
  have e8: "?e + 8 = elem_addr ts (unat to_top + 1)" by (simp add: elem_addr_def algebra_simps)
  have "tm_at ?U ?m4 (?e OR TAG_PRIMARY_LIST) (Cell a b)"
  proof (rule tm_at_cell [OF al])
    show "{?e, ?e + 8} \<subseteq> ?U" unfolding e8 slots_def using bnd by auto
    show "accessible ?m4 ?e" "accessible ?m4 (?e + 8)"
      using array_accessible [OF Cell.prems(3,4) i0(1)] acc3 extendsD(5) [OF ext] e8 by simp_all
  qed (use ha tb we e8 in simp_all)
  moreover have "gc_copy_term n ts cap t to_top m = Some (?e OR TAG_PRIMARY_LIST, top2, ?m4)"
  proof -
    have "\<not> to_top + 2 > cap" using t2 Cell.prems(6) by (simp add: not_less word_le_nat_alt)
    moreover have "beam_list_head m t = Some (words m ?p)" "beam_list_tail m t = Some (words m (?p + 8))"
      using T(1-3) by (simp_all add: beam_list_head_def beam_list_tail_def rd_def)
    ultimately show ?thesis
      using list_not_immediate(1-3) [OF T(1)] list_not_immediate(4) [OF T(1), of m] T(1) H(1) W2 L(1) W4 d(1)
      by (simp add: gc_copy_term.simps(2) elem_addr_def algebra_simps)
  qed
  ultimately show ?case using ext H(2) L(2) by auto
qed


subsection \<open>The roots of a process\<close>

lemma tm_at_accessible: "tm_at UNIV m t v \<Longrightarrow> tm_at {a. accessible m a} m t v"
  by (induction v arbitrary: t) auto

lemma tm_at_0: "tm_at A m 0 v \<Longrightarrow> v = Imm 0"
  by (cases v) (auto simp: beam_is_list_def TAG_PRIMARY_LIST_def)

lemma copy_regs_run:
  assumes "list_all2 (tm_at A m) xs vs" "\<forall>v \<in> set vs. depth v \<le> Suc n" "machine_ok m" "array_at m ts (unat cap)"
    "A \<inter> slots ts 0 (unat cap) = {}" "unat to_top + sum_list (map cells vs) \<le> unat cap" "unat cap < 2 ^ 60"
  shows "\<exists>xs' to_top' m'. copy_regs (Suc n) ts cap xs to_top m = Some (xs', to_top', m') \<and>
    unat to_top' = unat to_top + sum_list (map cells vs) \<and> extends (slots ts (unat to_top) (unat to_top')) m m' \<and>
    list_all2 (tm_at (slots ts (unat to_top) (unat to_top')) m') xs' vs"
  using assms
proof (induction vs arbitrary: xs to_top m rule: list.induct)
  case Nil
  then show ?case by simp
next
  case (Cons v vs)
  obtain x ys where xs: "xs = x # ys" "tm_at A m x v" "list_all2 (tm_at A m) ys vs"
    using Cons.prems(1) by (cases xs) auto
  obtain x' top1 m1 where C: "gc_copy_term (Suc n) ts cap x to_top m = Some (x', top1, m1)" "unat top1 = unat to_top + cells v"
    "extends (slots ts (unat to_top) (unat top1)) m m1" "tm_at (slots ts (unat to_top) (unat top1)) m1 x' v"
    using gc_copy_run [OF xs(2) _ Cons.prems(3-5), of "Suc n" to_top] Cons.prems(2,6,7) by auto
  have "gc_copy_term (Suc n) ts cap 0 to_top m = Some (0, to_top, m)"
    by (rule gc_copy_immed) (simp add: immed_def TAG_PRIMARY_LIST_def TAG_PRIMARY_BOXED_def)
  with C(1) have step: "(if x \<noteq> 0 then gc_copy_term (Suc n) ts cap x to_top m else Some (x, to_top, m)) = Some (x', top1, m1)"
    by auto
  have S: "slots ts (unat to_top) (unat top1) \<subseteq> slots ts 0 (unat cap)" using C(2) Cons.prems(6) by (intro slots_mono) simp_all
  have ys: "list_all2 (tm_at A m1) ys vs"
    using xs(3) by (rule list_all2_mono) (rule tm_at_extends [OF _ C(3) _ order_refl], use S Cons.prems(5) in auto)
  note E1 = extendsD [OF C(3)]
  obtain ys' top2 m2 where R: "copy_regs (Suc n) ts cap ys top1 m1 = Some (ys', top2, m2)"
    "unat top2 = unat top1 + sum_list (map cells vs)" "extends (slots ts (unat top1) (unat top2)) m1 m2"
    "list_all2 (tm_at (slots ts (unat top1) (unat top2)) m2) ys' vs"
    using Cons.IH [OF ys, of top1] Cons.prems C(2) E1 by auto
  let ?U = "slots ts (unat to_top) (unat top2)"
  have sub: "slots ts (unat to_top) (unat top1) \<subseteq> ?U" "slots ts (unat top1) (unat top2) \<subseteq> ?U"
    using C(2) R(2) by (simp_all add: slots_mono)
  have "extends ?U m m2" using C(3) R(3) by (rule extends_trans) (use sub in simp)
  moreover have "tm_at ?U m2 x' v"
    by (rule tm_at_extends [OF C(4) R(3) _ sub(1)])
      (use slots_disjoint [OF Cons.prems(3,4)] C(2) R(2) Cons.prems(6) in simp)
  moreover have "list_all2 (tm_at ?U m2) ys' vs"
    using R(4) by (rule list_all2_mono) (rule tm_at_mono [OF _ sub(2)])
  ultimately show ?case using xs(1) step R(1,2) C(2) by auto
qed

lemma copy_stack_run:
  assumes "list_all2 (\<lambda>i v. tm_at A m (words m (elem_addr hp i)) v) [s..<unat cap] vs" "s + length vs = unat cap"
    "\<forall>v \<in> set vs. depth v \<le> Suc n" "machine_ok m" "array_at m ts (unat cap)" "array_at m hp (unat cap)" "hp \<noteq> ts"
    "A \<inter> slots ts 0 (unat cap) = {}" "unat to_top + sum_list (map cells vs) \<le> s" "unat cap < 2 ^ 60"
  shows "\<exists>to_top' m'. copy_stack (Suc n) ts hp cap cap [s..<unat cap] to_top m = Some (to_top', m') \<and>
    unat to_top' = unat to_top + sum_list (map cells vs) \<and>
    extends (slots ts (unat to_top) (unat to_top') \<union> slots ts s (unat cap)) m m' \<and>
    list_all2 (\<lambda>i v. tm_at (slots ts (unat to_top) (unat to_top')) m' (words m' (elem_addr ts i)) v) [s..<unat cap] vs"
  using assms
proof (induction vs arbitrary: s to_top m rule: list.induct)
  case Nil
  then show ?case by simp
next
  case (Cons v vs)
  have s: "s < unat cap" using Cons.prems(2) by simp
  have upt: "[s..<unat cap] = s # [Suc s..<unat cap]" using s by (simp add: upt_conv_Cons)
  have v: "tm_at A m (words m (elem_addr hp s)) v" and vs: "list_all2 (\<lambda>i v. tm_at A m (words m (elem_addr hp i)) v) [Suc s..<unat cap] vs"
    using Cons.prems(1) unfolding upt by simp_all
  obtain t' top1 m1 where C: "gc_copy_term (Suc n) ts cap (words m (elem_addr hp s)) to_top m = Some (t', top1, m1)"
    "unat top1 = unat to_top + cells v" "extends (slots ts (unat to_top) (unat top1)) m m1"
    "tm_at (slots ts (unat to_top) (unat top1)) m1 t' v"
    using gc_copy_run [OF v _ Cons.prems(4,5,8), of "Suc n" to_top] Cons.prems(2,3,9,10) by auto
  let ?m2 = "m1\<lparr>words := (words m1)(elem_addr ts s := t')\<rparr>" and ?S = "slots ts 0 (unat cap)"
  have W: "wr (elem_addr ts s) t' m1 = Some ?m2"
    using array_accessible [OF Cons.prems(4,5) s] extendsD(5) [OF C(3)] by (simp add: wr_def)
  have E2: "extends (slots ts s (Suc s)) m1 ?m2" using extends_wr [OF W] by (simp add: slots_def)
  have all: "extends ?S m ?m2"
    using C(3) E2 by (rule extends_trans) (use C(2) Cons.prems(2,9) in \<open>simp add: slots_mono\<close>)
  note E = extendsD [OF all]
  have hpS: "elem_addr hp i \<notin> ?S" if "i < unat cap" for i
    using arrays_apart [OF Cons.prems(4,6,5,7) that] unfolding slots_def by (metis atLeastLessThan_iff imageE)
  have vs2: "list_all2 (\<lambda>i v. tm_at A ?m2 (words ?m2 (elem_addr hp i)) v) [Suc s..<unat cap] vs"
    using vs
  proof (rule list.rel_mono_strong)
    fix i w assume i: "i \<in> set [Suc s..<unat cap]" and w: "tm_at A m (words m (elem_addr hp i)) w"
    have "i < unat cap" using i by simp
    then show "tm_at A ?m2 (words ?m2 (elem_addr hp i)) w"
      using tm_at_extends [OF w all Cons.prems(8) order_refl] E(1) [OF hpS] by simp
  qed
  obtain top2 m3 where R: "copy_stack (Suc n) ts hp cap cap [Suc s..<unat cap] top1 ?m2 = Some (top2, m3)"
    "unat top2 = unat top1 + sum_list (map cells vs)"
    "extends (slots ts (unat top1) (unat top2) \<union> slots ts (Suc s) (unat cap)) ?m2 m3"
    "list_all2 (\<lambda>i v. tm_at (slots ts (unat top1) (unat top2)) m3 (words m3 (elem_addr ts i)) v) [Suc s..<unat cap] vs"
    using Cons.IH [OF vs2, of top1] Cons.prems E(3,4) C(2) by auto
  have le: "unat to_top \<le> unat top1" "unat top1 \<le> unat top2" "unat top2 \<le> s" using C(2) R(2) Cons.prems(9) by simp_all
  let ?U = "slots ts (unat to_top) (unat top2)" and ?T = "slots ts s (unat cap)"
  have sub: "slots ts (unat to_top) (unat top1) \<subseteq> ?U" "slots ts (unat top1) (unat top2) \<subseteq> ?U" "slots ts s (Suc s) \<subseteq> ?T"
    "slots ts (Suc s) (unat cap) \<subseteq> ?T" using le s by (simp_all add: slots_mono)
  have "extends (?U \<union> ?T) m ?m2" using C(3) E2 by (rule extends_trans) (use sub in auto)
  then have ext: "extends (?U \<union> ?T) m m3" using R(3) by (rule extends_trans) (use sub in auto)
  note dis = slots_disjoint [OF Cons.prems(4,5)]
  have "tm_at (slots ts (unat to_top) (unat top1)) ?m2 t' v"
    by (rule tm_at_extends [OF C(4) E2 _ order_refl]) (use dis le s in simp)
  then have tv: "tm_at ?U m3 t' v"
    by (rule tm_at_extends [OF _ R(3) _ sub(1)]) (use dis le s in \<open>simp add: Int_Un_distrib\<close>)
  have "elem_addr ts s \<notin> slots ts (unat top1) (unat top2) \<union> slots ts (Suc s) (unat cap)"
    using dis [of "Suc s" "unat top1" "unat top2" s] dis [of "Suc s" "Suc s" "unat cap" s] le s by (auto simp: slots_def)
  then have "words m3 (elem_addr ts s) = t'" using extendsD(1) [OF R(3)] by simp
  moreover have "list_all2 (\<lambda>i v. tm_at ?U m3 (words m3 (elem_addr ts i)) v) [Suc s..<unat cap] vs"
    using R(4) by (rule list_all2_mono) (rule tm_at_mono [OF _ sub(2)])
  moreover have "copy_stack (Suc n) ts hp cap cap [s..<unat cap] to_top m = Some (top2, m3)"
    using C(1) W R(1) array_accessible [OF Cons.prems(4,6) s] upt by (simp add: elem_addr_def rd_def)
  ultimately show ?case using ext tv C(2) R(2) unfolding upt by auto
qed


subsection \<open>Collection\<close>

text \<open>The invariant of the process table after a process got another heap.\<close>

lemma proc_inv_new_heap:
  assumes inv: "proc_inv m" and pr: "procs m p = Some pr"
    and m': "machine_ok m'" "\<And>vt. vt_ok vt m' = vt_ok vt m" "msgs m' = msgs m" "mboxes m' = mboxes m" "procs m' = (procs m)(p \<mapsto> pr')"
    and blocks: "\<And>b. b \<in> set (live m) \<Longrightarrow> fst b \<noteq> heap pr \<Longrightarrow> b \<in> set (live m')"
    and pr': "mailbox pr' = mailbox pr" "proc_alloc pr' = proc_alloc pr" "heap_ok m' pr'" "frame_ok pr'" "heap pr' \<notin> fst ` set (live m)"
  shows "proc_inv m'"
proof -
  obtain B where B: "mail_abs m B" and own: "proc_own m" using inv by (auto simp: proc_inv_def)
  note D = proc_ownD [OF own]
  have wf: "proc_wf m pr" using D(4) [OF pr] .
  have mail: "dom (msgs m) \<union> dom (mboxes m) \<subseteq> fst ` set (live m)" using B by (auto simp: mail_abs_def mail_inv_def)
  have keep: "S \<subseteq> fst ` set (live m')" if S: "S \<subseteq> fst ` set (live m)" "heap pr \<notin> S" for S
  proof
    fix a assume a: "a \<in> S"
    then obtain b where b: "b \<in> set (live m)" "a = fst b" using subsetD [OF S(1)] by blast
    moreover have "fst b \<noteq> heap pr" using a S(2) b(2) by auto
    ultimately show "a \<in> fst ` set (live m')" using blocks by simp
  qed
  have nh: "heap pr \<notin> dom (msgs m) \<union> dom (mboxes m) \<union> dom (procs m)" using wf by (simp add: proc_wf_def)
  have "dom (msgs m) \<union> dom (mboxes m) \<subseteq> fst ` set (live m')" using mail nh by (intro keep) simp_all
  with B m'(1-4) have "mail_abs m' B" by (rule mail_abs_env)
  moreover have "proc_own m'"
  proof (rule proc_ownI)
    have dom: "dom (procs m') = dom (procs m)" using pr m'(5) by auto
    show "dom (procs m') \<subseteq> fst ` set (live m')" unfolding dom using D(1) nh by (intro keep) simp_all
    show "0 \<notin> dom (procs m')" "dom (procs m') \<inter> (dom (msgs m') \<union> dom (mboxes m')) = {}" unfolding dom m'(3,4) using D(2,3) by blast+
    show "proc_wf m' qr" if q: "procs m' q = Some qr" for q qr
    proof (cases "q = p")
      case True
      have "heap pr' \<notin> dom (msgs m) \<union> dom (mboxes m) \<union> dom (procs m)" using pr'(5) mail D(1) by blast
      then show ?thesis using True q m' pr' wf dom by (simp add: proc_wf_def)
    next
      case False
      then have qr: "procs m q = Some qr" using q m'(5) by simp
      have "heap qr \<noteq> heap pr" using D(5) [OF qr pr False] by simp
      then have "heap_ok m' qr" using D(4) [OF qr] blocks by (auto simp: proc_wf_def heap_ok_def)
      then show ?thesis using D(4) [OF qr] m' dom by (simp add: proc_wf_def)
    qed
    have old: "heap qr \<in> fst ` set (live m)" if "procs m q = Some qr" for q qr
      using D(4) [OF that] by (force simp: proc_wf_def heap_ok_def)
    have other: "mailbox pr' \<noteq> mailbox rr \<and> heap pr' \<noteq> heap rr" if "procs m r = Some rr" "r \<noteq> p" for r rr
      using D(5) [OF pr that(1)] that(2) old [OF that(1)] pr'(1,5) by metis
    show "mailbox qr \<noteq> mailbox rr \<and> heap qr \<noteq> heap rr" if qr: "procs m' q = Some qr" "procs m' r = Some rr" "q \<noteq> r" for q r qr rr
    proof -
      consider "q = p" "r \<noteq> p" | "q \<noteq> p" "r = p" | "q \<noteq> p" "r \<noteq> p" using qr(3) by blast
      then show ?thesis
        by cases (use other [of r rr] other [of q qr] D(5) [of q qr r rr] qr m'(5) in \<open>simp_all, metis\<close>)
    qed
  qed
  ultimately show ?thesis by (auto simp: proc_inv_def)
qed

definition stack_at :: "'a machine_scheme \<Rightarrow> beam_process \<Rightarrow> tm list \<Rightarrow> bool" where
  "stack_at m pr ws \<longleftrightarrow> list_all2 (\<lambda>i v. tm_at UNIV m (words m (elem_addr (heap pr) i)) v)
     [unat (stack_top pr)..<unat (heap_capacity pr)] ws"

lemma fresh_slots:
  assumes "machine_ok m1" "set (live m) \<subseteq> set (live m1)" "ts \<notin> fst ` set (live m)" "array_at m1 ts n"
  shows "{a. accessible m a} \<inter> slots ts 0 n = {}"
proof (rule ccontr)
  assume "{a. accessible m a} \<inter> slots ts 0 n \<noteq> {}"
  then obtain i where i: "i < n" "accessible m (elem_addr ts i)" by (auto simp: slots_def)
  then obtain b where b: "b \<in> set (live m)" "in_block (elem_addr ts i) b" by (auto simp: accessible_def list_ex_iff)
  obtain k where k: "(ts, k) \<in> set (live m1)" "8 * n \<le> unat k" using assms(4) by (auto simp: array_at_def)
  have "fst b \<noteq> ts" using assms(3) b(1) by auto
  then have "apart b (ts, k)" using live_apart [OF assms(1) subsetD [OF assms(2) b(1)] k(1)] by simp
  with elem_in_block [OF assms(1) k i(1)] b(2) in_block_apart show False by blast
qed

lemma gc_collect_run:
  assumes inv: "proc_inv m" and pr: "procs m p = Some pr" and cap: "0 < heap_capacity pr" "heap_capacity pr < 2 ^ 32"
    and regs: "list_all2 (tm_at UNIV m) (x_regs (frame pr)) vs" and stack: "stack_at m pr ws"
    and room: "sum_list (map cells (vs @ ws)) \<le> unat (stack_top pr)" and deep: "\<forall>v \<in> set (vs @ ws). depth v \<le> Suc n"
  shows "\<exists>r m'. beam_gc_collect_process (Suc n) p m = Some (r, m') \<and> proc_inv m' \<and>
    (r = BEAM_ERR_NO_MEMORY \<and> procs m' = procs m \<or>
     r = BEAM_OK \<and> (\<exists>pr'. procs m' = (procs m)(p \<mapsto> pr') \<and> list_all2 (tm_at UNIV m') (x_regs (frame pr')) vs \<and> stack_at m' pr' ws \<and>
       stack_top pr' = stack_top pr \<and> heap_capacity pr' = heap_capacity pr \<and> heap_top pr' = of_nat (sum_list (map cells (vs @ ws)))))"
proof -
  note D = proc_invD [OF inv pr]
  let ?cap = "heap_capacity pr" and ?vt = "proc_alloc pr" and ?s = "unat (stack_top pr)"
  let ?A = "{a. accessible m a}"
  have ucap: "0 < unat ?cap" "unat ?cap < 2 ^ 32" using cap by (simp_all add: word_less_nat_alt)
  have s: "?s \<le> unat ?cap" using D(3) by (simp add: frame_ok_def word_le_nat_alt)
  have env: "alloc_env ?vt m" using D(1,7) by simp
  have gs: "good_size (8 * ?cap)" using good_size_array(1) [OF ucap] by simp
  obtain ts m1 where al: "call_alloc ?vt (8 * ?cap) m = Some (ts, m1)" "machine_ok m1" "\<forall>vt'. vt_ok vt' m1 = vt_ok vt' m"
    "words m1 = words m" "machine.more m1 = machine.more m" "set (live m) \<subseteq> set (live m1)" "ts \<noteq> 0 \<longrightarrow> ts \<notin> fst ` set (live m)"
    "fst ` set (live m1) = (if ts = 0 then fst ` set (live m) else insert ts (fst ` set (live m)))"
    using env_alloc [OF env gs] by blast
  have inv1: "proc_inv m1" by (rule proc_inv_ext [OF inv]) (use al in \<open>simp add: env_ext_def\<close>)
  have procs1: "procs m1 = procs m" using al(5) by (rule machine_more_procs)
  show ?thesis
  proof (cases "ts = 0")
    case True
    then show ?thesis using D(2,4) pr al(1) inv1 procs1 by (simp add: beam_gc_collect_process_def heap_ok_def)
  next
    case False
    have arr: "array_at m1 ts (unat ?cap)" using alloc_array [OF env ucap, of ts m1] al(1) False by simp
    have harr: "array_at m (heap pr) (unat ?cap)" using D(2) by (auto simp: heap_ok_def array_at_def)
    note harr1 = array_at_mono [OF harr al(6)]
    have hts: "heap pr \<noteq> ts" using al(7) False array_at_base [OF harr] by auto
    have disj: "?A \<inter> slots ts 0 (unat ?cap) = {}" using fresh_slots [OF al(2,6) _ arr] al(7) False by simp
    have up: "tm_at ?A m1 t v" if "tm_at UNIV m t v" for t v
      using tm_at_accessible [OF that] by (rule tm_at_frame) (use al(4,6) in \<open>auto simp: accessible_def list_ex_iff\<close>)
    have regs1: "list_all2 (tm_at ?A m1) (x_regs (frame pr)) vs" using regs by (rule list_all2_mono) (rule up)
    obtain xs top1 m2 where R: "copy_regs (Suc n) ts ?cap (x_regs (frame pr)) 0 m1 = Some (xs, top1, m2)"
      "unat top1 = sum_list (map cells vs)" "extends (slots ts 0 (unat top1)) m1 m2" "list_all2 (tm_at (slots ts 0 (unat top1)) m2) xs vs"
      using copy_regs_run [OF regs1 _ al(2) arr disj, of n 0] deep room s ucap by auto
    note E2 = extendsD [OF R(3)]
    have sub: "slots ts 0 (unat top1) \<subseteq> slots ts 0 (unat ?cap)" using R(2) room s by (intro slots_mono) auto
    have st2: "list_all2 (\<lambda>i v. tm_at ?A m2 (words m2 (elem_addr (heap pr) i)) v) [?s..<unat ?cap] ws"
      using stack unfolding stack_at_def
    proof (rule list.rel_mono_strong)
      fix i w assume i: "i \<in> set [?s..<unat ?cap]" and w: "tm_at UNIV m (words m (elem_addr (heap pr) i)) w"
      have "accessible m (elem_addr (heap pr) i)" using array_accessible [OF D(7) harr] i by simp
      then have "elem_addr (heap pr) i \<notin> slots ts 0 (unat top1)" using disj sub by blast
      then show "tm_at ?A m2 (words m2 (elem_addr (heap pr) i)) w"
        using tm_at_extends [OF up [OF w] R(3) _ order_refl] E2(1) al(4) disj sub by auto
    qed
    have len: "?s + length ws = unat ?cap" using stack s by (auto simp: stack_at_def dest: list_all2_lengthD)
    obtain top2 m3 where S: "copy_stack (Suc n) ts (heap pr) ?cap ?cap [?s..<unat ?cap] top1 m2 = Some (top2, m3)"
      "unat top2 = unat top1 + sum_list (map cells ws)"
      "extends (slots ts (unat top1) (unat top2) \<union> slots ts ?s (unat ?cap)) m2 m3"
      "list_all2 (\<lambda>i v. tm_at (slots ts (unat top1) (unat top2)) m3 (words m3 (elem_addr ts i)) v) [?s..<unat ?cap] ws"
      using copy_stack_run [OF st2 len, of n ts top1] deep room R(2) E2(3,4) al(2) arr harr1 hts disj ucap by auto
    note E3 = extendsD [OF S(3)]
    have "heap pr \<in> fst ` set (live m3)" using array_at_base [OF harr1] E2(2) E3(2) by simp
    moreover have env3: "alloc_env ?vt m3" using E2(3,7) E3(3,7) al(2,3) D(1) by simp
    ultimately obtain m4 where F: "call_free ?vt (heap pr) m3 = Some m4" "released ?vt {heap pr} m3 m4" "machine.more m4 = machine.more m3"
      using released_free by blast
    note L = releasedD [OF F(2)]
    let ?U = "slots ts 0 (unat top2)"
    let ?pr = "pr\<lparr>heap := ts, heap_capacity := ?cap, heap_top := top2, stack_top := ?cap - (?cap - stack_top pr), frame := (frame pr)\<lparr>x_regs := xs\<rparr>\<rparr>"
    have arr4: "array_at m4 ts (unat ?cap)" using array_at_free [OF _ F(1)] arr E2(4) E3(4) hts by simp
    have top2: "unat top2 \<le> ?s" "unat top1 \<le> unat top2" using R(2) S(2) room by simp_all
    have up4: "tm_at UNIV m4 t v" if "tm_at ?U m3 t v" for t v
    proof (rule tm_at_frame [OF that])
      show "\<forall>a \<in> ?U. words m4 a = words m3 a \<and> (accessible m3 a \<longrightarrow> accessible m4 a)"
        using array_accessible [OF L(1) arr4] L(3) top2 s by (auto simp: slots_def)
    qed simp
    have mid: "tm_at ?U m3 t v" if "tm_at (slots ts 0 (unat top1)) m2 t v" for t v
      by (rule tm_at_extends [OF that S(3)])
        (use slots_disjoint [OF al(2) arr] top2 s in \<open>simp_all add: Int_Un_distrib slots_mono\<close>)
    have regs4: "list_all2 (tm_at UNIV m4) xs vs" using R(4) by (rule list_all2_mono) (rule up4, rule mid)
    have sub2: "slots ts (unat top1) (unat top2) \<subseteq> ?U" by (rule slots_mono) simp_all
    have stack4: "list_all2 (\<lambda>i v. tm_at UNIV m4 (words m4 (elem_addr ts i)) v) [?s..<unat ?cap] ws"
      using S(4) unfolding L(3) by (rule list_all2_mono) (rule up4, rule tm_at_mono [OF _ sub2])
    have run: "beam_gc_collect_process (Suc n) p m = Some (BEAM_OK, put_proc p ?pr m4)"
      using D(2,4) pr al(1) False R(1) S(1) F(1) by (simp add: beam_gc_collect_process_def heap_ok_def)
    have more4: "machine.more m4 = machine.more m" using E2(6) E3(6) F(3) al(5) by simp
    note M = mail_frame(1,2) [OF more4] machine_more_procs [OF more4]
    have lives: "live m3 = live m1" using E2(2) E3(2) by simp
    have put: "tm_at UNIV (put_proc p ?pr m4) t v" if "tm_at UNIV m4 t v" for t v
      by (rule tm_at_frame [OF that]) (simp_all add: put_proc_def accessible_def)
    have "proc_inv (put_proc p ?pr m4)"
    proof (rule proc_inv_new_heap [OF inv pr])
      show "machine_ok (put_proc p ?pr m4)" using L(1) by (simp add: put_proc_def machine_ok_cong [of "m4\<lparr>procs := _\<rparr>" m4])
      show "vt_ok vt (put_proc p ?pr m4) = vt_ok vt m" for vt
        using L(2) E2(7) E3(7) al(3) by (simp add: put_proc_def vt_ok_cong [of "m4\<lparr>procs := _\<rparr>" m4])
      show "b \<in> set (live (put_proc p ?pr m4))" if "b \<in> set (live m)" "fst b \<noteq> heap pr" for b
        using L(5) [of b] that al(6) lives by (auto simp: put_proc_def)
      show "heap_ok (put_proc p ?pr m4) ?pr" using arr4 False by (auto simp: heap_ok_def array_at_def put_proc_def)
      show "frame_ok ?pr" using D(3) regs regs4 by (auto simp: frame_ok_def dest!: list_all2_lengthD)
      show "heap ?pr \<notin> fst ` set (live m)" using al(7) False by simp
    qed (use M in \<open>simp_all add: put_proc_def\<close>)
    moreover have "top2 = of_nat (sum_list (map cells (vs @ ws)))" using R(2) S(2) by (metis map_append of_nat_unat sum_list_append ucast_id word_unat_eq_iff)
    moreover have "list_all2 (tm_at UNIV (put_proc p ?pr m4)) (x_regs (frame ?pr)) vs"
      using list_all2_mono [OF regs4 put] by simp
    moreover have "stack_at (put_proc p ?pr m4) ?pr ws"
      using list_all2_mono [OF stack4 put] by (simp add: stack_at_def put_proc_def)
    ultimately show ?thesis using run M(3) by (intro exI [of _ BEAM_OK] exI [of _ "put_proc p ?pr m4"]) auto
  qed
qed

end
