(* ===== verification/GC_Properties.thy ===== *)
theory GC_Properties
  imports GC_Copy
begin

text \<open>
  Properties of the garbage collector: it preserves lists, it terminates on every heap, and it breaks
  tuples.
\<close>

subsection \<open>The depth of the recursion\<close>








lemma boxed_not_immediate:
  assumes "beam_is_tuple m t = Some True"
  shows "\<not> beam_is_small_int t" "\<not> beam_is_atom t" "\<not> beam_is_nil t"
proof -
  have 2: "t AND 3 = 2" using assms by (auto simp: beam_is_tuple_def boxed_test_def TAG_PRIMARY_BOXED_def split: if_splits)
  have "(t AND 15) AND 3 = 2" using 2 by (simp add: and_15_and_3)
  then show "\<not> beam_is_small_int t" "\<not> beam_is_atom t" by (auto simp: beam_is_small_int_def beam_is_atom_def tag_values)
  show "\<not> beam_is_nil t" using 2 by (auto simp: beam_is_nil_def tag_values)
qed

lemma small_int_header: "make_small_int n AND 0x3F \<noteq> 0"
proof
  assume "make_small_int n AND 0x3F = 0"
  then have "\<not> bit (make_small_int n AND mask 6) 0" by (simp add: masks64)
  then show False by (simp add: make_small_int_def tag_values bit_simps)
qed

lemma gc_tuple_copy:
  assumes tup: "beam_is_tuple m t = Some True" "beam_tuple_arity m t = Some n"
    and to: "machine_ok m" "array_at m ts (unat cap)" "unat cap < 2 ^ 60" "unat to_top + unat n + 1 \<le> unat cap"
    and run: "gc_copy_term (Suc d) ts cap t to_top m = Some (t', to_top', m')"
  shows "beam_is_tuple m' t' = Some False"
proof -
  let ?e = "elem_addr ts (unat to_top)"
  have le: "unat to_top \<le> unat cap" and i0: "unat to_top < unat cap" using to(4) by simp_all
  have sum: "unat (to_top + (n + 1)) = unat to_top + unat n + 1"
    using index_add [OF to(3) le, of "Suc (unat n)"] tuple_arity_less [OF tup(2)] by (simp add: algebra_simps)
  then have "\<not> to_top + (n + 1) > cap" using to(4) by (simp add: not_less word_le_nat_alt)
  then obtain m1 where W: "wr ?e (make_small_int n) m = Some m1" and t': "t' = ?e OR TAG_PRIMARY_BOXED"
    and els: "copy_elems (gc_copy_term d ts cap) ts t to_top [0..<unat n] (to_top + (n + 1)) m1 = Some (to_top', m')"
    using run tup boxed_not_immediate [OF tup(1)] by (auto simp: gc_copy_term.simps(2) bind_eq_Some_conv Let_def elem_addr_def)
  have F: "extends (slots ts (unat to_top + 1) (unat to_top')) m1 m'" "unat to_top' \<le> unat cap"
    using copy_elems_frame [OF gc_copy_frame [OF to(3)] to(3) els, of "unat n"] sum to(4) tuple_arity_less [OF tup(2)] by auto
  have "?e \<notin> slots ts (unat to_top + 1) (unat to_top')"
    using slots_disjoint [OF to(1,2), of "unat to_top + 1" "unat to_top + 1" "unat to_top'" "unat to_top"] F(2) i0 by (auto simp: slots_def)
  then have hd: "words m' ?e = make_small_int n" using extendsD(1) [OF F(1)] W by (simp add: wr_Some_iff)
  have acc: "accessible m ?e" using array_accessible [OF to(1,2) i0] .
  then have acc': "accessible m' ?e" using extendsD(5) [OF F(1)] W by (simp add: wr_Some_iff)
  have "unat ?e = unat ts + 8 * unat to_top" "ts \<noteq> 0" using unat_elem_addr [OF array_atD(2) [OF to(1,2)] i0] array_atD(3) [OF to(1,2)] by simp_all
  then have "unat ?e \<noteq> 0" by (simp add: unsigned_eq_0_iff)
  then have "?e \<noteq> 0" by auto
  moreover have "aligned8 ?e" using acc by (simp add: accessible_def)
  ultimately show ?thesis using tuple_reads(1) [OF _ _ acc'] t' hd small_int_header by simp
qed

subsection \<open>Properties\<close>

definition gc_demo_pr :: beam_process where
  "gc_demo_pr = demo_pr\<lparr>heap_top := 5, frame := initial_frame\<lparr>x_regs := 0x20001 # replicate 255 0\<rparr>\<rparr>"

text \<open>Register 0 holds the list of one integer; behind its cell lies a tuple of two integers.\<close>

definition gc_demo :: proc_machine where
  "gc_demo = (put_proc 0x10000 gc_demo_pr proc_demo)
     \<lparr>words := (\<lambda>_. 0)(0x20000 := 19, 0x20008 := 63, 0x20010 := 128, 0x20018 := 19, 0x20020 := 35)\<rparr>"

lemma gc_demo_proc: "procs gc_demo 0x10000 = Some gc_demo_pr" "proc_inv gc_demo"
proof -
  have "frame_ok gc_demo_pr" by (simp add: gc_demo_pr_def frame_ok_def initial_frame_def process_consts)
  then show "proc_inv gc_demo"
    unfolding gc_demo_def proc_inv_words by (rule proc_inv_put [OF proc_inv_demo proc_demo_at, rotated -1]) (simp_all add: gc_demo_pr_def)
qed (simp add: gc_demo_def)

lemma gc_demo_heap: "array_at gc_demo 0x20000 64"
  using proc_invD(2) [OF gc_demo_proc(2,1)] by (auto simp: heap_ok_def array_at_def gc_demo_pr_def)

lemma gc_demo_accessible: "i < 64 \<Longrightarrow> accessible gc_demo (elem_addr 0x20000 i)"
  using array_accessible [OF proc_invD(7) [OF gc_demo_proc(2,1)] gc_demo_heap] by simp

text \<open>
  C18: a collection preserves terms. When the registers and the stack of a process hold immediate terms
  and trees of list cells, shared cells counted as often as they are reached, and these fit below the
  stack, the collection ends without undefined behaviour; unless no memory is left all registers and
  stack slots hold the same terms afterwards, the heap is as full as they need, and the process table
  is well formed.
\<close>

theorem gc_preserves_terms:
  assumes "proc_inv m" "procs m p = Some pr" "0 < heap_capacity pr" "heap_capacity pr < 2 ^ 32"
    "list_all2 (tm_at UNIV m) (x_regs (frame pr)) vs" "stack_at m pr ws"
    "sum_list (map cells (vs @ ws)) \<le> unat (stack_top pr)" "\<forall>v \<in> set (vs @ ws). depth v \<le> Suc n"
  shows "\<exists>r m'. beam_gc_collect_process (Suc n) p m = Some (r, m') \<and> proc_inv m' \<and>
    (r = BEAM_ERR_NO_MEMORY \<and> procs m' = procs m \<or>
     r = BEAM_OK \<and> (\<exists>pr'. procs m' = (procs m)(p \<mapsto> pr') \<and> list_all2 (tm_at UNIV m') (x_regs (frame pr')) vs \<and> stack_at m' pr' ws \<and>
       stack_top pr' = stack_top pr \<and> heap_capacity pr' = heap_capacity pr \<and> heap_top pr' = of_nat (sum_list (map cells (vs @ ws)))))"
  using assms by (rule gc_collect_run)

theorem gc_preserves_terms_witness:
  "\<exists>r m'. beam_gc_collect_process 2 0x10000 gc_demo = Some (r, m') \<and> proc_inv m' \<and>
    (r = BEAM_ERR_NO_MEMORY \<or>
     r = BEAM_OK \<and> (\<exists>pr'. procs m' 0x10000 = Some pr' \<and> tm_at UNIV m' (x_regs (frame pr') ! 0) (Cell (Imm 19) (Imm 63)) \<and> heap_top pr' = 2))"
proof -
  let ?vs = "Cell (Imm 19) (Imm 63) # replicate 255 (Imm 0)"
  have "tm_at UNIV gc_demo 0x20001 (Cell (Imm 19) (Imm 63))"
    using gc_demo_accessible [of 0] gc_demo_accessible [of 1]
    by (simp add: gc_demo_def immed_def beam_is_list_def term_ptr_def tag_defs elem_addr_def)
  then have regs: "list_all2 (tm_at UNIV gc_demo) (x_regs (frame gc_demo_pr)) ?vs"
    by (simp add: gc_demo_pr_def immed_def tag_defs list_all2_conv_all_nth nth_Cons split: nat.split)
  have st: "stack_at gc_demo gc_demo_pr []" by (simp add: stack_at_def gc_demo_pr_def)
  have "\<exists>r m'. beam_gc_collect_process (Suc 1) 0x10000 gc_demo = Some (r, m') \<and> proc_inv m' \<and>
    (r = BEAM_ERR_NO_MEMORY \<and> procs m' = procs gc_demo \<or>
     r = BEAM_OK \<and> (\<exists>pr'. procs m' = (procs gc_demo)(0x10000 \<mapsto> pr') \<and> list_all2 (tm_at UNIV m') (x_regs (frame pr')) ?vs \<and> stack_at m' pr' [] \<and>
       stack_top pr' = stack_top gc_demo_pr \<and> heap_capacity pr' = heap_capacity gc_demo_pr \<and> heap_top pr' = of_nat (sum_list (map cells (?vs @ [])))))"
    by (rule gc_preserves_terms [OF gc_demo_proc(2,1) _ _ regs st])
      (simp_all add: gc_demo_pr_def sum_list_replicate)
  then obtain r m' where run: "beam_gc_collect_process 2 0x10000 gc_demo = Some (r, m')" "proc_inv m'" and
    "r = BEAM_ERR_NO_MEMORY \<or> r = BEAM_OK \<and> (\<exists>pr'. procs m' 0x10000 = Some pr' \<and>
       list_all2 (tm_at UNIV m') (x_regs (frame pr')) ?vs \<and> heap_top pr' = of_nat (sum_list (map cells ?vs)))"
    by (auto simp: numeral_2_eq_2)
  moreover have "of_nat (sum_list (map cells ?vs)) = (2 :: size_t)" by (simp add: sum_list_replicate)
  ultimately show ?thesis by (auto simp: list_all2_Cons2 intro!: exI [of _ r] exI [of _ m'])
qed



text \<open>
  C38: the collector breaks every tuple it copies. The header of the copy is written as a small integer
  and not as a tuple header, so the copied term is not recognised as a tuple any more.
\<close>

theorem gc_breaks_tuples:
  assumes "beam_is_tuple m t = Some True" "beam_tuple_arity m t = Some n" "machine_ok m" "array_at m to_space (unat to_cap)"
    "unat to_cap < 2 ^ 60" "unat to_top + unat n + 1 \<le> unat to_cap"
    "gc_copy_term (Suc d) to_space to_cap t to_top m = Some (t', to_top', m')"
  shows "beam_is_tuple m' t' = Some False"
  using assms by (rule gc_tuple_copy)

theorem gc_breaks_tuples_witness:
  "\<exists>t' to_top' m'. gc_copy_term 2 0x20000 64 0x20012 10 gc_demo = Some (t', to_top', m') \<and>
    beam_is_tuple gc_demo 0x20012 = Some True \<and> beam_is_tuple m' t' = Some False"
proof -
  have acc: "accessible gc_demo 0x20010" "accessible gc_demo 0x20018" "accessible gc_demo 0x20020"
    "accessible gc_demo 0x20050" "accessible gc_demo 0x20058" "accessible gc_demo 0x20060"
    using gc_demo_accessible [of 2] gc_demo_accessible [of 3] gc_demo_accessible [of 4]
      gc_demo_accessible [of 10] gc_demo_accessible [of 11] gc_demo_accessible [of 12] by (simp_all add: elem_addr_def)
  have w: "words gc_demo = (\<lambda>_. 0)(0x20000 := 19, 0x20008 := 63, 0x20010 := 128, 0x20018 := 19, 0x20020 := 35)"
    by (simp add: gc_demo_def)
  have tup: "beam_is_tuple gc_demo 0x20012 = Some True" "beam_tuple_arity gc_demo 0x20012 = Some 2"
    by (simp_all add: beam_tuple_arity_def beam_is_tuple_def boxed_test_def term_ptr_def tag_defs rd_def acc w)
  have two: "[0..<2] = [0, Suc 0]" by (simp add: upt_rec)
  have "\<exists>t' to_top' m'. gc_copy_term (Suc (Suc 0)) 0x20000 64 0x20012 10 gc_demo = Some (t', to_top', m')"
    using acc
    by (simp add: gc_copy_term.simps(2) tup boxed_not_immediate [OF tup(1)] two wr_def beam_tuple_element_def beam_is_tuple_def boxed_test_def
        term_ptr_def tag_defs rd_def w beam_is_small_int_def make_small_int_def)
  then obtain t' to_top' m' where run: "gc_copy_term (Suc (Suc 0)) 0x20000 64 0x20012 10 gc_demo = Some (t', to_top', m')" by blast
  have "beam_is_tuple m' t' = Some False"
    using gc_breaks_tuples [OF tup proc_invD(7) [OF gc_demo_proc(2,1)] _ _ _ run] gc_demo_heap by simp
  with run tup show ?thesis by (auto simp: numeral_2_eq_2)
qed

end
