(* ===== verification/Beam_Io.thy ===== *)
theory Beam_Io
  imports Beam_Node_Table
begin

text \<open>
  Event polling and sockets, \<^verbatim>\<open>src/io/sys_poll.c\<close>. The operating system is a parameter: every system
  call takes its result from the list \<open>os_results\<close> and is recorded with it in \<open>os_trace\<close>, so a theorem
  about all machine states covers every answer of the system. What the code relies on, such as a new
  descriptor being none that is still open, are hypotheses on the results.
\<close>

subsection \<open>System calls\<close>

datatype os_call =
    Epoll_create1
  | Epoll_ctl_add int int u32
  | Epoll_wait int int int
  | Close int
  | Socket
  | Setsockopt int
  | Bind int u16
  | Listen int int
  | Fcntl_getfl int
  | Fcntl_setfl int int
  | Accept int
  | Read int int
  | Sysconf_pagesize
  | Mmap size_t
  | Munmap ptr size_t

record poll_entry =
  pe_fd :: int
  pe_events :: u32

record beam_io_poller =
  epoll_fd :: int
  poll_entries :: "poll_entry list"
  poll_count :: size_t
  poll_alloc :: beam_allocator_i

record io_machine = node_machine +
  os_results :: "int list"
  os_trace :: "(os_call \<times> int) list"
  pollers :: "ptr \<rightharpoonup> beam_io_poller"

definition next_os :: "'a io_machine_scheme \<Rightarrow> int" where
  "next_os m = (case os_results m of [] \<Rightarrow> - 1 | r # _ \<Rightarrow> r)"

definition os :: "os_call \<Rightarrow> 'a io_machine_scheme \<Rightarrow> int \<times> 'a io_machine_scheme" where
  "os c m = (next_os m, m\<lparr>os_results := tl (os_results m), os_trace := os_trace m @ [(c, next_os m)]\<rparr>)"

text \<open>The descriptors that were opened and not closed, read off the trace.\<close>

definition track_fd :: "os_call \<times> int \<Rightarrow> int set \<Rightarrow> int set" where
  "track_fd e S = (case fst e of
      Epoll_create1 \<Rightarrow> if snd e < 0 then S else insert (snd e) S
    | Socket \<Rightarrow> if snd e < 0 then S else insert (snd e) S
    | Accept _ \<Rightarrow> if snd e < 0 then S else insert (snd e) S
    | Close fd \<Rightarrow> S - {fd}
    | _ \<Rightarrow> S)"

definition open_fds :: "'a io_machine_scheme \<Rightarrow> int set" where
  "open_fds m = fold track_fd (os_trace m) {}"

subsection \<open>The poller\<close>

definition MAX_POLL_ENTRIES :: nat where "MAX_POLL_ENTRIES = 64"
definition sizeof_beam_io_poller :: size_t where "sizeof_beam_io_poller = 600"

definition BEAM_IO_READABLE :: u32 where "BEAM_IO_READABLE = 0x01"
definition BEAM_IO_WRITABLE :: u32 where "BEAM_IO_WRITABLE = 0x02"
definition BEAM_IO_ERROR :: u32 where "BEAM_IO_ERROR = 0x04"

definition EPOLLIN :: u32 where "EPOLLIN = 0x01"
definition EPOLLOUT :: u32 where "EPOLLOUT = 0x04"
definition EPOLLERR :: u32 where "EPOLLERR = 0x08"

definition put_poller :: "ptr \<Rightarrow> beam_io_poller \<Rightarrow> 'a io_machine_scheme \<Rightarrow> 'a io_machine_scheme" where
  "put_poller p po m = m\<lparr>pollers := (pollers m)(p \<mapsto> po)\<rparr>"

definition beam_io_poller_create ::
    "beam_allocator_i option \<Rightarrow> 'a io_machine_scheme \<Rightarrow> (ptr \<times> 'a io_machine_scheme) option" where
  "beam_io_poller_create al m =
     (if \<not> alloc_arg_ok al then Some (0, m)
      else do {
        (poller, m1) \<leftarrow> call_alloc (the al) sizeof_beam_io_poller m;
        if poller = 0 then Some (0, m1)
        else do {
          let (fd, m2) = os Epoll_create1 m1;
          if fd < 0 then do {
            m3 \<leftarrow> call_free (the al) poller m2;
            Some (0, m3)
          } else Some (poller, put_poller poller
              \<lparr>epoll_fd = fd, poll_entries = replicate MAX_POLL_ENTRIES \<lparr>pe_fd = 0, pe_events = 0\<rparr>,
               poll_count = 0, poll_alloc = the al\<rparr> m2)
        }
      })"

definition beam_io_poller_destroy :: "ptr \<Rightarrow> 'a io_machine_scheme \<Rightarrow> 'a io_machine_scheme option" where
  "beam_io_poller_destroy poller m =
     (if poller = 0 then Some m
      else do {
        po \<leftarrow> pollers m poller;
        let m1 = (if epoll_fd po \<ge> 0 then snd (os (Close (epoll_fd po)) m) else m);
        m2 \<leftarrow> call_free (poll_alloc po) poller m1;
        Some (m2\<lparr>pollers := (pollers m2)(poller := None)\<rparr>)
      })"

definition epoll_mask :: "u32 \<Rightarrow> u32" where
  "epoll_mask events =
     (if events AND BEAM_IO_READABLE \<noteq> 0 then EPOLLIN else 0) OR
     (if events AND BEAM_IO_WRITABLE \<noteq> 0 then EPOLLOUT else 0) OR
     (if events AND BEAM_IO_ERROR \<noteq> 0 then EPOLLERR else 0)"

definition beam_io_poller_register ::
    "ptr \<Rightarrow> int \<Rightarrow> u32 \<Rightarrow> 'a io_machine_scheme \<Rightarrow> (beam_result \<times> 'a io_machine_scheme) option" where
  "beam_io_poller_register poller fd events m =
     (if poller = 0 \<or> fd < 0 then Some (BEAM_ERR_INVALID_ARG, m)
      else do {
        po \<leftarrow> pollers m poller;
        if unat (poll_count po) \<ge> MAX_POLL_ENTRIES then Some (BEAM_ERR_NO_MEMORY, m)
        else do {
          let (r, m1) = os (Epoll_ctl_add (epoll_fd po) fd (epoll_mask events)) m;
          if r < 0 then Some (BEAM_ERR_INVALID_ARG, m1)
          else Some (BEAM_OK, put_poller poller
            (po\<lparr>poll_entries := (poll_entries po)[unat (poll_count po) := \<lparr>pe_fd = fd, pe_events = events\<rparr>],
                poll_count := poll_count po + 1\<rparr>) m1)
        }
      })"

definition beam_io_poller_poll ::
    "ptr \<Rightarrow> int \<Rightarrow> bool \<Rightarrow> 'a io_machine_scheme \<Rightarrow> (beam_result \<times> int option \<times> 'a io_machine_scheme) option" where
  "beam_io_poller_poll poller timeout_ms out_ready m =
     (if poller = 0 \<or> \<not> out_ready then Some (BEAM_ERR_INVALID_ARG, None, m)
      else do {
        po \<leftarrow> pollers m poller;
        let (n, m1) = os (Epoll_wait (epoll_fd po) (int MAX_POLL_ENTRIES) timeout_ms) m;
        Some (if n < 0 then (BEAM_ERR_INVALID_ARG, Some 0, m1) else (BEAM_OK, Some n, m1))
      })"

subsection \<open>Sockets\<close>

definition O_NONBLOCK :: int where "O_NONBLOCK = 2048"

definition htons :: "u16 \<Rightarrow> u16" where
  "htons p = push_bit 8 p OR drop_bit 8 p"

definition set_nonblocking :: "int \<Rightarrow> 'a io_machine_scheme \<Rightarrow> 'a io_machine_scheme" where
  "set_nonblocking fd m =
     (let (flags, m1) = os (Fcntl_getfl fd) m; (r, m2) = os (Fcntl_setfl fd (flags OR O_NONBLOCK)) m1 in m2)"

definition beam_socket_listen :: "u16 \<Rightarrow> 'a io_machine_scheme \<Rightarrow> int \<times> 'a io_machine_scheme" where
  "beam_socket_listen port m =
     (let (fd, m1) = os Socket m in
      if fd < 0 then (- 1, m1)
      else let (r1, m2) = os (Setsockopt fd) m1; (r2, m3) = os (Bind fd (htons port)) m2 in
        if r2 < 0 then (- 1, snd (os (Close fd) m3))
        else let (r3, m4) = os (Listen fd 128) m3 in
          if r3 < 0 then (- 1, snd (os (Close fd) m4))
          else (fd, set_nonblocking fd m4))"

definition beam_socket_accept :: "int \<Rightarrow> 'a io_machine_scheme \<Rightarrow> int \<times> 'a io_machine_scheme" where
  "beam_socket_accept server_fd m =
     (if server_fd < 0 then (- 1, m)
      else let (client_fd, m1) = os (Accept server_fd) m in
        (client_fd, if client_fd \<ge> 0 then set_nonblocking client_fd m1 else m1))"

text \<open>The buffer has 256 bytes; the terminator behind more than 255 bytes would be written outside it.\<close>

definition beam_socket_dispatch_mailbox ::
    "ptr \<Rightarrow> int \<Rightarrow> 'a io_machine_scheme \<Rightarrow> (beam_result \<times> 'a io_machine_scheme) option" where
  "beam_socket_dispatch_mailbox proc client_fd m =
     (if proc = 0 \<or> client_fd < 0 then Some (BEAM_ERR_INVALID_ARG, m)
      else let (n, m1) = os (Read client_fd 255) m in
        if n \<le> 0 then Some (BEAM_ERR_NOT_FOUND, m1)
        else if n \<ge> 256 then None
        else beam_message_send_to_process proc (make_small_int (of_int n)) m1)"

lemmas io_defs =
  next_os_def os_def MAX_POLL_ENTRIES_def sizeof_beam_io_poller_def BEAM_IO_READABLE_def BEAM_IO_WRITABLE_def
  BEAM_IO_ERROR_def EPOLLIN_def EPOLLOUT_def EPOLLERR_def put_poller_def beam_io_poller_create_def
  beam_io_poller_destroy_def epoll_mask_def beam_io_poller_register_def beam_io_poller_poll_def O_NONBLOCK_def
  htons_def set_nonblocking_def beam_socket_listen_def beam_socket_accept_def beam_socket_dispatch_mailbox_def

lemmas [beam_defs] = io_defs

end
