(* ===== verification/Beam_Ext.thy ===== *)
theory Beam_Ext
  imports Beam_Io
begin

text \<open>
  Extensions in C, \<^verbatim>\<open>src/io/erl_nif.c\<close>, and the compiler to machine code, \<^verbatim>\<open>src/jit/beam_jit.c\<close>. The
  dynamic linker is a parameter of the three functions that call it. The pages the compiler maps are
  kept with their size and the bytes written at their start.
\<close>

subsection \<open>State\<close>

record erl_nif_env =
  env_proc :: ptr
  nif_alloc :: beam_allocator_i

record beam_jit_engine =
  total_compiled_bytes :: size_t
  jit_alloc :: beam_allocator_i

record code_map =
  cm_size :: size_t
  cm_code :: "u8 list"

record ext_machine = io_machine +
  nif_envs :: "ptr \<rightharpoonup> erl_nif_env"
  jit_engines :: "ptr \<rightharpoonup> beam_jit_engine"
  code_maps :: "ptr \<rightharpoonup> code_map"

definition sizeof_erl_nif_env :: size_t where "sizeof_erl_nif_env = 40"
definition sizeof_beam_jit_engine :: size_t where "sizeof_beam_jit_engine = 40"

subsection \<open>Extensions\<close>

definition enif_alloc_env ::
    "beam_allocator_i option \<Rightarrow> ptr \<Rightarrow> 'a ext_machine_scheme \<Rightarrow> (ptr \<times> 'a ext_machine_scheme) option" where
  "enif_alloc_env al proc m =
     (if \<not> alloc_arg_ok al then Some (0, m)
      else do {
        (env, m1) \<leftarrow> call_alloc (the al) sizeof_erl_nif_env m;
        if env = 0 then Some (0, m1)
        else Some (env, m1\<lparr>nif_envs := (nif_envs m1)(env \<mapsto> \<lparr>env_proc = proc, nif_alloc = the al\<rparr>)\<rparr>)
      })"

definition enif_free_env :: "ptr \<Rightarrow> 'a ext_machine_scheme \<Rightarrow> 'a ext_machine_scheme option" where
  "enif_free_env env m =
     (if env = 0 then Some m
      else do {
        e \<leftarrow> nif_envs m env;
        m1 \<leftarrow> call_free (nif_alloc e) env m;
        Some (m1\<lparr>nif_envs := (nif_envs m1)(env := None)\<rparr>)
      })"

text \<open>A C \<open>int\<close> is widened with its sign; the cast back takes the low 32 bits.\<close>

definition enif_make_int :: "u32 \<Rightarrow> eterm" where
  "enif_make_int val = make_small_int (scast val)"

definition enif_get_int :: "eterm \<Rightarrow> bool \<Rightarrow> bool \<times> u32 option" where
  "enif_get_int t out_val =
     (if \<not> beam_is_small_int t \<or> \<not> out_val then (False, None)
      else (True, Some (ucast (eterm_to_small_int t))))"

definition enif_make_tuple_from_array ::
    "ptr \<Rightarrow> eterm list option \<Rightarrow> u32 \<Rightarrow> 'a ext_machine_scheme \<Rightarrow> (eterm \<times> 'a ext_machine_scheme) option" where
  "enif_make_tuple_from_array env elements cnt m =
     (if env = 0 then Some (0, m)
      else do {
        e \<leftarrow> nif_envs m env;
        if env_proc e = 0 then Some (0, m)
        else beam_make_tuple (env_proc e) (ucast cnt) elements m
      })"

definition enif_dlopen :: "(u8 list \<Rightarrow> ptr) \<Rightarrow> u8 list option \<Rightarrow> ptr" where
  "enif_dlopen dlopen lib_path = (case lib_path of None \<Rightarrow> 0 | Some path \<Rightarrow> dlopen path)"

definition enif_dlsym :: "(ptr \<Rightarrow> u8 list \<Rightarrow> ptr) \<Rightarrow> ptr \<Rightarrow> u8 list option \<Rightarrow> ptr" where
  "enif_dlsym dlsym handle symbol_name =
     (if handle = 0 then 0 else case symbol_name of None \<Rightarrow> 0 | Some s \<Rightarrow> dlsym handle s)"

definition enif_dlclose :: "(ptr \<Rightarrow> 'm \<Rightarrow> 'm) \<Rightarrow> ptr \<Rightarrow> 'm \<Rightarrow> 'm" where
  "enif_dlclose dlclose handle m = (if handle \<noteq> 0 then dlclose handle m else m)"

subsection \<open>The compiler\<close>

definition beam_jit_engine_create ::
    "beam_allocator_i option \<Rightarrow> 'a ext_machine_scheme \<Rightarrow> (ptr \<times> 'a ext_machine_scheme) option" where
  "beam_jit_engine_create al m =
     (if \<not> alloc_arg_ok al then Some (0, m)
      else do {
        (jit, m1) \<leftarrow> call_alloc (the al) sizeof_beam_jit_engine m;
        if jit = 0 then Some (0, m1)
        else Some (jit, m1\<lparr>jit_engines := (jit_engines m1)(jit \<mapsto> \<lparr>total_compiled_bytes = 0, jit_alloc = the al\<rparr>)\<rparr>)
      })"

definition beam_jit_engine_destroy :: "ptr \<Rightarrow> 'a ext_machine_scheme \<Rightarrow> 'a ext_machine_scheme option" where
  "beam_jit_engine_destroy jit m =
     (if jit = 0 then Some m
      else do {
        e \<leftarrow> jit_engines m jit;
        m1 \<leftarrow> call_free (jit_alloc e) jit m;
        Some (m1\<lparr>jit_engines := (jit_engines m1)(jit := None)\<rparr>)
      })"

definition page_round :: "size_t \<Rightarrow> size_t \<Rightarrow> size_t" where
  "page_round page_size n = (n + page_size - 1) AND NOT (page_size - 1)"

text \<open>The emitted code does not depend on the instructions: \<^verbatim>\<open>xor eax, eax; ret\<close>.\<close>

definition stub_code :: "u8 list" where
  "stub_code = [0x31, 0xc0, 0xc3]"

definition beam_jit_compile_instructions ::
    "ptr \<Rightarrow> beam_instruction list option \<Rightarrow> size_t \<Rightarrow> 'a ext_machine_scheme \<Rightarrow> (ptr \<times> 'a ext_machine_scheme) option" where
  "beam_jit_compile_instructions jit code code_len m =
     (if jit = 0 \<or> code = None \<or> code_len = 0 then Some (0, m)
      else do {
        e \<leftarrow> jit_engines m jit;
        let (page, m1) = os Sysconf_pagesize m;
        let alloc_size = page_round (of_int page) (code_len * 64);
        let (r, m2) = os (Mmap alloc_size) m1;
        if r = - 1 then Some (0, m2)
        else if unat alloc_size < length stub_code then None
        else Some (of_int r, m2\<lparr>code_maps := (code_maps m2)(of_int r \<mapsto> \<lparr>cm_size = alloc_size, cm_code = stub_code\<rparr>),
               jit_engines := (jit_engines m2)(jit \<mapsto> e\<lparr>total_compiled_bytes := total_compiled_bytes e + alloc_size\<rparr>)\<rparr>)
      })"

text \<open>
  Unmapping the start of a mapping leaves its rest; unmapping more than was mapped takes memory of
  somebody else.
\<close>

definition unmap :: "ptr \<Rightarrow> size_t \<Rightarrow> 'a ext_machine_scheme \<Rightarrow> 'a ext_machine_scheme option" where
  "unmap p n m = do {
     cm \<leftarrow> code_maps m p;
     if n > cm_size cm then None
     else if n = cm_size cm then Some (m\<lparr>code_maps := (code_maps m)(p := None)\<rparr>)
     else if n = 0 then Some m
     else Some (m\<lparr>code_maps := (code_maps m)(p := None, p + n \<mapsto> \<lparr>cm_size = cm_size cm - n, cm_code = []\<rparr>)\<rparr>)
   }"

definition beam_jit_free_fn :: "ptr \<Rightarrow> ptr \<Rightarrow> size_t \<Rightarrow> 'a ext_machine_scheme \<Rightarrow> 'a ext_machine_scheme option" where
  "beam_jit_free_fn jit fn code_bytes m =
     (if fn = 0 then Some m
      else do {
        let (page, m1) = os Sysconf_pagesize m;
        let alloc_size = page_round (of_int page) code_bytes;
        let (r, m0) = os (Munmap fn alloc_size) m1;
        m2 \<leftarrow> (if r < 0 then Some m0 else unmap fn alloc_size m0);
        if jit = 0 then Some m2
        else do {
          e \<leftarrow> jit_engines m2 jit;
          Some (if total_compiled_bytes e \<ge> alloc_size
                then m2\<lparr>jit_engines := (jit_engines m2)(jit \<mapsto> e\<lparr>total_compiled_bytes := total_compiled_bytes e - alloc_size\<rparr>)\<rparr>
                else m2)
        }
      })"

lemmas ext_defs =
  sizeof_erl_nif_env_def sizeof_beam_jit_engine_def enif_alloc_env_def enif_free_env_def enif_make_int_def enif_get_int_def
  enif_make_tuple_from_array_def enif_dlopen_def enif_dlsym_def enif_dlclose_def beam_jit_engine_create_def
  beam_jit_engine_destroy_def page_round_def stub_code_def beam_jit_compile_instructions_def unmap_def beam_jit_free_fn_def

lemmas [beam_defs] = ext_defs

end
