(* ===== verification/Beam_Vm.thy ===== *)
theory Beam_Vm
  imports Beam_Ext
begin

text \<open>
  The virtual machine, \<^verbatim>\<open>src/core/beam_vm.c\<close> and \<^verbatim>\<open>src/core/beam_main.c\<close>: one context that holds the six
  parts, all created with the allocator of the caller.
\<close>

record beam_context =
  ctx_code_server :: ptr
  ctx_atom_table :: ptr
  ctx_ets_table :: ptr
  ctx_poller :: ptr
  ctx_run_queue :: ptr
  ctx_scheduler :: ptr
  ctx_alloc :: beam_allocator_i

record vm_machine = ext_machine +
  contexts :: "ptr \<rightharpoonup> beam_context"

definition sizeof_beam_context :: size_t where "sizeof_beam_context = 80"

text \<open>The bytes of the literal \<^verbatim>\<open>"system_ets"\<close>.\<close>

definition system_ets :: "u8 list" where
  "system_ets = [0x73, 0x79, 0x73, 0x74, 0x65, 0x6d, 0x5f, 0x65, 0x74, 0x73, 0]"

definition put_context :: "ptr \<Rightarrow> beam_context \<Rightarrow> 'a vm_machine_scheme \<Rightarrow> 'a vm_machine_scheme" where
  "put_context p c m = m\<lparr>contexts := (contexts m)(p \<mapsto> c)\<rparr>"

definition beam_vm_destroy :: "ptr \<Rightarrow> 'a vm_machine_scheme \<Rightarrow> 'a vm_machine_scheme option" where
  "beam_vm_destroy ctx m =
     (if ctx = 0 then Some m
      else do {
        c \<leftarrow> contexts m ctx;
        m1 \<leftarrow> (if ctx_scheduler c \<noteq> 0 then beam_scheduler_destroy (ctx_scheduler c) m else Some m);
        m2 \<leftarrow> (if ctx_run_queue c \<noteq> 0 then beam_run_queue_destroy (ctx_run_queue c) m1 else Some m1);
        m3 \<leftarrow> (if ctx_poller c \<noteq> 0 then beam_io_poller_destroy (ctx_poller c) m2 else Some m2);
        m4 \<leftarrow> (if ctx_ets_table c \<noteq> 0 then beam_ets_table_destroy (ctx_ets_table c) m3 else Some m3);
        m5 \<leftarrow> (if ctx_atom_table c \<noteq> 0 then beam_atom_table_destroy (ctx_atom_table c) m4 else Some m4);
        m6 \<leftarrow> (if ctx_code_server c \<noteq> 0 then beam_code_server_destroy (ctx_code_server c) m5 else Some m5);
        m7 \<leftarrow> call_free (ctx_alloc c) ctx m6;
        Some (m7\<lparr>contexts := (contexts m7)(ctx := None)\<rparr>)
      })"

definition beam_vm_create ::
    "beam_allocator_i option \<Rightarrow> 'a vm_machine_scheme \<Rightarrow> (ptr \<times> 'a vm_machine_scheme) option" where
  "beam_vm_create al m =
     (if \<not> alloc_arg_ok al then Some (0, m)
      else do {
        (ctx, m1) \<leftarrow> call_alloc (the al) sizeof_beam_context m;
        if ctx = 0 then Some (0, m1)
        else do {
          (cs, m2) \<leftarrow> beam_code_server_create al m1;
          (ats, m3) \<leftarrow> beam_atom_table_create al 1024 m2;
          (et, m4) \<leftarrow> beam_ets_table_create (Some system_ets) al m3;
          (po, m5) \<leftarrow> beam_io_poller_create al m4;
          (rq, m6) \<leftarrow> beam_run_queue_create al m5;
          (sc, m7) \<leftarrow> beam_scheduler_create 1 rq al m6;
          let m8 = put_context ctx \<lparr>ctx_code_server = cs, ctx_atom_table = ats, ctx_ets_table = et, ctx_poller = po,
                                   ctx_run_queue = rq, ctx_scheduler = sc, ctx_alloc = the al\<rparr> m7;
          if cs = 0 \<or> ats = 0 \<or> et = 0 \<or> po = 0 \<or> rq = 0 \<or> sc = 0 then do {
            m9 \<leftarrow> beam_vm_destroy ctx m8;
            Some (0, m9)
          } else Some (ctx, m8)
        }
      })"

definition beam_vm_get_code_server :: "ptr \<Rightarrow> 'a vm_machine_scheme \<Rightarrow> ptr option" where
  "beam_vm_get_code_server ctx m = (if ctx = 0 then Some 0 else map_option ctx_code_server (contexts m ctx))"

text \<open>The program: the lines it prints and the state it ends in; its exit status is always 0.\<close>

definition banner_lines :: "string list" where
  "banner_lines =
     [''========================================='', ''  BEAM VM MODULAR MONOLITH CORE ENGINE  '',
      ''=========================================''] "

definition beam_main :: "'a vm_machine_scheme \<Rightarrow> (string list \<times> 'a vm_machine_scheme) option" where
  "beam_main m = do {
     let (sys_alloc, m1) = beam_allocator_create_system m;
     (vm, m2) \<leftarrow> beam_vm_create (Some sys_alloc) m1;
     if vm \<noteq> 0 then do {
       m3 \<leftarrow> beam_vm_destroy vm m2;
       Some (banner_lines @
         [''[SYSTEM] BEAM VM Initialized successfully!'',
          ''[SYSTEM] All 6 Subsystems Wired via Dependency Injection (VTable).'',
          ''[SYSTEM] BEAM VM Shutdown cleanly with 0 leaks.''], m3)
     } else Some (banner_lines, m2)
   }"

lemmas vm_defs =
  sizeof_beam_context_def system_ets_def put_context_def beam_vm_destroy_def beam_vm_create_def
  beam_vm_get_code_server_def banner_lines_def beam_main_def

lemmas [beam_defs] = vm_defs

end
