(* ===== verification/Vm_Parts.thy ===== *)
theory Vm_Parts
  imports Beam_Vm Registry_Refinement Scheduler_Properties
begin

text \<open>
  The six parts of the virtual machine behind one interface. \<open>grows\<close> and \<open>shrinks\<close> say which objects
  and descriptors an operation adds or gives back and that everything else stays as it is; the locale
  \<open>vm_part\<close> is the contract of a part that is created and destroyed, and the code server, the run
  queue, the scheduler, the poller, the ETS table and the atom table are interpretations of it.
\<close>

subsection \<open>What an operation leaves alone\<close>

abbreviation blocks :: "'a machine_scheme \<Rightarrow> ptr set" where
  "blocks m \<equiv> fst ` set (live m)"

definition same_objs :: "ptr set \<Rightarrow> 'a io_machine_scheme \<Rightarrow> 'a io_machine_scheme \<Rightarrow> bool" where
  "same_objs S m m' \<longleftrightarrow>
     (\<forall>p \<in> S. run_queues m' p = run_queues m p \<and> scheds m' p = scheds m p \<and> ets_tables m' p = ets_tables m p \<and>
        atom_tables m' p = atom_tables m p \<and> code_servers m' p = code_servers m p \<and> pollers m' p = pollers m p) \<and>
     (\<forall>b \<in> set (live m). fst b \<in> S \<longrightarrow> b \<in> set (live m') \<and> (\<forall>a. in_block a b \<longrightarrow> words m' a = words m a))"

definition sys_env :: "beam_allocator_i \<Rightarrow> 'a machine_scheme \<Rightarrow> bool" where
  "sys_env vt m \<longleftrightarrow> alloc_env vt m \<and> vt_free vt = FN_SYS"

definition os_same :: "'a io_machine_scheme \<Rightarrow> 'a io_machine_scheme \<Rightarrow> bool" where
  "os_same m m' \<longleftrightarrow> os_results m' = os_results m \<and> os_trace m' = os_trace m"

text \<open>The objects \<open>R\<close> and the descriptors \<open>F\<close> were added; the objects \<open>R\<close> and descriptors \<open>F\<close> were given back.\<close>

definition grows :: "beam_allocator_i \<Rightarrow> 'a io_machine_scheme \<Rightarrow> 'a io_machine_scheme \<Rightarrow> ptr set \<Rightarrow> int set \<Rightarrow> bool" where
  "grows vt m m' R F \<longleftrightarrow> sys_env vt m' \<and> blocks m' = blocks m \<union> R \<and> R \<inter> blocks m = {} \<and> same_objs (blocks m) m m' \<and>
     open_fds m' = open_fds m \<union> F \<and> F \<inter> open_fds m = {}"

definition shrinks :: "beam_allocator_i \<Rightarrow> 'a io_machine_scheme \<Rightarrow> 'a io_machine_scheme \<Rightarrow> ptr set \<Rightarrow> int set \<Rightarrow> bool" where
  "shrinks vt m m' R F \<longleftrightarrow> sys_env vt m' \<and> blocks m' = blocks m - R \<and> same_objs (blocks m - R) m m' \<and>
     open_fds m' = open_fds m - F"

lemma diff_diff: "A - B - C = A - (B \<union> C)"
  by blast

lemma same_objs_refl [simp]: "same_objs S m m"
  by (simp add: same_objs_def)

lemma same_objs_trans: "same_objs S m m1 \<Longrightarrow> same_objs S m1 m2 \<Longrightarrow> same_objs S m m2"
  unfolding same_objs_def by (intro conjI ballI impI allI) (simp_all, metis)

lemma same_objs_mono: "same_objs S m m' \<Longrightarrow> T \<subseteq> S \<Longrightarrow> same_objs T m m'"
  unfolding same_objs_def by blast

lemma same_objsD:
  assumes "same_objs S m m'" "p \<in> S"
  shows "run_queues m' p = run_queues m p" "scheds m' p = scheds m p" "ets_tables m' p = ets_tables m p"
    "atom_tables m' p = atom_tables m p" "code_servers m' p = code_servers m p" "pollers m' p = pollers m p"
  using assms by (simp_all add: same_objs_def)

lemma same_objs_blocks:
  assumes "same_objs S m m'"
  shows "blocks m \<inter> S \<subseteq> blocks m'"
proof
  fix a assume "a \<in> blocks m \<inter> S"
  then obtain b where "b \<in> set (live m)" "a = fst b" "fst b \<in> S" by auto
  then show "a \<in> blocks m'" using assms unfolding same_objs_def by blast
qed

lemma grows_refl: "sys_env vt m \<Longrightarrow> grows vt m m {} {}"
  by (simp add: grows_def)

lemma growsD:
  assumes "grows vt m m' R F"
  shows "sys_env vt m'" "blocks m' = blocks m \<union> R" "R \<inter> blocks m = {}" "same_objs (blocks m) m m'"
    "open_fds m' = open_fds m \<union> F" "F \<inter> open_fds m = {}"
  using assms by (simp_all add: grows_def)

lemma shrinksD:
  assumes "shrinks vt m m' R F"
  shows "sys_env vt m'" "blocks m' = blocks m - R" "same_objs (blocks m - R) m m'" "open_fds m' = open_fds m - F"
  using assms by (simp_all add: shrinks_def)

lemma grows_trans:
  assumes "grows vt m m1 R F" "grows vt m1 m2 R' F'"
  shows "grows vt m m2 (R \<union> R') (F \<union> F')"
proof -
  note A = growsD [OF assms(1)] and B = growsD [OF assms(2)]
  have "same_objs (blocks m) m1 m2" using same_objs_mono [OF B(4)] A(2) by blast
  then have "same_objs (blocks m) m m2" using A(4) same_objs_trans by blast
  then show ?thesis unfolding grows_def using A B by auto
qed

lemma shrinks_trans:
  assumes "shrinks vt m m1 R F" "shrinks vt m1 m2 R' F'"
  shows "shrinks vt m m2 (R \<union> R') (F \<union> F')"
proof -
  note A = shrinksD [OF assms(1)] and B = shrinksD [OF assms(2)]
  have "same_objs (blocks m - (R \<union> R')) m1 m2"
    by (rule same_objs_mono [OF B(3)]) (simp add: A(2) diff_diff)
  moreover have "same_objs (blocks m - (R \<union> R')) m m1" using same_objs_mono [OF A(3)] by blast
  ultimately have "same_objs (blocks m - (R \<union> R')) m m2" using same_objs_trans by blast
  then show ?thesis unfolding shrinks_def using A B by (simp add: diff_diff)
qed

text \<open>What was added and given back again leaves the state as it was.\<close>

lemma grows_shrinks:
  assumes "grows vt m m1 R F" "shrinks vt m1 m2 R F"
  shows "grows vt m m2 {} {}"
proof -
  note A = growsD [OF assms(1)] and B = shrinksD [OF assms(2)]
  have "same_objs (blocks m) m1 m2" by (rule same_objs_mono [OF B(3)]) (use A(2,3) in auto)
  then have "same_objs (blocks m) m m2" using A(4) same_objs_trans by blast
  then show ?thesis unfolding grows_def using A B by auto
qed

subsection \<open>Single steps\<close>

lemma io_frame: "machine.more m' = machine.more m \<Longrightarrow>
    run_queues m' = run_queues m \<and> scheds m' = scheds m \<and> ets_tables m' = ets_tables m \<and> atom_tables m' = atom_tables m \<and>
    code_servers m' = code_servers m \<and> pollers m' = pollers m \<and> os_results m' = os_results m \<and> os_trace m' = os_trace m"
  by (cases m; cases m') simp

lemma alloc_grows:
  assumes "sys_env vt m" "good_size n"
  obtains p m' where "call_alloc vt n m = Some (p, m')" "grows vt m m' (if p = 0 then {} else {p}) {}" "os_same m m'"
    "machine.more m' = machine.more m"
proof -
  have env: "alloc_env vt m" using assms(1) by (simp add: sys_env_def)
  obtain p m' where P: "call_alloc vt n m = Some (p, m')" "machine_ok m'" "\<forall>vt'. vt_ok vt' m' = vt_ok vt' m"
    "words m' = words m" "machine.more m' = machine.more m" "set (live m) \<subseteq> set (live m')" "p \<noteq> 0 \<longrightarrow> p \<notin> blocks m"
    "blocks m' = (if p = 0 then blocks m else insert p (blocks m))"
    using env assms(2) by (rule env_alloc)
  note F = io_frame [OF P(5)]
  have "sys_env vt m'" using assms(1) P(2,3) by (simp add: sys_env_def)
  moreover have "same_objs (blocks m) m m'" using F P(4,6) by (auto simp: same_objs_def)
  ultimately have "grows vt m m' (if p = 0 then {} else {p}) {}"
    using P(7,8) F by (auto simp: grows_def open_fds_def)
  then show thesis using that P(1,5) F by (simp add: os_same_def)
qed

lemma free_shrinks:
  assumes "sys_env vt m" "p \<in> blocks m"
  obtains m' where "call_free vt p m = Some m'" "shrinks vt m m' {p} {}" "os_same m m'" "machine.more m' = machine.more m"
proof -
  have env: "alloc_env vt m" using assms(1) by (simp add: sys_env_def)
  obtain m' where P: "call_free vt p m = Some m'" "released vt {p} m m'" "machine.more m' = machine.more m"
    using env assms(2) by (rule released_free)
  note F = io_frame [OF P(3)] and L = releasedD [OF P(2)]
  have "sys_env vt m'" using assms(1) L(1,2) by (simp add: sys_env_def)
  moreover have "same_objs (blocks m - {p}) m m'" using F L(3,5) by (auto simp: same_objs_def)
  ultimately have "shrinks vt m m' {p} {}" using L(7) assms(1) F by (simp add: shrinks_def open_fds_def sys_env_def)
  then show thesis using that P(1,3) F by (simp add: os_same_def)
qed

text \<open>Updates of the stores at objects outside \<open>S\<close>, which keep memory and the system.\<close>

definition mem_same :: "'a io_machine_scheme \<Rightarrow> 'a io_machine_scheme \<Rightarrow> bool" where
  "mem_same m m' \<longleftrightarrow> live m' = live m \<and> raw m' = raw m \<and> sys_states m' = sys_states m \<and> arenas m' = arenas m"

lemma sys_env_same: "mem_same m m' \<Longrightarrow> sys_env vt m' = sys_env vt m"
  using machine_ok_cong [of m' m] vt_ok_cong [of m' m] by (simp add: mem_same_def sys_env_def)

lemma grows_upd:
  assumes "grows vt m m1 R F" "mem_same m1 m2" "same_objs (blocks m) m1 m2" "os_trace m2 = os_trace m1"
  shows "grows vt m m2 R F"
  using assms sys_env_same [OF assms(2)] same_objs_trans [OF growsD(4) [OF assms(1)] assms(3)]
  by (simp add: grows_def mem_same_def open_fds_def)

lemma shrinks_upd:
  assumes "shrinks vt m m1 R F" "mem_same m1 m2" "same_objs (blocks m - R) m1 m2" "os_trace m2 = os_trace m1"
  shows "shrinks vt m m2 R F"
  using assms sys_env_same [OF assms(2)] same_objs_trans [OF shrinksD(3) [OF assms(1)] assms(3)]
  by (simp add: shrinks_def mem_same_def open_fds_def)

text \<open>Writing an entry of a store at an object that is new, or removing it at one that goes.\<close>

lemma same_objs_put:
  "same_objs (- {p}) m (m\<lparr>run_queues := (run_queues m)(p := q)\<rparr>)"
  "same_objs (- {p}) m (m\<lparr>scheds := (scheds m)(p := s)\<rparr>)"
  "same_objs (- {p}) m (m\<lparr>ets_tables := (ets_tables m)(p := t)\<rparr>)"
  "same_objs (- {p}) m (m\<lparr>atom_tables := (atom_tables m)(p := a)\<rparr>)"
  "same_objs (- {p}) m (m\<lparr>code_servers := (code_servers m)(p := c)\<rparr>)"
  "same_objs (- {p}) m (m\<lparr>pollers := (pollers m)(p := po)\<rparr>)"
  by (simp_all add: same_objs_def)

lemma grows_put:
  assumes "grows vt m m1 R F" "p \<in> R" "mem_same m1 m2" "same_objs (- {p}) m1 m2" "os_trace m2 = os_trace m1"
  shows "grows vt m m2 R F"
  using grows_upd [OF assms(1,3) same_objs_mono [OF assms(4)] assms(5)] growsD(3) [OF assms(1)] assms(2) by blast

lemma shrinks_put:
  assumes "shrinks vt m m1 R F" "p \<in> R" "mem_same m1 m2" "same_objs (- {p}) m1 m2" "os_trace m2 = os_trace m1"
  shows "shrinks vt m m2 R F"
  using shrinks_upd [OF assms(1,3) same_objs_mono [OF assms(4)] assms(5)] assms(2) by blast

subsection \<open>The interface of a part of the virtual machine\<close>

text \<open>
  A part is created with an allocator and destroyed again. A creation that fails leaves nothing behind,
  one that succeeds owns the objects and descriptors it added; nobody else's work on other objects
  changes that (\<open>own_frame\<close>), and the destruction gives exactly them back. \<open>io\<close> marks a part that asks
  the system for a descriptor, which must be none that is open.
\<close>

locale vm_part =
  fixes vt :: beam_allocator_i and io :: bool
    and create :: "'a io_machine_scheme \<Rightarrow> (ptr \<times> 'a io_machine_scheme) option"
    and destroy :: "ptr \<Rightarrow> 'a io_machine_scheme \<Rightarrow> 'a io_machine_scheme option"
    and own :: "'a io_machine_scheme \<Rightarrow> ptr \<Rightarrow> ptr set \<Rightarrow> int set \<Rightarrow> bool"
  assumes create_run: "sys_env vt m \<Longrightarrow> (io \<longrightarrow> next_os m \<notin> open_fds m) \<Longrightarrow>
      \<exists>p m' R F. create m = Some (p, m') \<and> grows vt m m' R F \<and> (\<not> io \<longrightarrow> os_same m m') \<and>
        (if p = 0 then R = {} \<and> F = {} else own m' p R F)"
    and destroy_run: "sys_env vt m \<Longrightarrow> own m p R F \<Longrightarrow> \<exists>m'. destroy p m = Some m' \<and> shrinks vt m m' R F"
    and own_frame: "own m p R F \<Longrightarrow> same_objs R m m' \<Longrightarrow> own m' p R F"
    and own_blocks: "own m p R F \<Longrightarrow> p \<noteq> 0 \<and> R \<subseteq> blocks m"
begin

definition holds :: "'a io_machine_scheme \<Rightarrow> ptr \<Rightarrow> ptr set \<Rightarrow> int set \<Rightarrow> bool" where
  "holds m p R F \<longleftrightarrow> (if p = 0 then R = {} \<and> F = {} else own m p R F)"

lemma create_holds:
  assumes "sys_env vt m" "io \<longrightarrow> next_os m \<notin> open_fds m"
  obtains p m' R F where "create m = Some (p, m')" "grows vt m m' R F" "\<not> io \<longrightarrow> os_same m m'" "holds m' p R F"
  using create_run [OF assms] unfolding holds_def by blast

lemma create_plain:
  assumes "sys_env vt m" "\<not> io"
  obtains p m' R F where "create m = Some (p, m')" "grows vt m m' R F" "os_same m m'" "holds m' p R F"
proof -
  have "io \<longrightarrow> next_os m \<notin> open_fds m" using assms(2) by simp
  then obtain p m' R F where "create m = Some (p, m')" "grows vt m m' R F" "\<not> io \<longrightarrow> os_same m m'" "holds m' p R F"
    by (rule create_holds [OF assms(1)])
  then show thesis using that assms(2) by simp
qed

lemma create_io:
  assumes "sys_env vt m" "next_os m \<notin> open_fds m"
  obtains p m' R F where "create m = Some (p, m')" "grows vt m m' R F" "holds m' p R F"
proof -
  have "io \<longrightarrow> next_os m \<notin> open_fds m" using assms(2) by simp
  then obtain p m' R F where "create m = Some (p, m')" "grows vt m m' R F" "\<not> io \<longrightarrow> os_same m m'" "holds m' p R F"
    by (rule create_holds [OF assms(1)])
  then show thesis using that assms(2) by simp
qed

lemma destroy_holds:
  assumes "sys_env vt m" "holds m p R F"
  obtains m' where "(if p \<noteq> 0 then destroy p m else Some m) = Some m'" "shrinks vt m m' R F"
proof (cases "p = 0")
  case True
  then have "shrinks vt m m R F" using assms by (simp add: holds_def shrinks_def)
  then show thesis using that [of m] True by simp
next
  case False
  then show thesis using destroy_run [OF assms(1)] assms(2) that by (auto simp: holds_def)
qed

lemma holds_frame: "holds m p R F \<Longrightarrow> same_objs R m m' \<Longrightarrow> holds m' p R F"
  using own_frame by (auto simp: holds_def split: if_splits)

lemma holds_blocks: "holds m p R F \<Longrightarrow> R \<subseteq> blocks m"
  using own_blocks by (auto simp: holds_def split: if_splits)

lemma holds_grows: "holds m p R F \<Longrightarrow> grows vt m m' R' F' \<Longrightarrow> holds m' p R F"
  using holds_frame [OF _ same_objs_mono [OF growsD(4) holds_blocks]] .

lemma holds_shrinks: "holds m p R F \<Longrightarrow> shrinks vt m m' R' F' \<Longrightarrow> R \<inter> R' = {} \<Longrightarrow> holds m' p R F"
  using holds_frame [OF _ same_objs_mono [OF shrinksD(3)], of m p R F _ m' R' F'] holds_blocks [of m p R F] by blast

text \<open>When everything that came after the creation was undone, so is the creation by the destruction.\<close>

lemma undo:
  assumes "grows vt m m1 R F" "holds m1 p R F" "grows vt m1 m2 {} {}"
  obtains m3 where "(if p \<noteq> 0 then destroy p m2 else Some m2) = Some m3" "grows vt m m3 {} {}"
proof -
  have h: "holds m2 p R F" using holds_grows [OF assms(2,3)] .
  obtain m3 where d: "(if p \<noteq> 0 then destroy p m2 else Some m2) = Some m3" "shrinks vt m2 m3 R F"
    using destroy_holds [OF growsD(1) [OF assms(3)] h] by metis
  have "grows vt m m2 R F" using grows_trans [OF assms(1,3)] by simp
  then show thesis using that [OF d(1)] grows_shrinks d(2) by blast
qed

text \<open>A part that was created and destroyed leaves nothing behind.\<close>

lemma create_destroy:
  assumes "sys_env vt m" "io \<longrightarrow> next_os m \<notin> open_fds m"
  shows "\<exists>p m1 m2. create m = Some (p, m1) \<and> (if p \<noteq> 0 then destroy p m1 else Some m1) = Some m2 \<and> grows vt m m2 {} {}"
proof -
  obtain p m1 R F where c: "create m = Some (p, m1)" "grows vt m m1 R F" "holds m1 p R F" using create_holds [OF assms] by metis
  obtain m2 where d: "(if p \<noteq> 0 then destroy p m1 else Some m1) = Some m2" "shrinks vt m1 m2 R F"
    using destroy_holds [OF growsD(1) [OF c(2)] c(3)] by metis
  then show ?thesis using c(1) grows_shrinks [OF c(2) d(2)] by blast
qed

end

subsection \<open>Parts that are one object\<close>

lemma vm_sizes [simp]: "good_size sizeof_beam_code_server" "good_size sizeof_beam_io_poller" "good_size sizeof_beam_scheduler"
  by (simp_all add: good_size_def sizeof_beam_code_server_def sizeof_beam_io_poller_def sizeof_beam_scheduler_def)

lemma sys_env_arg: "sys_env vt m \<Longrightarrow> alloc_arg_ok (Some vt)"
  using vt_ok_arg by (auto simp: sys_env_def)

lemma sys_env_null: "sys_env vt m \<Longrightarrow> 0 \<notin> blocks m"
  using null_not_live by (auto simp: sys_env_def)

definition server_own :: "beam_allocator_i \<Rightarrow> 'a io_machine_scheme \<Rightarrow> ptr \<Rightarrow> ptr set \<Rightarrow> int set \<Rightarrow> bool" where
  "server_own vt m p R F \<longleftrightarrow> R = {p} \<and> F = {} \<and> p \<noteq> 0 \<and> p \<in> blocks m \<and>
     (\<exists>c. code_servers m p = Some c \<and> cs_count c = 0 \<and> cs_alloc c = vt)"

interpretation server_part: vm_part vt False "beam_code_server_create (Some vt)" beam_code_server_destroy "server_own vt"
  for vt
proof (unfold_locales, goal_cases)
  case (1 m)
  obtain p m1 where a: "call_alloc vt sizeof_beam_code_server m = Some (p, m1)" "grows vt m m1 (if p = 0 then {} else {p}) {}"
    "os_same m m1" using alloc_grows [OF 1(1) vm_sizes(1)] by metis
  show ?case
  proof (cases "p = 0")
    case True
    then show ?thesis using a sys_env_arg [OF 1(1)] by (auto simp: beam_code_server_create_def)
  next
    case False
    let ?c = "\<lparr>cs_modules = replicate MAX_LOADED_MODULES empty_module, cs_count = 0, cs_alloc = vt\<rparr>"
    have "grows vt m (put_server p ?c m1) {p} {}"
      by (rule grows_put [where p = p]) (use a(2) False in \<open>simp_all add: put_server_def mem_same_def same_objs_put\<close>)
    moreover have "server_own vt (put_server p ?c m1) p {p} {}"
      using growsD(2) [OF a(2)] False by (simp add: server_own_def put_server_def)
    moreover have "os_same m (put_server p ?c m1)" using a(3) by (simp add: os_same_def put_server_def)
    ultimately show ?thesis using a(1) False sys_env_arg [OF 1(1)] by (auto simp: beam_code_server_create_def)
  qed
next
  case (2 m p R F)
  then obtain c where c: "R = {p}" "F = {}" "p \<noteq> 0" "p \<in> blocks m" "code_servers m p = Some c" "cs_count c = 0" "cs_alloc c = vt"
    by (auto simp: server_own_def)
  obtain m1 where f: "call_free vt p m = Some m1" "shrinks vt m m1 {p} {}" using free_shrinks [OF 2(1) c(4)] by metis
  have "shrinks vt m (m1\<lparr>code_servers := (code_servers m1)(p := None)\<rparr>) {p} {}"
    by (rule shrinks_put [OF f(2), of p]) (simp_all add: mem_same_def same_objs_put)
  then show ?case using c f(1) by (simp add: beam_code_server_destroy_def)
next
  case (3 m p R F m')
  then show ?case using same_objs_blocks [OF 3(2)] same_objsD(5) [OF 3(2)] by (auto simp: server_own_def)
qed (auto simp: server_own_def)

definition rq_own :: "beam_allocator_i \<Rightarrow> 'a io_machine_scheme \<Rightarrow> ptr \<Rightarrow> ptr set \<Rightarrow> int set \<Rightarrow> bool" where
  "rq_own vt m p R F \<longleftrightarrow> R = {p} \<and> F = {} \<and> p \<noteq> 0 \<and> p \<in> blocks m \<and>
     (\<exists>q. run_queues m p = Some q \<and> (\<forall>lq \<in> set (queues q). lq_head lq = 0) \<and> rq_alloc q = vt)"

lemma free_levels_empty: "\<forall>lq \<in> set qs. lq_head lq = 0 \<Longrightarrow> free_levels vt qs m = Some m"
  by (induction qs) (simp_all add: free_level.simps)

interpretation rq_part: vm_part vt False "beam_run_queue_create (Some vt)" beam_run_queue_destroy "rq_own vt"
  for vt
proof (unfold_locales, goal_cases)
  case (1 m)
  obtain p m1 where a: "call_alloc vt sizeof_beam_run_queue m = Some (p, m1)" "grows vt m m1 (if p = 0 then {} else {p}) {}"
    "os_same m m1" using alloc_grows [OF 1(1) rq_sizes(2)] by metis
  show ?case
  proof (cases "p = 0")
    case True
    then show ?thesis using a sys_env_arg [OF 1(1)] by (auto simp: beam_run_queue_create_def)
  next
    case False
    let ?q = "\<lparr>queues = replicate (unat BEAM_NUM_PRIORITIES) \<lparr>lq_head = 0, lq_tail = 0, lq_count = 0\<rparr>, total_count = 0, rq_alloc = vt\<rparr>"
    have "grows vt m (put_rq p ?q m1) {p} {}"
      by (rule grows_put [where p = p]) (use a(2) False in \<open>simp_all add: put_rq_def mem_same_def same_objs_put\<close>)
    moreover have "rq_own vt (put_rq p ?q m1) p {p} {}"
      using growsD(2) [OF a(2)] False by (simp add: rq_own_def put_rq_def)
    moreover have "os_same m (put_rq p ?q m1)" using a(3) by (simp add: os_same_def put_rq_def)
    ultimately show ?thesis using a(1) False sys_env_arg [OF 1(1)] by (auto simp: beam_run_queue_create_def)
  qed
next
  case (2 m p R F)
  then obtain q where q: "R = {p}" "F = {}" "p \<noteq> 0" "p \<in> blocks m" "run_queues m p = Some q" "\<forall>lq \<in> set (queues q). lq_head lq = 0" "rq_alloc q = vt"
    by (auto simp: rq_own_def)
  obtain m1 where f: "call_free vt p m = Some m1" "shrinks vt m m1 {p} {}" using free_shrinks [OF 2(1) q(4)] by metis
  have "shrinks vt m (m1\<lparr>run_queues := (run_queues m1)(p := None)\<rparr>) {p} {}"
    by (rule shrinks_put [OF f(2), of p]) (simp_all add: mem_same_def same_objs_put)
  then show ?case using q f(1) free_levels_empty [OF q(6), of vt m] by (simp add: beam_run_queue_destroy_def)
next
  case (3 m p R F m')
  then show ?case using same_objs_blocks [OF 3(2)] same_objsD(1) [OF 3(2)] by (auto simp: rq_own_def)
qed (auto simp: rq_own_def)

definition sched_own :: "beam_allocator_i \<Rightarrow> 'a io_machine_scheme \<Rightarrow> ptr \<Rightarrow> ptr set \<Rightarrow> int set \<Rightarrow> bool" where
  "sched_own vt m p R F \<longleftrightarrow> R = {p} \<and> F = {} \<and> p \<noteq> 0 \<and> p \<in> blocks m \<and>
     (\<exists>s. scheds m p = Some s \<and> sched_alloc s = vt)"

interpretation sched_part: vm_part vt False "beam_scheduler_create i q (Some vt)" beam_scheduler_destroy "sched_own vt"
  for vt i q
proof (unfold_locales, goal_cases)
  case (1 m)
  obtain p m1 where a: "call_alloc vt sizeof_beam_scheduler m = Some (p, m1)" "grows vt m m1 (if p = 0 then {} else {p}) {}"
    "os_same m m1" using alloc_grows [OF 1(1) vm_sizes(3)] by metis
  consider "q = 0" | "q \<noteq> 0" "p = 0" | (new) "q \<noteq> 0" "p \<noteq> 0" by blast
  then show ?case
  proof cases
    case new
    let ?m = "m1\<lparr>scheds := (scheds m1)(p \<mapsto> \<lparr>sched_id = i, sched_run_queue = q, sched_alloc = vt\<rparr>)\<rparr>"
    have "grows vt m ?m {p} {}"
      by (rule grows_put [where p = p]) (use a(2) new in \<open>simp_all add: mem_same_def same_objs_put\<close>)
    moreover have "sched_own vt ?m p {p} {}"
      using growsD(2) [OF a(2)] new by (simp add: sched_own_def)
    moreover have "os_same m ?m" using a(3) by (simp add: os_same_def)
    ultimately show ?thesis using a(1) new sys_env_arg [OF 1(1)] by (auto simp: beam_scheduler_create_def)
  qed (use a sys_env_arg [OF 1(1)] grows_refl [OF 1(1)] in \<open>auto simp: beam_scheduler_create_def os_same_def\<close>)
next
  case (2 m p R F)
  then obtain s where s: "R = {p}" "F = {}" "p \<noteq> 0" "p \<in> blocks m" "scheds m p = Some s" "sched_alloc s = vt"
    by (auto simp: sched_own_def)
  obtain m1 where f: "call_free vt p m = Some m1" "shrinks vt m m1 {p} {}" using free_shrinks [OF 2(1) s(4)] by metis
  have "shrinks vt m (m1\<lparr>scheds := (scheds m1)(p := None)\<rparr>) {p} {}"
    by (rule shrinks_put [OF f(2), of p]) (simp_all add: mem_same_def same_objs_put)
  then show ?case using s f(1) by (simp add: beam_scheduler_destroy_def)
next
  case (3 m p R F m')
  then show ?case using same_objs_blocks [OF 3(2)] same_objsD(2) [OF 3(2)] by (auto simp: sched_own_def)
qed (auto simp: sched_own_def)

subsection \<open>The poller\<close>

definition poller_own :: "beam_allocator_i \<Rightarrow> 'a io_machine_scheme \<Rightarrow> ptr \<Rightarrow> ptr set \<Rightarrow> int set \<Rightarrow> bool" where
  "poller_own vt m p R F \<longleftrightarrow> R = {p} \<and> p \<noteq> 0 \<and> p \<in> blocks m \<and>
     (\<exists>po. pollers m p = Some po \<and> F = {epoll_fd po} \<and> epoll_fd po \<ge> 0 \<and> poll_alloc po = vt)"

lemma os_frame [simp]:
  "live (snd (os c m)) = live m" "same_objs S m (snd (os c m))" "fst (os c m) = next_os m"
  by (simp_all add: os_def same_objs_def)

lemma sys_env_os [simp]: "sys_env vt (snd (os c m)) = sys_env vt m"
  by (rule sys_env_same) (simp add: os_def mem_same_def)

lemma open_fds_os: "open_fds (snd (os c m)) = track_fd (c, next_os m) (open_fds m)"
  by (simp add: os_def open_fds_def)

lemma grows_os:
  assumes "grows vt m m1 R {}" "track_fd (c, next_os m1) (open_fds m1) = open_fds m1 \<union> F" "F \<inter> open_fds m1 = {}"
  shows "grows vt m (snd (os c m1)) R F"
  using assms same_objs_trans [OF growsD(4) [OF assms(1)] os_frame(2), of c] by (simp add: grows_def open_fds_os)

lemma shrinks_os:
  assumes "sys_env vt m" "track_fd (c, next_os m) (open_fds m) = open_fds m - F"
  shows "shrinks vt m (snd (os c m)) {} F"
  using assms by (simp add: shrinks_def open_fds_os)

interpretation poller_part: vm_part vt True "beam_io_poller_create (Some vt)" beam_io_poller_destroy "poller_own vt"
  for vt
proof (unfold_locales, goal_cases)
  case (1 m)
  note arg = sys_env_arg [OF 1(1)]
  obtain p m1 where a: "call_alloc vt sizeof_beam_io_poller m = Some (p, m1)" "grows vt m m1 (if p = 0 then {} else {p}) {}"
    "os_same m m1" using alloc_grows [OF 1(1) vm_sizes(2)] by metis
  let ?fd = "next_os m1" and ?m2 = "snd (os Epoll_create1 m1)"
  have fd: "?fd \<notin> open_fds m1" using 1(2) a(2,3) by (simp add: os_same_def next_os_def grows_def)
  consider "p = 0" | (fail) "p \<noteq> 0" "?fd < 0" | (new) "p \<noteq> 0" "0 \<le> ?fd" by linarith
  then show ?case
  proof cases
    case 1
    then show ?thesis using a arg by (auto simp: beam_io_poller_create_def)
  next
    case fail
    have g: "grows vt m ?m2 {p} {}" by (rule grows_os) (use a(2) fail in \<open>simp_all add: track_fd_def\<close>)
    obtain m3 where f: "call_free vt p ?m2 = Some m3" "shrinks vt ?m2 m3 {p} {}"
      using free_shrinks [OF growsD(1) [OF g], of p] growsD(2) [OF g] by (metis UnI2 singletonI)
    then show ?thesis using a(1) arg fail grows_shrinks [OF g f(2)]
      by (auto simp: beam_io_poller_create_def case_prod_unfold os_def)
  next
    case new
    let ?po = "\<lparr>epoll_fd = ?fd, poll_entries = replicate MAX_POLL_ENTRIES \<lparr>pe_fd = 0, pe_events = 0\<rparr>, poll_count = 0, poll_alloc = vt\<rparr>"
    have g: "grows vt m ?m2 {p} {?fd}" by (rule grows_os) (use a(2) new fd in \<open>simp_all add: track_fd_def\<close>)
    then have "grows vt m (put_poller p ?po ?m2) {p} {?fd}"
      by (rule grows_put [where p = p]) (simp_all add: put_poller_def mem_same_def same_objs_put)
    moreover have "poller_own vt (put_poller p ?po ?m2) p {p} {?fd}"
      using growsD(2) [OF g] new by (simp add: poller_own_def put_poller_def)
    ultimately show ?thesis using a(1) arg new by (auto simp: beam_io_poller_create_def os_def)
  qed
next
  case (2 m p R F)
  then obtain po where po: "R = {p}" "p \<noteq> 0" "p \<in> blocks m" "pollers m p = Some po" "F = {epoll_fd po}" "epoll_fd po \<ge> 0" "poll_alloc po = vt"
    by (auto simp: poller_own_def)
  let ?m1 = "snd (os (Close (epoll_fd po)) m)"
  have s: "shrinks vt m ?m1 {} F" by (rule shrinks_os [OF 2(1)]) (simp add: track_fd_def po)
  obtain m2 where f: "call_free vt p ?m1 = Some m2" "shrinks vt ?m1 m2 {p} {}"
    using free_shrinks [OF shrinksD(1) [OF s], of p] shrinksD(2) [OF s] po(3) by (metis Diff_empty)
  have "shrinks vt m m2 {p} F" using shrinks_trans [OF s f(2)] by simp
  then have "shrinks vt m (m2\<lparr>pollers := (pollers m2)(p := None)\<rparr>) {p} F"
    by (rule shrinks_put [of _ _ _ _ _ p]) (simp_all add: mem_same_def same_objs_put)
  then show ?case using po f(1) by (simp add: beam_io_poller_destroy_def)
next
  case (3 m p R F m')
  then show ?case using same_objs_blocks [OF 3(2)] same_objsD(6) [OF 3(2)] by (auto simp: poller_own_def)
qed (auto simp: poller_own_def)

subsection \<open>Parts with arrays\<close>

definition zero_array :: "'a machine_scheme \<Rightarrow> ptr \<Rightarrow> nat \<Rightarrow> bool" where
  "zero_array m b n \<longleftrightarrow> (\<exists>k. (b, k) \<in> set (live m) \<and> 8 * n \<le> unat k \<and>
     (\<forall>i < n. in_block (elem_addr b i) (b, k) \<and> words m (elem_addr b i) = 0))"

lemma zero_array_frame:
  assumes "zero_array m b n" "same_objs S m m'" "b \<in> S"
  shows "zero_array m' b n"
proof -
  obtain k where k: "(b, k) \<in> set (live m)" "8 * n \<le> unat k"
    "\<forall>i < n. in_block (elem_addr b i) (b, k) \<and> words m (elem_addr b i) = 0" using assms(1) by (auto simp: zero_array_def)
  then have "(b, k) \<in> set (live m') \<and> (\<forall>a. in_block a (b, k) \<longrightarrow> words m' a = words m a)"
    using assms(2,3) unfolding same_objs_def by fastforce
  then show ?thesis using k by (auto simp: zero_array_def)
qed

lemma zero_array_block: "zero_array m b n \<Longrightarrow> b \<in> blocks m"
  by (force simp: zero_array_def)

lemma zero_array_rd:
  assumes "machine_ok m" "zero_array m b n" "i < n"
  shows "rd m (elem_addr b i) = Some 0"
proof -
  have "array_at m b n" using assms(2) by (auto simp: zero_array_def array_at_def)
  then show ?thesis using array_accessible [OF assms(1) _ assms(3)] assms(2,3) by (auto simp: rd_def zero_array_def)
qed

lemma alloc_zeros:
  assumes "sys_env vt m" "0 < n" "n < 2 ^ 32"
  obtains p m1 m2 where "call_alloc vt (8 * of_nat n) m = Some (p, m1)" "p = 0 \<longrightarrow> grows vt m m1 {} {}"
    "p \<noteq> 0 \<longrightarrow> wr_list p (replicate n 0) m1 = Some m2" "p \<noteq> 0 \<longrightarrow> grows vt m m2 {p} {}" "p \<noteq> 0 \<longrightarrow> zero_array m2 p n"
    "os_same m m1" "p \<noteq> 0 \<longrightarrow> os_same m m2"
proof -
  obtain p m1 where a: "call_alloc vt (8 * of_nat n) m = Some (p, m1)" "grows vt m m1 (if p = 0 then {} else {p}) {}"
    "os_same m m1" using alloc_grows [OF assms(1) good_size_array(1) [OF assms(2,3)]] by metis
  show thesis
  proof (cases "p = 0")
    case True
    then show thesis using that [OF a(1), of m1] a(2,3) by simp
  next
    case False
    have ok: "machine_ok m1" using growsD(1) [OF a(2)] by (simp add: sys_env_def)
    have arr: "array_at m1 p n" using alloc_array [OF _ assms(2,3) a(1) False] assms(1) by (simp add: sys_env_def)
    obtain w where w: "wr_list p (replicate n 0) m1 = Some (m1\<lparr>words := w\<rparr>)" "\<forall>i < n. w (elem_addr p i) = 0"
      "\<forall>a. (\<forall>j < n. a \<noteq> elem_addr p j) \<longrightarrow> w a = words m1 a"
      using wr_list_array [OF ok arr, of 0 "replicate n 0"] by (auto simp: elem_addr_def [of p 0])
    obtain k where k: "(p, k) \<in> set (live m1)" "8 * n \<le> unat k" using arr by (auto simp: array_at_def)
    note inb = elem_in_block [OF ok k]
    have other: "w a = words m1 a" if b: "b \<in> set (live m1)" "fst b \<noteq> p" "in_block a b" for a b
    proof -
      have "apart b (p, k)" using live_apart [OF ok b(1) k(1)] b(2) by simp
      then have "\<forall>j < n. a \<noteq> elem_addr p j" using b(3) inb in_block_apart by metis
      then show ?thesis using w(3) by simp
    qed
    have "p \<notin> blocks m" using growsD(3) [OF a(2)] False by simp
    then have "same_objs (blocks m) m1 (m1\<lparr>words := w\<rparr>)" unfolding same_objs_def using other by auto
    then have "grows vt m (m1\<lparr>words := w\<rparr>) {p} {}"
      using grows_upd [OF a(2), of "m1\<lparr>words := w\<rparr>"] False by (simp add: mem_same_def)
    moreover have "zero_array (m1\<lparr>words := w\<rparr>) p n" using k inb w(2) by (auto simp: zero_array_def)
    ultimately show thesis using that [OF a(1), of "m1\<lparr>words := w\<rparr>"] w(1) False a(3) by (simp add: os_same_def)
  qed
qed


lemma free_zero_buckets:
  fixes m :: "'a io_machine_scheme"
  assumes "machine_ok m" "zero_array m b n"
  shows "free_buckets vt b [0..<n] m = Some m" "free_atom_buckets vt b [0..<n] m = Some m"
proof -
  have "free_buckets vt b is m = Some m \<and> free_atom_buckets vt b is m = Some m" if "set is \<subseteq> {0..<n}" for "is"
    using that by (induction "is") (simp_all add: zero_array_rd [OF assms] free_bucket.simps free_atoms.simps)
  then show "free_buckets vt b [0..<n] m = Some m" "free_atom_buckets vt b [0..<n] m = Some m" by simp_all
qed


lemma array_bounds: "(0 :: nat) < 64" "(64 :: nat) < 2 ^ 32" "(0 :: nat) < 1024" "(1024 :: nat) < 2 ^ 32"
  by simp_all

text \<open>Giving back an object that is held beside others.\<close>

lemma free_more:
  assumes "shrinks vt m m1 R {}" "p \<in> blocks m" "p \<notin> R"
  obtains m2 where "call_free vt p m1 = Some m2" "shrinks vt m m2 (insert p R) {}"
proof -
  obtain m2 where f: "call_free vt p m1 = Some m2" "shrinks vt m1 m2 {p} {}"
    using free_shrinks [OF shrinksD(1) [OF assms(1)], of p] shrinksD(2) [OF assms(1)] assms(2,3) by (metis DiffI)
  then show thesis using that shrinks_trans [OF assms(1) f(2)] by simp
qed

definition ets_own :: "beam_allocator_i \<Rightarrow> 'a io_machine_scheme \<Rightarrow> ptr \<Rightarrow> ptr set \<Rightarrow> int set \<Rightarrow> bool" where
  "ets_own vt m p R F \<longleftrightarrow> F = {} \<and> p \<noteq> 0 \<and> p \<in> blocks m \<and>
     (\<exists>tb. ets_tables m p = Some tb \<and> R = {p, ets_buckets tb} \<and> ets_buckets tb \<noteq> 0 \<and> ets_buckets tb \<noteq> p \<and>
        ets_bucket_count tb = ETS_DEFAULT_BUCKETS \<and> ets_alloc tb = vt \<and> zero_array m (ets_buckets tb) 64)"

lemma system_ets_name: "\<exists>nm. c_strncpy (replicate 32 0) system_ets 31 = Some nm"
  by (rule c_strncpy_total) (simp_all add: system_ets_def)

interpretation ets_part: vm_part vt False "beam_ets_table_create (Some system_ets) (Some vt)" beam_ets_table_destroy "ets_own vt"
  for vt
proof (unfold_locales, goal_cases)
  case (1 m)
  note arg = sys_env_arg [OF 1(1)]
  obtain nm where nm: "c_strncpy (replicate 32 0) system_ets 31 = Some nm" using system_ets_name by blast
  obtain p m1 where a: "call_alloc vt sizeof_beam_ets_table m = Some (p, m1)" "grows vt m m1 (if p = 0 then {} else {p}) {}"
    "os_same m m1" using alloc_grows [OF 1(1) ets_sizes(2)] by metis
  obtain b m2 m3 where b': "call_alloc vt (8 * of_nat 64) m1 = Some (b, m2)" "b = 0 \<longrightarrow> grows vt m1 m2 {} {}"
    "b \<noteq> 0 \<longrightarrow> wr_list b (replicate 64 0) m2 = Some m3" "b \<noteq> 0 \<longrightarrow> grows vt m1 m3 {b} {}" "b \<noteq> 0 \<longrightarrow> zero_array m3 b 64"
    "os_same m1 m2" "b \<noteq> 0 \<longrightarrow> os_same m1 m3" by (rule alloc_zeros [OF growsD(1) [OF a(2)] array_bounds(1,2)])
  note b = b' [rule_format]
  have eb: "call_alloc vt (8 * ETS_DEFAULT_BUCKETS) m1 = Some (b, m2)" using b(1) by (simp add: ETS_DEFAULT_BUCKETS_def)
  consider "p = 0" | (fail) "p \<noteq> 0" "b = 0" | (new) "p \<noteq> 0" "b \<noteq> 0" by blast
  then show ?case
  proof cases
    case 1
    then show ?thesis using a arg by (auto simp: beam_ets_table_create_def beam_ets_table_create_typed_def)
  next
    case fail
    then have g: "grows vt m m2 {p} {}" using grows_trans [OF a(2) b(2)] by simp
    obtain m4 where f: "call_free vt p m2 = Some m4" "shrinks vt m2 m4 {p} {}" "os_same m2 m4"
      using free_shrinks [OF growsD(1) [OF g], of p] growsD(2) [OF g] by (metis UnI2 singletonI)
    then show ?thesis using a(1,3) b(6) arg fail eb nm grows_shrinks [OF g f(2)]
      by (auto simp: beam_ets_table_create_def beam_ets_table_create_typed_def os_same_def)
  next
    case new
    let ?tb = "\<lparr>ets_name = nm, ets_type = BEAM_ETS_SET, ets_protection = BEAM_ETS_PUBLIC, ets_buckets = b,
      ets_bucket_count = ETS_DEFAULT_BUCKETS, ets_item_count = 0, ets_alloc = vt\<rparr>"
    have g: "grows vt m m3 {p, b} {}" using grows_trans [OF a(2) b(4)] new by (simp add: insert_commute)
    then have g': "grows vt m (put_ets p ?tb m3) {p, b} {}"
      by (rule grows_put [where p = p]) (simp_all add: put_ets_def mem_same_def same_objs_put)
    have "b \<noteq> p" using growsD(3) [OF b(4)] growsD(2) [OF a(2)] new by auto
    then have "ets_own vt (put_ets p ?tb m3) p {p, b} {}"
      using growsD(2) [OF g] new b(5) by (simp add: ets_own_def put_ets_def zero_array_def)
    then show ?thesis using a(1,3) b(7) arg new eb nm b(3) g'
      by (auto simp: beam_ets_table_create_def beam_ets_table_create_typed_def os_same_def ETS_DEFAULT_BUCKETS_def put_ets_def)
  qed
next
  case (2 m p R F)
  then obtain tb where t: "F = {}" "p \<noteq> 0" "p \<in> blocks m" "ets_tables m p = Some tb" "R = {p, ets_buckets tb}" "ets_buckets tb \<noteq> 0"
    "ets_buckets tb \<noteq> p" "ets_bucket_count tb = ETS_DEFAULT_BUCKETS" "ets_alloc tb = vt" "zero_array m (ets_buckets tb) 64"
    by (auto simp: ets_own_def)
  have ok: "machine_ok m" using 2(1) by (simp add: sys_env_def)
  obtain m1 where f: "call_free vt (ets_buckets tb) m = Some m1" "shrinks vt m m1 {ets_buckets tb} {}"
    using free_shrinks [OF 2(1) zero_array_block [OF t(10)]] by metis
  obtain m2 where f2: "call_free vt p m1 = Some m2" "shrinks vt m m2 R {}"
    using free_more [OF f(2) t(3)] t(5,7) by auto
  have "shrinks vt m (m2\<lparr>ets_tables := (ets_tables m2)(p := None)\<rparr>) R {}"
    by (rule shrinks_put [OF f2(2), of p]) (simp_all add: mem_same_def same_objs_put t(5))
  then show ?case using t(1-4,6,8,9) f(1) f2(1) free_zero_buckets(1) [OF ok t(10), of vt]
    by (simp add: beam_ets_table_destroy_def ETS_DEFAULT_BUCKETS_def)
next
  case (3 m p R F m')
  then show ?case using same_objs_blocks [OF 3(2)] same_objsD(3) [OF 3(2)] zero_array_frame [OF _ 3(2)]
    by (auto simp: ets_own_def)
next
  case (4 m p R F)
  then show ?case using zero_array_block by (auto simp: ets_own_def)
qed

definition atom_own :: "beam_allocator_i \<Rightarrow> 'a io_machine_scheme \<Rightarrow> ptr \<Rightarrow> ptr set \<Rightarrow> int set \<Rightarrow> bool" where
  "atom_own vt m p R F \<longleftrightarrow> F = {} \<and> p \<noteq> 0 \<and> p \<in> blocks m \<and>
     (\<exists>tb. atom_tables m p = Some tb \<and> R = {p, at_buckets tb, at_index_map tb} \<and> at_buckets tb \<noteq> 0 \<and> at_index_map tb \<noteq> 0 \<and>
        at_buckets tb \<noteq> p \<and> at_index_map tb \<noteq> p \<and> at_buckets tb \<noteq> at_index_map tb \<and>
        at_bucket_count tb = 1024 \<and> at_alloc tb = vt \<and> zero_array m (at_buckets tb) 1024 \<and> zero_array m (at_index_map tb) 1024)"

interpretation atom_part: vm_part vt False "beam_atom_table_create (Some vt) 1024" beam_atom_table_destroy "atom_own vt"
  for vt
proof (unfold_locales, goal_cases)
  case (1 m)
  note arg = sys_env_arg [OF 1(1)]
  obtain p m1 where a: "call_alloc vt sizeof_beam_atom_table m = Some (p, m1)" "grows vt m m1 (if p = 0 then {} else {p}) {}"
    "os_same m m1" using alloc_grows [OF 1(1) atom_sizes(2)] by metis
  obtain b m2 m3 where b': "call_alloc vt (8 * of_nat 1024) m1 = Some (b, m2)" "b = 0 \<longrightarrow> grows vt m1 m2 {} {}"
    "b \<noteq> 0 \<longrightarrow> wr_list b (replicate 1024 0) m2 = Some m3" "b \<noteq> 0 \<longrightarrow> grows vt m1 m3 {b} {}" "b \<noteq> 0 \<longrightarrow> zero_array m3 b 1024"
    "os_same m1 m2" "b \<noteq> 0 \<longrightarrow> os_same m1 m3" by (rule alloc_zeros [OF growsD(1) [OF a(2)] array_bounds(3,4)])
  note b = b' [rule_format]
  consider "p = 0" | (fail) "p \<noteq> 0" "b = 0" | (arr) "p \<noteq> 0" "b \<noteq> 0" by blast
  then show ?case
  proof cases
    case 1
    then show ?thesis using a arg by (auto simp: beam_atom_table_create_def)
  next
    case fail
    then have g: "grows vt m m2 {p} {}" using grows_trans [OF a(2) b(2)] by simp
    obtain m4 where f: "call_free vt p m2 = Some m4" "shrinks vt m2 m4 {p} {}" "os_same m2 m4"
      using free_shrinks [OF growsD(1) [OF g], of p] growsD(2) [OF g] by (metis UnI2 singletonI)
    then show ?thesis using a(1,3) b(1,6) arg fail grows_shrinks [OF g f(2)]
      by (auto simp: beam_atom_table_create_def os_same_def)
  next
    case arr
    have g: "grows vt m m3 {p, b} {}" using grows_trans [OF a(2) b(4)] arr by (simp add: insert_commute)
    have bp: "b \<noteq> p" using growsD(3) [OF b(4)] growsD(2) [OF a(2)] arr by auto
    obtain c m4 m5 where c': "call_alloc vt (8 * of_nat 1024) m3 = Some (c, m4)" "c = 0 \<longrightarrow> grows vt m3 m4 {} {}"
      "c \<noteq> 0 \<longrightarrow> wr_list c (replicate 1024 0) m4 = Some m5" "c \<noteq> 0 \<longrightarrow> grows vt m3 m5 {c} {}" "c \<noteq> 0 \<longrightarrow> zero_array m5 c 1024"
      "os_same m3 m4" "c \<noteq> 0 \<longrightarrow> os_same m3 m5" by (rule alloc_zeros [OF growsD(1) [OF g] array_bounds(3,4)])
    note c = c' [rule_format]
    show ?thesis
    proof (cases "c = 0")
      case True
      then have g4: "grows vt m m4 {p, b} {}" using grows_trans [OF g c(2)] by simp
      obtain m6 where f: "call_free vt b m4 = Some m6" "shrinks vt m4 m6 {b} {}" "os_same m4 m6"
        using free_shrinks [OF growsD(1) [OF g4], of b] growsD(2) [OF g4] by (metis UnI2 insertI1 insertI2)
      obtain m7 where f2: "call_free vt p m6 = Some m7" "shrinks vt m6 m7 {p} {}" "os_same m6 m7"
        using free_shrinks [OF shrinksD(1) [OF f(2)], of p] shrinksD(2) [OF f(2)] growsD(2) [OF g4] bp by (metis DiffI UnI2 insertI1 singletonD)
      have "shrinks vt m4 m7 {p, b} {}" using shrinks_trans [OF f(2) f2(2)] by (simp add: insert_commute)
      then show ?thesis using a(1,3) b(1,3,7) c(1,6) f(1,3) f2(1,3) arg arr True grows_shrinks [OF g4]
        by (auto simp: beam_atom_table_create_def os_same_def)
    next
      case False
      let ?tb = "\<lparr>at_alloc = vt, at_buckets = b, at_index_map = c, at_bucket_count = 1024, at_count = 0, at_index_map_capacity = 1024\<rparr>"
      have g5: "grows vt m m5 {p, b, c} {}" using grows_trans [OF g c(4)] False by (simp add: insert_commute)
      then have g': "grows vt m (put_atoms p ?tb m5) {p, b, c} {}"
        by (rule grows_put [where p = p]) (simp_all add: put_atoms_def mem_same_def same_objs_put)
      have cb: "c \<noteq> b" "c \<noteq> p" using growsD(3) [OF c(4)] growsD(2) [OF g] False by auto
      have "zero_array m5 b 1024"
        by (rule zero_array_frame [OF b(5) [OF arr(2)] growsD(4) [OF c(4) [OF False]]]) (use growsD(2) [OF g] in simp)
      then have "atom_own vt (put_atoms p ?tb m5) p {p, b, c} {}"
        using growsD(2) [OF g5] arr False c(5) bp cb by (simp add: atom_own_def put_atoms_def zero_array_def)
      then show ?thesis using a(1,3) b(1,3,7) c(1,3,7) arg arr False g'
        by (auto simp: beam_atom_table_create_def os_same_def put_atoms_def)
    qed
  qed
next
  case (2 m p R F)
  then obtain tb where t: "F = {}" "p \<noteq> 0" "p \<in> blocks m" "atom_tables m p = Some tb" "R = {p, at_buckets tb, at_index_map tb}"
    "at_buckets tb \<noteq> 0" "at_index_map tb \<noteq> 0" "at_buckets tb \<noteq> p" "at_index_map tb \<noteq> p" "at_buckets tb \<noteq> at_index_map tb"
    "at_bucket_count tb = 1024" "at_alloc tb = vt" "zero_array m (at_buckets tb) 1024" "zero_array m (at_index_map tb) 1024"
    by (auto simp: atom_own_def)
  have ok: "machine_ok m" using 2(1) by (simp add: sys_env_def)
  obtain m1 where f: "call_free vt (at_buckets tb) m = Some m1" "shrinks vt m m1 {at_buckets tb} {}"
    using free_shrinks [OF 2(1) zero_array_block [OF t(13)]] by metis
  obtain m2 where f2: "call_free vt (at_index_map tb) m1 = Some m2" "shrinks vt m m2 {at_index_map tb, at_buckets tb} {}"
    using free_more [OF f(2) zero_array_block [OF t(14)]] t(10) by auto
  obtain m3 where f3: "call_free vt p m2 = Some m3" "shrinks vt m m3 R {}"
    using free_more [OF f2(2) t(3)] t(5,8,9) by (auto simp: insert_commute)
  have "shrinks vt m (m3\<lparr>atom_tables := (atom_tables m3)(p := None)\<rparr>) R {}"
    by (rule shrinks_put [OF f3(2), of p]) (simp_all add: mem_same_def same_objs_put t(5))
  then show ?case using t(1-4,6,7,11,12) f(1) f2(1) f3(1) free_zero_buckets(2) [OF ok t(13), of vt]
    by (simp add: beam_atom_table_destroy_def)
next
  case (3 m p R F m')
  then show ?case using same_objs_blocks [OF 3(2)] same_objsD(4) [OF 3(2)] zero_array_frame [OF _ 3(2)]
    by (auto simp: atom_own_def)
next
  case (4 m p R F)
  then show ?case using zero_array_block by (auto simp: atom_own_def)
qed

end
