(* ===== verification/Vm_Properties.thy ===== *)
theory Vm_Properties
  imports Vm_Parts
begin

text \<open>
  The virtual machine as a whole, the poller, the sockets, the extensions and the compiler: what a
  creation and a destruction of the context leave behind, and what the single operations do on every
  answer of the operating system.
\<close>

subsection \<open>The context\<close>

lemma contexts_put: "contexts (put_context p c m) p = Some c"
  by (simp add: put_context_def)

lemma not_False: "\<not> False"
  by simp

lemma grows_context: "sys_env vt m \<Longrightarrow> grows vt m (put_context p c m) {} {}"
  by (rule grows_upd [OF grows_refl]) (simp_all add: mem_same_def put_context_def same_objs_def)

lemma sizeof_context [simp]: "good_size sizeof_beam_context"
  by (simp add: good_size_def sizeof_beam_context_def)

text \<open>
  The creation runs to the end whatever fails on the way, and the destruction takes back exactly what
  it added; null is returned exactly when one of the six parts is missing.
\<close>

lemma vm_parts_run:
  fixes m :: "'a vm_machine_scheme"
  assumes env: "sys_env vt m" and fresh: "next_os m \<notin> open_fds m" and ctx: "call_alloc vt sizeof_beam_context m = Some (ctx, m1)" "ctx \<noteq> 0"
  obtains c m8 m9 where "grows vt m m9 {} {}" "beam_vm_destroy ctx m8 = Some m9" "contexts m8 ctx = Some c"
    "beam_vm_create (Some vt) m =
       (if 0 \<in> {ctx_code_server c, ctx_atom_table c, ctx_ets_table c, ctx_poller c, ctx_run_queue c, ctx_scheduler c}
        then Some (0, m9) else Some (ctx, m8))"
proof -
  have a: "grows vt m m1 {ctx} {}" "os_same m m1"
  proof -
    obtain p m' where "call_alloc vt sizeof_beam_context m = Some (p, m')" "grows vt m m' (if p = 0 then {} else {p}) {}" "os_same m m'"
      by (rule alloc_grows [OF env sizeof_context])
    then show "grows vt m m1 {ctx} {}" "os_same m m1" using ctx by simp_all
  qed
  obtain cs m2 R2 F2 where p2: "beam_code_server_create (Some vt) m1 = Some (cs, m2)" "grows vt m1 m2 R2 F2" "os_same m1 m2" "server_part.holds vt m2 cs R2 F2"
    by (rule server_part.create_plain [OF growsD(1) [OF a(1)] not_False])
  obtain ats m3 R3 F3 where p3: "beam_atom_table_create (Some vt) 1024 m2 = Some (ats, m3)" "grows vt m2 m3 R3 F3" "os_same m2 m3" "atom_part.holds vt m3 ats R3 F3"
    by (rule atom_part.create_plain [OF growsD(1) [OF p2(2)] not_False])
  obtain et m4 R4 F4 where p4: "beam_ets_table_create (Some system_ets) (Some vt) m3 = Some (et, m4)" "grows vt m3 m4 R4 F4" "os_same m3 m4" "ets_part.holds vt m4 et R4 F4"
    by (rule ets_part.create_plain [OF growsD(1) [OF p3(2)] not_False])
  have fresh4: "next_os m4 \<notin> open_fds m4" using fresh a(2) p2(3) p3(3) p4(3) by (simp add: os_same_def next_os_def open_fds_def)
  obtain po m5 R5 F5 where p5: "beam_io_poller_create (Some vt) m4 = Some (po, m5)" "grows vt m4 m5 R5 F5" "poller_part.holds vt m5 po R5 F5"
    by (rule poller_part.create_io [OF growsD(1) [OF p4(2)] fresh4])
  obtain rq m6 R6 F6 where p6: "beam_run_queue_create (Some vt) m5 = Some (rq, m6)" "grows vt m5 m6 R6 F6" "rq_part.holds vt m6 rq R6 F6"
    by (rule rq_part.create_plain [OF growsD(1) [OF p5(2)] not_False])
  obtain sc m7 R7 F7 where p7: "beam_scheduler_create 1 rq (Some vt) m6 = Some (sc, m7)" "grows vt m6 m7 R7 F7" "sched_part.holds vt m7 sc R7 F7"
    by (rule sched_part.create_plain [OF growsD(1) [OF p6(2)] not_False])
  let ?c = "\<lparr>ctx_code_server = cs, ctx_atom_table = ats, ctx_ets_table = et, ctx_poller = po, ctx_run_queue = rq, ctx_scheduler = sc, ctx_alloc = vt\<rparr>"
  let ?m8 = "put_context ctx ?c m7"
  obtain n1 where d1: "(if sc \<noteq> 0 then beam_scheduler_destroy sc ?m8 else Some ?m8) = Some n1" "grows vt m6 n1 {} {}"
    by (rule sched_part.undo [OF p7(2,3) grows_context [OF growsD(1) [OF p7(2)]]])
  obtain n2 where d2: "(if rq \<noteq> 0 then beam_run_queue_destroy rq n1 else Some n1) = Some n2" "grows vt m5 n2 {} {}"
    by (rule rq_part.undo [OF p6(2,3) d1(2)])
  obtain n3 where d3: "(if po \<noteq> 0 then beam_io_poller_destroy po n2 else Some n2) = Some n3" "grows vt m4 n3 {} {}"
    by (rule poller_part.undo [OF p5(2,3) d2(2)])
  obtain n4 where d4: "(if et \<noteq> 0 then beam_ets_table_destroy et n3 else Some n3) = Some n4" "grows vt m3 n4 {} {}"
    by (rule ets_part.undo [OF p4(2,4) d3(2)])
  obtain n5 where d5: "(if ats \<noteq> 0 then beam_atom_table_destroy ats n4 else Some n4) = Some n5" "grows vt m2 n5 {} {}"
    by (rule atom_part.undo [OF p3(2,4) d4(2)])
  obtain n6 where d6: "(if cs \<noteq> 0 then beam_code_server_destroy cs n5 else Some n5) = Some n6" "grows vt m1 n6 {} {}"
    by (rule server_part.undo [OF p2(2,4) d5(2)])
  have g: "grows vt m n6 {ctx} {}" using grows_trans [OF a(1) d6(2)] by simp
  obtain n7 where d7: "call_free vt ctx n6 = Some n7" "shrinks vt n6 n7 {ctx} {}"
    using free_shrinks [OF growsD(1) [OF g], of ctx] growsD(2) [OF g] by (metis UnI2 singletonI)
  let ?m9 = "n7\<lparr>contexts := (contexts n7)(ctx := None)\<rparr>"
  have "shrinks vt n6 ?m9 {ctx} {}"
    by (rule shrinks_upd [OF d7(2)]) (simp_all add: mem_same_def same_objs_def)
  then have "grows vt m ?m9 {} {}" using grows_shrinks [OF g] by blast
  moreover have destroy: "beam_vm_destroy ctx ?m8 = Some ?m9"
    by (simp only: beam_vm_destroy_def contexts_put ctx(2) if_False beam_context.select_convs
      d1(1) d2(1) d3(1) d4(1) d5(1) d6(1) d7(1) Option.bind.bind_lunit)
  moreover have "beam_vm_create (Some vt) m = (if 0 \<in> {cs, ats, et, po, rq, sc} then Some (0, ?m9) else Some (ctx, ?m8))"
    using sys_env_arg [OF env] ctx p2(1) p3(1) p4(1) p5(1) p6(1) p7(1) destroy by (auto simp: beam_vm_create_def Let_def)
  ultimately show thesis using that [of ?m9 ?m8 ?c] by (simp add: put_context_def)
qed


lemma vm_destroy_null: "beam_vm_destroy 0 m = Some m"
  by (simp add: beam_vm_destroy_def)

lemma vm_run:
  fixes m :: "'a vm_machine_scheme"
  assumes "sys_env vt m" "next_os m \<notin> open_fds m"
  shows "\<exists>ctx m1 m2. beam_vm_create (Some vt) m = Some (ctx, m1) \<and> beam_vm_destroy ctx m1 = Some m2 \<and> grows vt m m2 {} {} \<and>
    (ctx \<noteq> 0 \<longrightarrow> (\<exists>c. contexts m1 ctx = Some c \<and>
       0 \<notin> {ctx_code_server c, ctx_atom_table c, ctx_ets_table c, ctx_poller c, ctx_run_queue c, ctx_scheduler c}))"
proof -
  obtain ctx m1 where a: "call_alloc vt sizeof_beam_context m = Some (ctx, m1)" "grows vt m m1 (if ctx = 0 then {} else {ctx}) {}"
    by (rule alloc_grows [OF assms(1) sizeof_context])
  show ?thesis
  proof (cases "ctx = 0")
    case True
    then have "beam_vm_create (Some vt) m = Some (0, m1)" "grows vt m m1 {} {}"
      using a sys_env_arg [OF assms(1)] by (simp_all add: beam_vm_create_def)
    then show ?thesis using vm_destroy_null by blast
  next
    case False
    obtain c m8 m9 where r: "grows vt m m9 {} {}" "beam_vm_destroy ctx m8 = Some m9" "contexts m8 ctx = Some c"
      "beam_vm_create (Some vt) m =
         (if 0 \<in> {ctx_code_server c, ctx_atom_table c, ctx_ets_table c, ctx_poller c, ctx_run_queue c, ctx_scheduler c}
          then Some (0, m9) else Some (ctx, m8))"
      by (rule vm_parts_run [OF assms a(1) False])
    show ?thesis
    proof (cases "0 \<in> {ctx_code_server c, ctx_atom_table c, ctx_ets_table c, ctx_poller c, ctx_run_queue c, ctx_scheduler c}")
      case True
      then have "beam_vm_create (Some vt) m = Some (0, m9)" using r(4) by (simp only: if_True)
      then show ?thesis using vm_destroy_null r(1) by blast
    next
      case False
      then have "beam_vm_create (Some vt) m = Some (ctx, m8)" using r(4) by (simp only: if_False)
      then show ?thesis using r(1-3) False by blast
    qed
  qed
qed
lemma create_system_env:
  assumes "machine_ok m" "beam_allocator_create_system m = (vt, m1)"
  shows "sys_env vt m1" "live m1 = live m" "vt_ctx vt \<noteq> 0 \<longrightarrow> vt_ctx vt \<in> dom (sys_states m1)"
    "machine.more m1 = machine.more m" "words m1 = words m"
  using assms
  by (auto simp: beam_allocator_create_system_def malloc_raw_def next_block_def next_result_def sys_env_def vt_ok_def machine_ok_def arena_ok_def Let_def
      split: prod.splits if_splits list.splits option.splits)

subsection \<open>Pages, integers and entries\<close>

lemma page_round_pow2:
  assumes "unat n + 2 ^ k \<le> 2 ^ 64" "k < 64"
  shows "unat (page_round (2 ^ k) n) = (unat n + 2 ^ k - 1) div 2 ^ k * 2 ^ k"
proof -
  have "unat (mask k :: size_t) = mask (min k LENGTH(64))"
    by (simp only: take_bit_minus_one_eq_mask [symmetric] unsigned_take_bit_eq unsigned_minus_1_eq_mask)
      (simp only: take_bit_minus_one_eq_mask take_bit_of_mask)
  then have m: "unat (mask k :: size_t) = 2 ^ k - 1" using assms(2) by (simp add: mask_nat_def min_def)
  have "unat (n + mask k) = unat n + 2 ^ k - 1"
    using unat_add_no_wrap [of n "mask k"] assms(1) m by (simp add: less_eq_Suc_le)
  moreover have "page_round (2 ^ k) n = (n + mask k) AND NOT (mask k)"
    by (simp add: page_round_def mask_eq_exp_minus_1 add_diff_eq)
  ultimately show ?thesis using unat_and_not_mask [of k "n + mask k"] assms(2) by simp
qed

lemma page_round_bounds:
  assumes "unat n + 2 ^ k \<le> 2 ^ 64" "k < 64"
  shows "unat n \<le> unat (page_round (2 ^ k) n)" "2 ^ k dvd unat (page_round (2 ^ k) n)" "unat (page_round (2 ^ k) n) < unat n + 2 ^ k"
proof -
  let ?x = "unat n + 2 ^ k - 1" and ?p = "2 ^ k :: nat"
  have x: "?x div ?p * ?p + ?x mod ?p = ?x" by (rule div_mult_mod_eq)
  have r: "?x mod ?p < ?p" "0 < ?p" by simp_all
  show "unat n \<le> unat (page_round (2 ^ k) n)" unfolding page_round_pow2 [OF assms] using x r by linarith
  show "unat (page_round (2 ^ k) n) < unat n + 2 ^ k" unfolding page_round_pow2 [OF assms] using x r by linarith
  show "2 ^ k dvd unat (page_round (2 ^ k) n)" unfolding page_round_pow2 [OF assms] by simp
qed

lemma bit_31:
  assumes "bit v a" "a < 32" "31 \<le> a" "b < 32" "31 \<le> b"
  shows "bit v b"
proof -
  have "a = b" using assms by linarith
  then show ?thesis using assms(1) by (rule subst)
qed




subsection \<open>A machine for examples\<close>

definition vm_demo :: "ptr list \<Rightarrow> int list \<Rightarrow> vm_machine" where
  "vm_demo as rs = \<lparr>words = (\<lambda>_. 0), live = [], raw = [], malloc_results = as, sys_states = Map.empty,
     arenas = Map.empty, msgs = Map.empty, mboxes = Map.empty, procs = Map.empty, rq_nodes = Map.empty,
     run_queues = Map.empty, scheds = Map.empty, pools = Map.empty, wargs = Map.empty, ets_entries = Map.empty,
     ets_tables = Map.empty, byte_blocks = Map.empty, atom_entries = Map.empty, atom_tables = Map.empty,
     beam_files = Map.empty, beam_modules = Map.empty, instr_arrays = Map.empty, code_servers = Map.empty,
     node_tables = Map.empty, os_results = rs, os_trace = [],
     pollers = [0x7000 \<mapsto> \<lparr>epoll_fd = 3, poll_entries = replicate MAX_POLL_ENTRIES \<lparr>pe_fd = 0, pe_events = 0\<rparr>,
       poll_count = 0, poll_alloc = sys_vt\<rparr>], nif_envs = Map.empty,
     jit_engines = [0x6000 \<mapsto> \<lparr>total_compiled_bytes = 0, jit_alloc = sys_vt\<rparr>],
     code_maps = Map.empty, contexts = Map.empty\<rparr>"

lemma vm_demo_ok:
  "live (vm_demo as rs) = []" "machine_ok (vm_demo as rs)" "vt_ok sys_vt (vm_demo as rs)" "open_fds (vm_demo as rs) = {}"
  by (simp_all add: vm_demo_def machine_ok_def arenas_apart_def vt_ok_def sys_vt_def open_fds_def)

definition vm_proc_demo :: "int list \<Rightarrow> vm_machine" where
  "vm_proc_demo rs = snd (the (beam_process_create 7 64 (Some sys_vt) (vm_demo [0x10000, 0x20000, 0x30000, 0x40000, 0x50000] rs)))"

lemma vm_proc_demo_run:
  "beam_process_create 7 64 (Some sys_vt) (vm_demo [0x10000, 0x20000, 0x30000, 0x40000, 0x50000] rs) = Some (0x10000, vm_proc_demo rs)"
  "procs (vm_proc_demo rs) = [0x10000 \<mapsto> demo_pr]" "os_results (vm_proc_demo rs) = rs"
  by (simp_all add: vm_proc_demo_def vm_demo_def sys_vt_def demo_pr_def beam_defs Let_def)

lemma proc_inv_vm_demo: "proc_inv (vm_demo as rs)"
proof -
  have "mail_abs (vm_demo as rs) Map.empty"
    by (auto simp: mail_abs_def abs_of_def mail_inv_def vm_demo_def machine_ok_def arenas_apart_def)
  moreover have "proc_own (vm_demo as rs)" by (rule proc_ownI) (simp_all add: vm_demo_def)
  ultimately show ?thesis by (auto simp: proc_inv_def)
qed

lemma proc_inv_vm_proc_demo: "proc_inv (vm_proc_demo rs)"
  using process_create_inv [OF proc_inv_vm_demo vm_demo_ok(3), of 64 7 "[0x10000, 0x20000, 0x30000, 0x40000, 0x50000]" rs]
  by (simp add: vm_proc_demo_run(1))

subsection \<open>Properties\<close>

text \<open>
  C23: the virtual machine gives back what it takes. Whatever the allocator and the system answer, the
  creation returns, and destroying its result (nothing, when it returned null) leaves exactly the
  objects and the open descriptors there were before, all unchanged. A context that was returned has
  all six parts.
\<close>

theorem vm_create_destroy:
  fixes m :: "'a vm_machine_scheme"
  assumes "alloc_env vt m" "vt_free vt = FN_SYS" "next_os m \<notin> open_fds m"
  shows "\<exists>ctx m1 m2. beam_vm_create (Some vt) m = Some (ctx, m1) \<and> beam_vm_destroy ctx m1 = Some m2 \<and>
    fst ` set (live m2) = fst ` set (live m) \<and> open_fds m2 = open_fds m \<and> same_objs (blocks m) m m2 \<and>
    (ctx \<noteq> 0 \<longrightarrow> (\<exists>c. contexts m1 ctx = Some c \<and>
       0 \<notin> {ctx_code_server c, ctx_atom_table c, ctx_ets_table c, ctx_poller c, ctx_run_queue c, ctx_scheduler c}))"
proof -
  have "sys_env vt m" using assms(1,2) by (simp add: sys_env_def)
  then obtain ctx m1 m2 where v: "beam_vm_create (Some vt) m = Some (ctx, m1)" "beam_vm_destroy ctx m1 = Some m2" "grows vt m m2 {} {}"
    "ctx \<noteq> 0 \<longrightarrow> (\<exists>c. contexts m1 ctx = Some c \<and>
       0 \<notin> {ctx_code_server c, ctx_atom_table c, ctx_ets_table c, ctx_poller c, ctx_run_queue c, ctx_scheduler c})"
    using vm_run assms(3) by blast
  then show ?thesis using growsD(2,4,5) [OF v(3)] by auto
qed

theorem vm_create_destroy_witness:
  "\<exists>ctx m1 m2. beam_vm_create (Some sys_vt) (vm_demo [0x100000, 0x200000] [3]) = Some (ctx, m1) \<and>
    beam_vm_destroy ctx m1 = Some m2 \<and> fst ` set (live m2) = {} \<and> open_fds m2 = {}"
proof -
  have "vt_free sys_vt = FN_SYS" by (simp add: sys_vt_def)
  then show ?thesis
    using vm_create_destroy [of "vm_demo [0x100000, 0x200000] [3]" sys_vt] vm_demo_ok [of "[0x100000, 0x200000]" "[3]"] by auto
qed

text \<open>
  The program itself terminates without undefined behaviour on every machine and gives back all
  objects of the virtual machine, but the bookkeeping block of its allocator is never freed, although
  it reports no leaks.
\<close>

theorem main_keeps_allocator:
  fixes m :: "'a vm_machine_scheme"
  assumes "machine_ok m" "next_os m \<notin> open_fds m"
  shows "\<exists>out m'. beam_main m = Some (out, m') \<and> fst ` set (live m') = fst ` set (live m) \<and> open_fds m' = open_fds m \<and>
    (let state = vt_ctx (fst (beam_allocator_create_system m)) in state \<noteq> 0 \<longrightarrow> state \<in> dom (sys_states m'))"
proof -
  obtain vt m1 where c: "beam_allocator_create_system m = (vt, m1)" by force
  note S = create_system_env [OF assms(1) c]
  have "next_os m1 \<notin> open_fds m1" "open_fds m1 = open_fds m" using assms(2) io_frame [OF S(4)] by (simp_all add: next_os_def open_fds_def)
  then obtain ctx m2 m3 where v: "beam_vm_create (Some vt) m1 = Some (ctx, m2)" "beam_vm_destroy ctx m2 = Some m3" "grows vt m1 m3 {} {}"
    using vm_run [OF S(1)] by auto
  have "sys_env vt m3" using growsD(1) [OF v(3)] .
  then have "vt_ctx vt \<noteq> 0 \<longrightarrow> vt_ctx vt \<in> dom (sys_states m3)"
    by (auto simp: sys_env_def vt_ok_def split: alloc_fn.splits)
  moreover have "\<exists>out. beam_main m = Some (out, m3)"
    using v(1,2) by (cases "ctx = 0") (auto simp: beam_main_def c vm_destroy_null)
  ultimately show ?thesis
    using growsD(2,5) [OF v(3)] S(2) c \<open>open_fds m1 = open_fds m\<close> by (auto simp: Let_def)
qed

theorem main_keeps_allocator_witness:
  "\<exists>out m'. beam_main (vm_demo [0x1000] [3]) = Some (out, m') \<and> fst ` set (live m') = {} \<and> 0x1000 \<in> dom (sys_states m')"
proof -
  have "vt_ctx (fst (beam_allocator_create_system (vm_demo [0x1000] [3]))) = 0x1000"
    by (simp add: vm_demo_def beam_defs)
  then show ?thesis using main_keeps_allocator [of "vm_demo [0x1000] [3]"] vm_demo_ok [of "[0x1000]" "[3]"] by auto
qed

text \<open>
  C27: opening a listening socket leaks no descriptor. Whichever of its system calls fails, the
  descriptors open afterwards are those open before and, on success, the one it returns.
\<close>

theorem listen_keeps_descriptors:
  assumes "next_os m \<notin> open_fds m" "beam_socket_listen port m = (r, m')"
  shows "open_fds m' = (if r < 0 then open_fds m else insert r (open_fds m))"
  using assms by (auto simp: beam_socket_listen_def set_nonblocking_def os_def open_fds_def track_fd_def Let_def split: if_splits)

theorem listen_keeps_descriptors_witness:
  "fst (beam_socket_listen 80 (vm_demo [] [7, 0, 0, - 1])) = - 1 \<and> open_fds (snd (beam_socket_listen 80 (vm_demo [] [7, 0, 0, - 1]))) = {}"
proof -
  let ?m = "vm_demo [] [7, 0, 0, - 1]"
  have run: "beam_socket_listen 80 ?m = (- 1, snd (beam_socket_listen 80 ?m))"
    by (simp add: beam_socket_listen_def os_def next_os_def vm_demo_def Let_def)
  have "next_os ?m \<notin> open_fds ?m" by (simp add: vm_demo_ok)
  from listen_keeps_descriptors [OF this run] show ?thesis using run vm_demo_ok(4) by (metis fst_conv if_P neg_less_0_iff_less zero_less_one)
qed

text \<open>
  C29: compiling and releasing a function. With a page size that is a power of two the compiler maps the
  requested 64 bytes per instruction rounded up to whole pages, and releasing the function with the
  same number of bytes unmaps exactly that memory and restores the byte count of the engine.
\<close>

theorem jit_compile_free:
  fixes m :: "'a ext_machine_scheme"
  assumes "jit \<noteq> 0" "jit_engines m jit = Some e" "n \<noteq> 0" "os_results m = 2 ^ k # r # 2 ^ k # u # rest"
    "k < 32" "unat (total_compiled_bytes e) + unat n * 64 + 2 ^ k \<le> 2 ^ 64"
    "r \<noteq> - 1" "(of_int r :: ptr) \<noteq> 0" "code_maps m (of_int r) = None" "0 \<le> u"
  shows "\<exists>m1 m2 sz. beam_jit_compile_instructions jit (Some code) n m = Some (of_int r, m1) \<and>
    code_maps m1 = (code_maps m)(of_int r \<mapsto> \<lparr>cm_size = sz, cm_code = stub_code\<rparr>) \<and>
    unat n * 64 \<le> unat sz \<and> unat sz < unat n * 64 + 2 ^ k \<and> 2 ^ k dvd unat sz \<and>
    beam_jit_free_fn jit (of_int r) (n * 64) m1 = Some m2 \<and> code_maps m2 = code_maps m \<and> jit_engines m2 = jit_engines m"
proof -
  let ?sz = "page_round (2 ^ k) (n * 64)" and ?fn = "of_int r :: ptr"
  have "0 < (2 :: nat) ^ k" by simp
  then have "unat n * 64 < 2 ^ 64" using assms(6) by linarith
  then have n: "unat (n * 64) = unat n * 64" by (simp add: unat_word_ariths)
  have "unat (n * 64) + 2 ^ k \<le> 2 ^ 64" using assms(6) n by simp
  note B = page_round_bounds [OF this] and k = assms(5)
  have pos: "64 \<le> unat n * 64" using assms(3) by (simp add: word_neq_0_conv word_less_nat_alt Suc_le_eq)
  have big: "\<not> unat ?sz < length stub_code" using B(1) k n pos by (simp add: stub_code_def)
  have tot: "total_compiled_bytes e + ?sz \<ge> ?sz"
    using unat_add_no_wrap [of "total_compiled_bytes e" ?sz] B(3) k n assms(6) by (simp add: word_le_nat_alt)
  let ?e = "e\<lparr>total_compiled_bytes := total_compiled_bytes e + ?sz\<rparr>"
  let ?m1 = "m\<lparr>os_results := 2 ^ k # u # rest, os_trace := os_trace m @ [(Sysconf_pagesize, 2 ^ k), (Mmap ?sz, r)],
    code_maps := (code_maps m)(?fn \<mapsto> \<lparr>cm_size = ?sz, cm_code = stub_code\<rparr>), jit_engines := (jit_engines m)(jit \<mapsto> ?e)\<rparr>"
  have c: "beam_jit_compile_instructions jit (Some code) n m = Some (?fn, ?m1)"
    using assms(1-4,7) big by (simp add: beam_jit_compile_instructions_def os_def next_os_def Let_def)
  have "\<exists>m2. beam_jit_free_fn jit ?fn (n * 64) ?m1 = Some m2 \<and> code_maps m2 = code_maps m \<and> jit_engines m2 = jit_engines m"
    using assms(1,2,8-10) tot by (auto simp: beam_jit_free_fn_def os_def next_os_def unmap_def Let_def)
  with c show ?thesis using B k n by auto
qed


theorem jit_compile_free_witness:
  "\<exists>m1 m2. beam_jit_compile_instructions 0x6000 (Some []) 3 (vm_demo [] [4096, 0x9000, 4096, 0]) = Some (0x9000, m1) \<and>
    map_option cm_code (code_maps m1 0x9000) = Some stub_code \<and>
    beam_jit_free_fn 0x6000 0x9000 192 m1 = Some m2 \<and> code_maps m2 = Map.empty"
proof -
  let ?m = "vm_demo [] [4096, 0x9000, 4096, 0]"
  have e: "jit_engines ?m 0x6000 = Some \<lparr>total_compiled_bytes = 0, jit_alloc = sys_vt\<rparr>" "os_results ?m = 2 ^ 12 # 0x9000 # 2 ^ 12 # 0 # []"
    "code_maps ?m = Map.empty" by (simp_all add: vm_demo_def)
  obtain m1 m2 sz where c: "beam_jit_compile_instructions 0x6000 (Some []) 3 ?m = Some (of_int 0x9000, m1)"
    "code_maps m1 = (code_maps ?m)(of_int 0x9000 \<mapsto> \<lparr>cm_size = sz, cm_code = stub_code\<rparr>)"
    "beam_jit_free_fn 0x6000 (of_int 0x9000) (3 * 64) m1 = Some m2" "code_maps m2 = code_maps ?m"
    using jit_compile_free [OF _ e(1) _ e(2), of 3 "[]"] e(3) by auto
  then show ?thesis by (simp add: e(3))
qed



text \<open>
  C24: data on a socket becomes a message. When the read returns a positive number of bytes, that number
  is appended to the mailbox of the process, unless there is no memory; otherwise no mailbox changes.
\<close>

theorem socket_dispatch_delivers:
  assumes "proc_inv m" "procs m p = Some pr" "mail_abs m A" "A (mailbox pr) = Some w" "0 \<le> fd" "next_os m < 256"
  shows "\<exists>r m'. beam_socket_dispatch_mailbox p fd m = Some (r, m') \<and>
    (r = BEAM_ERR_NOT_FOUND \<and> next_os m \<le> 0 \<and> mail_abs m' A \<or>
     r = BEAM_OK \<and> 0 < next_os m \<and> mail_abs m' (A(mailbox pr \<mapsto> spec_enqueue (make_small_int (of_int (next_os m))) w)) \<or>
     r = BEAM_ERR_NO_MEMORY \<and> 0 < next_os m \<and> mail_abs m' A)"
proof -
  let ?m1 = "snd (os (Read fd 255) m)"
  note D = proc_invD [OF assms(1,2)]
  have A: "mail_abs ?m1 A" using mail_abs_cong [of ?m1 m A] assms(3) by (simp add: os_def)
  have pr: "procs ?m1 p = Some pr" using assms(2) by (simp add: os_def)
  show ?thesis
  proof (cases "0 < next_os m")
    case True
    then show ?thesis using mail_enqueue [OF A assms(4), of "make_small_int (of_int (next_os m))"] D(4,5) assms(5,6) pr
      by (fastforce simp: beam_socket_dispatch_mailbox_def case_prod_unfold beam_message_send_to_process_def
          beam_process_get_mailbox_def proc_get_def)
  qed (use D(4) A assms(5) in \<open>simp add: beam_socket_dispatch_mailbox_def case_prod_unfold\<close>)
qed

theorem socket_dispatch_delivers_witness:
  "\<exists>r m' A w. beam_socket_dispatch_mailbox 0x10000 5 (vm_proc_demo [17]) = Some (r, m') \<and>
    (r = BEAM_OK \<and> mail_abs m' (A(0x30000 \<mapsto> spec_enqueue (make_small_int 17) w)) \<or> r = BEAM_ERR_NO_MEMORY \<and> mail_abs m' A)"
proof -
  have p: "procs (vm_proc_demo [17]) 0x10000 = Some demo_pr" by (simp add: vm_proc_demo_run)
  obtain A where A: "mail_abs (vm_proc_demo [17]) A" using proc_inv_vm_proc_demo by (auto simp: proc_inv_def)
  then obtain w where w: "A (mailbox demo_pr) = Some w" using proc_invD(6) [OF proc_inv_vm_proc_demo p] by blast
  have n: "next_os (vm_proc_demo [17]) = 17" by (simp add: next_os_def vm_proc_demo_run)
  from socket_dispatch_delivers [OF proc_inv_vm_proc_demo p A w, of 5]
  have "\<exists>r m'. beam_socket_dispatch_mailbox 0x10000 5 (vm_proc_demo [17]) = Some (r, m') \<and>
    (r = BEAM_OK \<and> mail_abs m' (A(0x30000 \<mapsto> spec_enqueue (make_small_int 17) w)) \<or> r = BEAM_ERR_NO_MEMORY \<and> mail_abs m' A)"
    by (simp add: n)
  then show ?thesis by iprover
qed


text \<open>
  An integer handed to an extension and back is the same: every C \<open>int\<close> fits into a small integer,
  and its sign survives.
\<close>

theorem nif_int_roundtrip: "enif_get_int (enif_make_int v) True = (True, Some v)"
proof -
  have "ucast (signed_take_bit 59 (scast v :: 64 word)) = v" by (rule bit_word_eqI) (auto simp: bit_simps min_def elim: bit_31)
  then show ?thesis by (simp add: enif_get_int_def enif_make_int_def small_int_wraps)
qed

end
