(* ===== verification/Mailbox_Interleaving.thy ===== *)
theory Mailbox_Interleaving
  imports Mailbox_Refinement Bucket_Array "HOL-Library.Multiset"
begin

text \<open>
  Senders that run at the same time. \<^verbatim>\<open>beam_mailbox_enqueue\<close> takes no lock: it is split here into its
  accesses to shared memory (allocation, exchange of the tail, the write of the link, the atomic
  counter, the load and the store of the plain counter), and the accesses of any number of senders
  are interleaved. The nodes between an exchange and its link are the gaps of the queue.
\<close>

subsection \<open>The actions of a sender\<close>

text \<open>
  Where a sender stands: what it read so far is part of its state.
\<close>

datatype sender =
    Start eterm
  | Ready eterm ptr
  | Swapped eterm ptr ptr
  | Linked eterm
  | Counted eterm
  | Counting eterm size_t
  | Sent eterm
  | Refused eterm

definition send_action ::
    "ptr \<Rightarrow> sender \<Rightarrow> 'a mail_machine_scheme \<Rightarrow> (sender \<times> 'a mail_machine_scheme) option" where
  "send_action mbox s m = do {
     mb \<leftarrow> mboxes m mbox;
     case s of
       Start msg \<Rightarrow> do {
         (node, m1) \<leftarrow> call_alloc (mb_alloc mb) sizeof_beam_message m;
         Some (if node = 0 then (Refused msg, m1) else (Ready msg node, put_msg node \<lparr>body = msg, msg_next = 0\<rparr> m1))
       }
     | Ready msg node \<Rightarrow> Some (Swapped msg node (mb_tail mb), put_mbox mbox (mb\<lparr>mb_tail := node\<rparr>) m)
     | Swapped msg node prev_tail \<Rightarrow>
         if prev_tail = 0 then Some (Linked msg, put_mbox mbox (mb\<lparr>mb_head := node\<rparr>) m)
         else do {
           prev \<leftarrow> msgs m prev_tail;
           Some (Linked msg, put_msg prev_tail (prev\<lparr>msg_next := node\<rparr>) m)
         }
     | Linked msg \<Rightarrow> Some (Counted msg, put_mbox mbox (mb\<lparr>atomic_count := atomic_count mb + 1\<rparr>) m)
     | Counted msg \<Rightarrow> Some (Counting msg (mb_count mb), m)
     | Counting msg c \<Rightarrow> Some (Sent msg, put_mbox mbox (mb\<lparr>mb_count := c + 1\<rparr>) m)
     | Sent msg \<Rightarrow> Some (Sent msg, m)
     | Refused msg \<Rightarrow> Some (Refused msg, m)
   }"

text \<open>
  One access of one sender.
\<close>

inductive send_step :: "ptr \<Rightarrow> sender list \<times> 'a mail_machine_scheme \<Rightarrow> sender list \<times> 'a mail_machine_scheme \<Rightarrow> bool" for mbox where
  sender: "i < length ss \<Longrightarrow> send_action mbox (ss ! i) m = Some (s, m') \<Longrightarrow> send_step mbox (ss, m) (ss[i := s], m')"

inductive_cases send_stepE: "send_step mbox (ss, m) z"





subsection \<open>Queues with missing links\<close>












subsection \<open>The invariant\<close>






















definition send_result :: "sender \<Rightarrow> beam_result" where
  "send_result s = (case s of Sent _ \<Rightarrow> BEAM_OK | _ \<Rightarrow> BEAM_ERR_NO_MEMORY)"

text \<open>
  C26: the accesses are those of the send. A sender that is not interrupted does exactly what
  \<^verbatim>\<open>beam_mailbox_enqueue\<close> does, in six accesses, on every state and with every answer of the
  allocator.
\<close>

theorem send_alone:
  assumes "mbox \<noteq> 0"
  shows "map_option (\<lambda>(s, m'). (send_result s, m')) (iterate (\<lambda>(s, m). send_action mbox s m) 6 (Start v, m)) =
    beam_mailbox_enqueue mbox v m"
proof (cases "mboxes m mbox")
  case None
  then show ?thesis by (simp add: beam_mailbox_enqueue_def send_action_def assms eval_nat_numeral)
next
  case (Some mb)
  show ?thesis
  proof (cases "call_alloc (mb_alloc mb) sizeof_beam_message m")
    case None
    then show ?thesis using Some by (simp add: beam_mailbox_enqueue_def send_action_def assms eval_nat_numeral)
  next
    case (Some r)
    obtain a m1 where r: "r = (a, m1)" by (cases r)
    have "mboxes m1 mbox = Some mb" using mail_frame [OF call_alloc_frame(2)] Some r \<open>mboxes m mbox = Some mb\<close> by metis
    then show ?thesis using Some r \<open>mboxes m mbox = Some mb\<close>
      by (cases "msgs m1 (mb_tail mb)") (auto simp: beam_mailbox_enqueue_def send_action_def assms eval_nat_numeral
          put_mbox_def put_msg_def send_result_def Let_def)
  qed
qed

theorem send_alone_witness:
  "map_option (\<lambda>(s, m'). (send_result s, m')) (iterate (\<lambda>(s, m). send_action 4096 s m) 6 (Start 7, mail_demo)) =
   beam_mailbox_enqueue 4096 7 mail_demo"
  by (rule send_alone) simp

end
